(* ===== verification/Prelude.thy ===== *)
theory Prelude
  imports Main "HOL-Library.Word" "HOL-Library.Monad_Syntax"
begin

text \<open>
  The shared base of the development: the machine types the kernel uses, the constants of
  \<^verbatim>\<open>src/sos/constants.h\<close> and \<^verbatim>\<open>src/libs/sos/include\<close>, the reading of a
  failed C assertion as the value \<open>None\<close>, the lemmas on page masks, and the generic facts on
  options, lists and function updates that every component uses.

  A computation that can fail an \<^verbatim>\<open>assert\<close>, follow a null or dangling pointer, or index an
  array out of range has an \<open>option\<close> result, and \<open>None\<close> is exactly that outcome. Loops whose
  termination depends on the heap are \<^theory_text>\<open>partial_function (option)\<close>, where
  \<open>None\<close> also covers a loop that never ends, so a theorem with \<open>Some\<close> in its conclusion says
  that the code returns and that no assertion fails.
\<close>

unbundle bit_operations_syntax

type_synonym u8 = "8 word"
type_synonym u32 = "32 word"
type_synonym u64 = "64 word"

text \<open>Memory as the kernel addresses it: one word at each word address, one byte at each address.\<close>

type_synonym word_mem = "u32 \<Rightarrow> u32"
type_synonym byte_mem = "u32 \<Rightarrow> char"

text \<open>Simplification sets: evaluation of closed states, and the laws of the pointer structures.\<close>

named_theorems exec_simps
named_theorems chain_simps

section \<open>Constants\<close>

definition PAGESIZE :: u32 where
  [simp]: "PAGESIZE = 4096"

definition PAGEALIGN :: u32 where
  [simp]: "PAGEALIGN = 0xFFFFF000"

definition PAGEWORDS :: u32 where
  [simp]: "PAGEWORDS = 1024"

definition ONE_MEG :: u32 where
  [simp]: "ONE_MEG = 0x100000"

definition ADDRESS_ALL :: u32 where
  [simp]: "ADDRESS_ALL = 0xFFFFFFFF"

definition ADDRESS_NONE :: u32 where
  [simp]: "ADDRESS_NONE = 0xFFFFFFFE"

definition MAX_ADDRSPACES :: int where
  [simp]: "MAX_ADDRSPACES = 256"

definition MAX_THREADS :: int where
  [simp]: "MAX_THREADS = 256"

definition PROCESS_MAX_FILES :: nat where
  [simp]: "PROCESS_MAX_FILES = 16"

definition PROCESS_MAX_FDS :: nat where
  [simp]: "PROCESS_MAX_FDS = 19"

definition CONSOLE_BUF_SIZ :: nat where
  [simp]: "CONSOLE_BUF_SIZ = 128"

definition COPY_BUFSIZ :: u32 where
  [simp]: "COPY_BUFSIZ = 16384"

definition IO_MAX_BUFFER :: u32 where
  [simp]: "IO_MAX_BUFFER = 1100"

definition MAX_FILE_NAME :: nat where
  [simp]: "MAX_FILE_NAME = 32"

definition SWAPFILE_FN :: string where
  [simp]: "SWAPFILE_FN = ''.swap''"

definition VFS_NIL_FILE :: int where
  [simp]: "VFS_NIL_FILE = -1"

text \<open>The file modes; \<^verbatim>\<open>fmode_t\<close> is one unsigned byte.\<close>

definition FM_READ :: u8 where
  [simp]: "FM_READ = 4"

definition FM_WRITE :: u8 where
  [simp]: "FM_WRITE = 2"

definition FM_EXEC :: u8 where
  [simp]: "FM_EXEC = 1"

definition FM_NOTRUNC :: u8 where
  [simp]: "FM_NOTRUNC = 8"

definition FM_UNLIMITED_RW :: u32 where
  [simp]: "FM_UNLIMITED_RW = 0xFFFFFFFF"

text \<open>The return codes of the VFS; the enumeration counts up from \<^verbatim>\<open>SOS_VFS_ERROR\<close>.\<close>

definition SOS_VFS_OK :: int where
  [simp]: "SOS_VFS_OK = 0"
definition SOS_VFS_EOF :: int where
  [simp]: "SOS_VFS_EOF = -1"
definition SOS_VFS_ERROR :: int where
  [simp]: "SOS_VFS_ERROR = -999"
definition SOS_VFS_PERM :: int where
  [simp]: "SOS_VFS_PERM = -998"
definition SOS_VFS_NOFILE :: int where
  [simp]: "SOS_VFS_NOFILE = -997"
definition SOS_VFS_NOVNODE :: int where
  [simp]: "SOS_VFS_NOVNODE = -996"
definition SOS_VFS_NOMEM :: int where
  [simp]: "SOS_VFS_NOMEM = -995"
definition SOS_VFS_NOMORE :: int where
  [simp]: "SOS_VFS_NOMORE = -994"
definition SOS_VFS_PATHINV :: int where
  [simp]: "SOS_VFS_PATHINV = -993"
definition SOS_VFS_CORVNODE :: int where
  [simp]: "SOS_VFS_CORVNODE = -992"
definition SOS_VFS_NOTIMP :: int where
  [simp]: "SOS_VFS_NOTIMP = -991"
definition SOS_VFS_WRITEFULL :: int where
  [simp]: "SOS_VFS_WRITEFULL = -990"
definition SOS_VFS_READFULL :: int where
  [simp]: "SOS_VFS_READFULL = -989"
definition SOS_VFS_OPEN :: int where
  [simp]: "SOS_VFS_OPEN = -988"
definition SOS_VFS_DIR :: int where
  [simp]: "SOS_VFS_DIR = -987"
definition SOS_VFS_EXIST :: int where
  [simp]: "SOS_VFS_EXIST = -986"
definition SOS_VFS_BADMODE :: int where
  [simp]: "SOS_VFS_BADMODE = -985"

section \<open>Assertions, null pointers, arrays\<close>

text \<open>\<open>c_assert b\<close> is \<^verbatim>\<open>assert(b)\<close>: execution goes on only when \<open>b\<close> holds.\<close>

definition c_assert :: "bool \<Rightarrow> unit option" where
  "c_assert b = (if b then Some () else None)"

lemma c_assert_simps [simp]:
  "c_assert True = Some ()" "c_assert False = None"
  by (simp_all add: c_assert_def)

lemma c_assert_eq_Some [simp]: "c_assert b = Some u \<longleftrightarrow> b"
  by (simp add: c_assert_def)

lemma c_assert_bind [simp]: "Option.bind (c_assert b) f = (if b then f () else None)"
  by (simp add: c_assert_def)

text \<open>Reading an array element; out of range is undefined behaviour in C.\<close>

definition arr_get :: "'a list \<Rightarrow> nat \<Rightarrow> 'a option" where
  "arr_get xs i = (if i < length xs then Some (xs ! i) else None)"

definition arr_set :: "'a list \<Rightarrow> nat \<Rightarrow> 'a \<Rightarrow> 'a list option" where
  "arr_set xs i v = (if i < length xs then Some (xs[i := v]) else None)"

lemma arr_get_in [simp]: "i < length xs \<Longrightarrow> arr_get xs i = Some (xs ! i)"
  by (simp add: arr_get_def)

lemma arr_get_out [simp]: "length xs \<le> i \<Longrightarrow> arr_get xs i = None"
  by (simp add: arr_get_def)

lemma arr_set_in [simp]: "i < length xs \<Longrightarrow> arr_set xs i v = Some (xs[i := v])"
  by (simp add: arr_set_def)

lemma arr_set_out [simp]: "length xs \<le> i \<Longrightarrow> arr_set xs i v = None"
  by (simp add: arr_set_def)

lemma arr_get_SomeD: "arr_get xs i = Some x \<Longrightarrow> i < length xs \<and> x = xs ! i"
  by (auto simp: arr_get_def split: if_splits)

lemma arr_set_SomeD: "arr_set xs i v = Some ys \<Longrightarrow> i < length xs \<and> ys = xs[i := v]"
  by (auto simp: arr_set_def split: if_splits)

lemma arr_set_length: "arr_set xs i v = Some ys \<Longrightarrow> length ys = length xs"
  by (auto simp: arr_set_def split: if_splits)

lemma bind_SomeE:
  assumes "Option.bind m f = Some y"
  obtains x where "m = Some x" and "f x = Some y"
  using assms by (cases m) auto

section \<open>Page masks\<close>

lemma not_pagealign [simp]: "NOT (0xFFFFF000 :: u32) = 0xFFF"
  by (simp add: not_eq_complement)

lemma neg_pagealign [simp]: "(- 4294963201 :: u32) = 0xFFF"
  by simp

lemma not_offset: "NOT (0xFFF :: u32) = 0xFFFFF000"
  by (metis not_pagealign bit.double_compl)

lemma page_split: "(a AND 0xFFFFF000) + (a AND 0xFFF) = (a :: u32)"
proof -
  have "(a AND NOT 0xFFF) + (a AND 0xFFF) = (a AND NOT 0xFFF) OR (a AND 0xFFF)"
    by (rule disjunctive_add_eq_or) (simp add: and.assoc and.left_commute)
  also have "\<dots> = a AND (NOT 0xFFF OR 0xFFF)"
    by (simp only: bit.conj_disj_distrib)
  also have "\<dots> = a"
    by simp
  finally show ?thesis
    by (simp only: not_offset)
qed

lemma offset_eq_take_bit: "a AND 0xFFF = take_bit 12 (a :: u32)"
  by (simp add: take_bit_eq_mask mask_eq_exp_minus_1)

lemma unat_offset: "unat ((a :: u32) AND 0xFFF) = unat a mod 4096"
  by (simp add: offset_eq_take_bit take_bit_eq_mod unat_mod)

lemma unat_page: "unat ((a :: u32) AND 0xFFFFF000) = unat a - unat a mod 4096"
proof -
  have eq: "a AND 0xFFFFF000 = a - (a AND 0xFFF)"
    using page_split [of a] by (simp add: eq_diff_eq)
  have "a AND 0xFFF \<le> a"
    by (simp add: word_le_nat_alt unat_offset)
  then have "unat (a - (a AND 0xFFF)) = unat a - unat (a AND 0xFFF)"
    by (rule unat_sub)
  then show ?thesis
    by (simp add: eq unat_offset)
qed

lemma page_div: "unat ((a :: u32) AND 0xFFFFF000) = unat a div 4096 * 4096"
  by (simp add: unat_page minus_mod_eq_div_mult)

lemma page_aligned_iff: "(a :: u32) AND 0xFFF = 0 \<longleftrightarrow> unat a mod 4096 = 0"
  by (metis unat_offset unat_eq_zero)

lemma page_of_page [simp]: "(a AND 0xFFFFF000) AND (0xFFFFF000 :: u32) = a AND 0xFFFFF000"
  by (simp add: and.assoc)

lemma offset_of_page [simp]: "(a AND 0xFFFFF000) AND (0xFFF :: u32) = 0"
  by (simp add: and.assoc)

lemma page_aligned_page: "a AND 0xFFF = 0 \<Longrightarrow> a AND 0xFFFFF000 = (a :: u32)"
  using page_split [of a] by simp

lemma page_aligned_low_bit:
  fixes a :: u32
  assumes "a AND 0xFFF = 0" and "m AND 0xFFF = m"
  shows "a AND m = 0"
proof -
  have "a AND m = (a AND 0xFFF) AND m"
    using assms(2) by (metis and.assoc and.commute)
  then show ?thesis using assms(1) by simp
qed

lemma sint_small: "unat (w :: u32) < 2 ^ 31 \<Longrightarrow> sint w = int (unat w)"
proof -
  assume "unat w < 2 ^ 31"
  then have "int (unat w) < int (2 ^ 31)"
    by (simp only: of_nat_less_iff)
  then have "uint w < 2 ^ 31"
    by simp
  moreover have "- (2 ^ 31) \<le> uint w"
    by (rule order_trans [of _ 0]) simp_all
  ultimately have "signed_take_bit 31 (uint w) = uint w"
    by (rule signed_take_bit_int_eq_self [rotated])
  then show ?thesis
    by (simp add: sint_uint)
qed

lemma unat_of_int_range: "0 \<le> i \<Longrightarrow> i < 2 ^ 32 \<Longrightarrow> unat (word_of_int i :: u32) = nat i"
proof -
  assume "0 \<le> i" "i < 2 ^ 32"
  then obtain n where "i = int n" "n < 2 ^ 32"
    using zero_le_imp_eq_int by auto
  then show ?thesis
    using take_bit_nat_eq_self [of n 32] by (simp add: unat_of_nat)
qed

lemma unat_small_nat: "k < 2 ^ 32 \<Longrightarrow> unat (of_nat k :: u32) = k"
  using take_bit_nat_eq_self [of k 32] by (simp add: unat_of_nat)

lemma sint_small_nat: "k < 2 ^ 31 \<Longrightarrow> sint (of_nat k :: u32) = int k"
  using sint_small [of "of_nat k"] unat_small_nat [of k] by simp

lemma unat_bound: "unat (w :: u32) < 2 ^ 32"
  using unsigned_less [of w] by simp

end
