(* ===== verification/FreeList.thy ===== *)
theory FreeList
  imports Prelude
begin

text \<open>
  The interface of a free-list allocator. Two parts of the kernel are one: the frame allocator
  (\<^verbatim>\<open>src/sos/frames.c\<close>, whose links live in the first word of every free frame) and the slots
  of a swap file (\<^verbatim>\<open>src/sos/swapfile.c\<close>, whose links live in an array). The locale states
  what both promise, and its lemmas are what their clients rely on: an allocation takes the head
  of the list, a release puts its argument back at the head, and no sequence of well-behaved
  requests is ever handed an object that is still in use.
\<close>

section \<open>Chains of links\<close>

text \<open>\<open>chain nxt x as y\<close>: following the links from \<open>x\<close> visits \<open>as\<close> and then stops at \<open>y\<close>.\<close>

primrec chain :: "('a \<Rightarrow> 'a) \<Rightarrow> 'a \<Rightarrow> 'a list \<Rightarrow> 'a \<Rightarrow> bool" where
  "chain nxt x [] y \<longleftrightarrow> x = y"
| "chain nxt x (a # as) y \<longleftrightarrow> x = a \<and> a \<noteq> y \<and> chain nxt (nxt a) as y"

lemma chain_cong [chain_simps]:
  "(\<And>a. a \<in> set as \<Longrightarrow> nxt' a = nxt a) \<Longrightarrow> chain nxt' x as y = chain nxt x as y"
  by (induction as arbitrary: x) auto

lemma chain_fun_upd [chain_simps]: "u \<notin> set as \<Longrightarrow> chain (nxt(u := v)) x as y = chain nxt x as y"
  by (rule chain_cong) auto

lemma chain_stop: "chain nxt x as y \<Longrightarrow> y \<notin> set as"
  by (induction as arbitrary: x) auto

lemma chain_unique: "chain nxt x as y \<Longrightarrow> chain nxt x bs y \<Longrightarrow> as = bs"
proof (induction as arbitrary: x bs)
  case Nil
  then show ?case by (cases bs) auto
next
  case (Cons a as)
  then show ?case by (cases bs) auto
qed

lemma chain_suffix: "chain nxt x (as @ a # bs) y \<Longrightarrow> chain nxt a (a # bs) y"
  by (induction as arbitrary: x) auto

text \<open>A chain that ends cannot revisit a link: it would go round forever.\<close>

lemma chain_distinct: "chain nxt x as y \<Longrightarrow> distinct as"
proof (induction as arbitrary: x)
  case (Cons a as)
  have "a \<notin> set as"
  proof
    assume "a \<in> set as"
    then obtain us vs where as: "as = us @ a # vs"
      by (meson split_list)
    have "chain nxt a (a # as) y" and "chain nxt a (a # vs) y"
      using Cons.prems chain_suffix [of nxt x "a # us" a vs y] by (auto simp: as)
    then have "a # as = a # vs"
      by (rule chain_unique)
    then show False by (simp add: as)
  qed
  with Cons show ?case by auto
qed simp

lemma chain_nil: "x = y \<Longrightarrow> chain nxt x as y \<longleftrightarrow> as = []"
  by (cases as) auto

lemma chain_not_nil: "x \<noteq> y \<Longrightarrow> chain nxt x as y \<Longrightarrow> \<exists>bs. as = x # bs \<and> chain nxt (nxt x) bs y"
  by (cases as) auto

text \<open>Taking a link out of a chain, and adding one at its end.\<close>

lemma chain_unlink:
  "chain nxt x (ks @ c # cs) y \<Longrightarrow> ks \<noteq> [] \<Longrightarrow> chain (nxt(last ks := nxt c)) x (ks @ cs) y"
proof (induction ks arbitrary: x)
  case (Cons k ks)
  have d: "distinct (k # ks @ c # cs)"
    using chain_distinct [OF Cons.prems(1)] by simp
  show ?case
  proof (cases "ks = []")
    case True
    with Cons.prems d show ?thesis by (simp add: chain_fun_upd del: fun_upd_apply) simp
  next
    case False
    then have "last ks \<noteq> k"
      using d by (metis UnCI distinct.simps(2) last_in_set set_append)
    with Cons False show ?thesis by simp
  qed
qed simp

lemma chain_snoc:
  "chain nxt x ks y \<Longrightarrow> ks \<noteq> [] \<Longrightarrow> c \<notin> set ks \<Longrightarrow> c \<noteq> y \<Longrightarrow>
   chain (nxt(last ks := c, c := y)) x (ks @ [c]) y"
proof (induction ks arbitrary: x)
  case (Cons k ks)
  have d: "distinct (k # ks)"
    using chain_distinct [OF Cons.prems(1)] by simp
  show ?case
  proof (cases "ks = []")
    case True
    with Cons.prems show ?thesis by simp
  next
    case False
    then have "last ks \<noteq> k"
      using d by (metis distinct.simps(2) last_in_set)
    moreover have "c \<noteq> k"
      using Cons.prems(3) by auto
    ultimately show ?thesis
      using Cons.IH [of "nxt k"] Cons.prems False by simp
  qed
qed simp

section \<open>The allocator interface\<close>

text \<open>
  Requests of a client that releases only what it holds and asks only while something is free;
  the run carries the objects the client holds.
\<close>

datatype 'r req = ReqAlloc | ReqRelease 'r

fun run_reqs :: "('s \<Rightarrow> bool) \<Rightarrow> ('s \<Rightarrow> ('r \<times> 's) option) \<Rightarrow> ('r \<Rightarrow> 's \<Rightarrow> 's option) \<Rightarrow>
    'r req list \<Rightarrow> 'r list \<Rightarrow> 's \<Rightarrow> ('r list \<times> 's) option" where
  "run_reqs avail al rel [] L s = Some (L, s)"
| "run_reqs avail al rel (ReqAlloc # rs) L s =
     (if avail s then do { (r, s') \<leftarrow> al s; run_reqs avail al rel rs (r # L) s' }
      else run_reqs avail al rel rs L s)"
| "run_reqs avail al rel (ReqRelease r # rs) L s =
     (if r \<in> set L then do { s' \<leftarrow> rel r s; run_reqs avail al rel rs (remove1 r L) s' }
      else run_reqs avail al rel rs L s)"

lemma remove1_map_out: "inj_on f (set xs) \<Longrightarrow> a \<in> set xs \<Longrightarrow> remove1 (f a) (map f xs) = map f (remove1 a xs)"
  by (induction xs) (auto simp: inj_on_def)

locale free_list =
  fixes head :: "'s \<Rightarrow> 'a"
    and link :: "'s \<Rightarrow> 'a \<Rightarrow> 'a"
    and nil :: 'a
    and valid :: "'a \<Rightarrow> bool"
    and used :: "'s \<Rightarrow> int"
    and wf :: "'s \<Rightarrow> bool"
    and fits :: "int \<Rightarrow> bool"
    and out :: "'a \<Rightarrow> 'r"
    and alloc :: "'s \<Rightarrow> ('r \<times> 's) option"
    and release :: "'r \<Rightarrow> 's \<Rightarrow> 's option"
  assumes inj_out: "valid a \<Longrightarrow> valid b \<Longrightarrow> out a = out b \<Longrightarrow> a = b"
    and nil_invalid: "\<not> valid nil"
    and fits_law: "finite X \<Longrightarrow> \<forall>a\<in>X. valid a \<Longrightarrow> fits (int (card X))"
    and alloc_law: "wf s \<Longrightarrow> valid (head s) \<Longrightarrow> fits (used s) \<Longrightarrow>
      \<exists>s'. alloc s = Some (out (head s), s') \<and> wf s' \<and> head s' = link s (head s) \<and>
        used s' = used s + 1 \<and> (\<forall>a. valid a \<longrightarrow> link s' a = link s a)"
    and release_law: "wf s \<Longrightarrow> valid a \<Longrightarrow> 0 < used s \<Longrightarrow>
      \<exists>s'. release (out a) s = Some s' \<and> wf s' \<and> head s' = a \<and> used s' = used s - 1 \<and>
        (\<forall>b. valid b \<longrightarrow> link s' b = ((link s)(a := head s)) b)"
begin

text \<open>\<open>invar s F A\<close>: the free objects are \<open>F\<close>, in list order, and the objects in use are \<open>A\<close>.\<close>

definition invar :: "'s \<Rightarrow> 'a list \<Rightarrow> 'a set \<Rightarrow> bool" where
  "invar s F A \<longleftrightarrow> wf s \<and> chain (link s) (head s) F nil \<and> (\<forall>a\<in>set F \<union> A. valid a) \<and>
     set F \<inter> A = {} \<and> finite A \<and> used s = int (card A)"

lemma invar_distinct: "invar s F A \<Longrightarrow> distinct F"
  by (auto simp: invar_def dest: chain_distinct)

lemma invar_empty_iff: "invar s F A \<Longrightarrow> F = [] \<longleftrightarrow> head s = nil"
  by (cases F) (auto simp: invar_def)

lemma alloc_pops:
  assumes "invar s (a # F) A"
  shows "\<exists>s'. alloc s = Some (out a, s') \<and> invar s' F (insert a A)"
proof -
  have a: "head s = a" "valid a" "wf s" "chain (link s) (link s a) F nil" "a \<notin> A" "finite A"
    "used s = int (card A)" "\<forall>b\<in>set F \<union> A. valid b" "set F \<inter> A = {}"
    using assms by (auto simp: invar_def)
  have "fits (used s)"
    using a fits_law [of A] by simp
  then obtain s' where s': "alloc s = Some (out a, s')" "wf s'" "head s' = link s a"
      "used s' = used s + 1" "\<forall>b. valid b \<longrightarrow> link s' b = link s b"
    using alloc_law [of s] a by auto
  have "chain (link s') (link s a) F nil"
    using a s' by (subst chain_cong [of F "link s'" "link s"]) auto
  moreover have "a \<notin> set F"
    using invar_distinct [OF assms] by simp
  ultimately have "invar s' F (insert a A)"
    using a s' by (auto simp: invar_def)
  with s' show ?thesis by blast
qed

lemma release_pushes:
  assumes "invar s F A" and "a \<in> A"
  shows "\<exists>s'. release (out a) s = Some s' \<and> invar s' (a # F) (A - {a})"
proof -
  have i: "wf s" "valid a" "chain (link s) (head s) F nil" "a \<notin> set F" "finite A"
    "used s = int (card A)" "\<forall>b\<in>set F \<union> A. valid b" "set F \<inter> A = {}"
    using assms by (auto simp: invar_def)
  have pos: "0 < card A"
    using assms(2) i by (auto simp: card_gt_0_iff)
  then obtain s' where s': "release (out a) s = Some s'" "wf s'" "head s' = a"
      "used s' = used s - 1" "\<forall>b. valid b \<longrightarrow> link s' b = ((link s)(a := head s)) b"
    using release_law [of s a] i by auto
  have "chain (link s') (head s) F nil"
    using i s' by (subst chain_cong [of F "link s'" "link s"]) auto
  moreover have "a \<noteq> nil"
    using i nil_invalid by auto
  moreover have "int (card (A - {a})) = int (card A) - 1"
    using assms(2) i pos by simp
  ultimately have "invar s' (a # F) (A - {a})"
    using i s' by (auto simp: invar_def)
  with s' show ?thesis by blast
qed

text \<open>The last object released is the next one allocated.\<close>

lemma release_then_alloc:
  assumes "invar s F A" and "a \<in> A"
  shows "\<exists>s' s''. release (out a) s = Some s' \<and> alloc s' = Some (out a, s'') \<and> invar s'' F A"
proof -
  obtain s' where s': "release (out a) s = Some s'" "invar s' (a # F) (A - {a})"
    using release_pushes [OF assms] by blast
  obtain s'' where "alloc s' = Some (out a, s'')" "invar s'' F (insert a (A - {a}))"
    using alloc_pops [OF s'(2)] by blast
  with s' assms(2) show ?thesis
    by (auto simp: insert_absorb)
qed

text \<open>
  Every run of requests succeeds; what the client holds is never listed twice, is disjoint from
  the free list, and together with it is what there was at the start.
\<close>

lemma run_reqs_guarded:
  assumes avail: "\<And>s F A. invar s F A \<Longrightarrow> set F \<union> A = U \<Longrightarrow> avail s \<longleftrightarrow> F \<noteq> []"
    and "invar s F A" and "L = map out ls" and "distinct ls" and "set ls = A" and "set F \<union> A = U"
  shows "\<exists>L' ls' s' F'. run_reqs avail alloc release rs L s = Some (L', s') \<and>
    L' = map out ls' \<and> distinct ls' \<and> invar s' F' (set ls') \<and> set F' \<union> set ls' = U"
  using assms(2-)
proof (induction rs arbitrary: s F A L ls)
  case Nil
  then show ?case by auto
next
  case (Cons r rs)
  show ?case
  proof (cases r)
    case ReqAlloc
    show ?thesis
    proof (cases F)
      case Nil
      with Cons.prems avail [OF Cons.prems(1,5)] have "\<not> avail s" by simp
      with Cons.IH [OF Cons.prems] ReqAlloc show ?thesis by simp
    next
      case (Cons a F')
      obtain s' where s': "alloc s = Some (out a, s')" "invar s' F' (insert a A)"
        using alloc_pops Cons.prems(1) Cons by blast
      have "a \<notin> A" and "avail s"
        using Cons.prems(1) Cons avail [OF Cons.prems(1,5)] by (auto simp: invar_def)
      moreover have "set F' \<union> insert a A = U"
        using Cons.prems(5) Cons by auto
      ultimately show ?thesis
        using Cons.IH [of s' F' "insert a A" "out a # L" "a # ls"] Cons.prems s' ReqAlloc Cons
        by fastforce
    qed
  next
    case (ReqRelease x)
    show ?thesis
    proof (cases "x \<in> set L")
      case False
      with Cons.IH [OF Cons.prems] ReqRelease show ?thesis by simp
    next
      case True
      then obtain a where a: "x = out a" "a \<in> A"
        using Cons.prems by auto
      obtain s' where s': "release x s = Some s'" "invar s' (a # F) (A - {a})"
        using release_pushes [OF Cons.prems(1) a(2)] a by blast
      have inj: "inj_on out A"
        using Cons.prems(1) inj_out by (auto simp: invar_def intro!: inj_onI)
      have "remove1 x L = map out (remove1 a ls)"
        using Cons.prems a inj by (simp add: remove1_map_out)
      moreover have "set (a # F) \<union> (A - {a}) = U"
        using a(2) Cons.prems(5) by auto
      ultimately have "\<exists>L' ls' s'' F'.
          run_reqs avail alloc release rs (remove1 x L) s' = Some (L', s'') \<and>
          L' = map out ls' \<and> distinct ls' \<and> invar s'' F' (set ls') \<and> set F' \<union> set ls' = U"
        using Cons.IH [OF s'(2), of "remove1 x L" "remove1 a ls"] Cons.prems by simp
      then show ?thesis
        using s' True ReqRelease by simp
    qed
  qed
qed

lemma run_reqs_invar:
  assumes "invar s F A" and "L = map out ls" and "distinct ls" and "set ls = A"
  shows "\<exists>L' ls' s' F'. run_reqs (\<lambda>s. head s \<noteq> nil) alloc release rs L s = Some (L', s') \<and>
    L' = map out ls' \<and> distinct ls' \<and> invar s' F' (set ls') \<and> set F' \<union> set ls' = set F \<union> A"
  by (rule run_reqs_guarded [OF _ assms refl]) (simp add: invar_empty_iff)

text \<open>A client that asks \<open>n\<close> times in a row, with no guard, gets the first \<open>n\<close> free objects.\<close>

lemma run_allocs:
  assumes "invar s F A" and "n \<le> length F"
  shows "\<exists>s'. run_reqs (\<lambda>_. True) alloc release (replicate n ReqAlloc) L s =
      Some (rev (map out (take n F)) @ L, s') \<and> invar s' (drop n F) (A \<union> set (take n F))"
  using assms
proof (induction n arbitrary: s F A L)
  case (Suc n)
  then obtain a F' where F: "F = a # F'" "n \<le> length F'"
    by (cases F) auto
  obtain s' where s': "alloc s = Some (out a, s')" "invar s' F' (insert a A)"
    using alloc_pops Suc.prems(1) F by blast
  from Suc.IH [OF s'(2) F(2), of "out a # L"] show ?case
    using s'(1) F by simp
qed simp

end

end
