(* ===== verification/Ipc.thy ===== *)
theory Ipc
  imports Prelude
begin

text \<open>
  The messages of the system: the system-call numbers of \<^verbatim>\<open>src/libs/sos/include/sos.h\<close> and
  \<^verbatim>\<open>src/sos/syscall.h\<close>, the IPC library \<^verbatim>\<open>src/libs/sos/src/ipc.c\<close>, the label decoding of
  \<^verbatim>\<open>src/sos/libsos.h\<close>, and the calls that SOS makes to the microkernel. The microkernel itself
  is not modelled: what SOS asks of it is recorded, in order, in a trace.
\<close>

section \<open>Threads and microkernel calls\<close>

text \<open>A thread identifier is a thread number with a version, as \<^verbatim>\<open>L4_GlobalId\<close> builds it.\<close>

type_synonym L4_ThreadId_t = "int \<times> int"

definition L4_GlobalId :: "int \<Rightarrow> int \<Rightarrow> L4_ThreadId_t" where
  [simp]: "L4_GlobalId no ver = (no, ver)"

definition L4_ThreadNo :: "L4_ThreadId_t \<Rightarrow> int" where
  [simp]: "L4_ThreadNo tid = fst tid"

definition L4_nilthread :: L4_ThreadId_t where
  [simp]: "L4_nilthread = (0, 0)"

definition L4_rootserverno :: int where
  [simp]: "L4_rootserverno = 0"

definition L4_rootserver :: L4_ThreadId_t where
  [simp]: "L4_rootserver = (0, 1)"

text \<open>Spaces are named by their numbers; the root server's is 0.\<close>

definition L4_rootspace :: int where
  [simp]: "L4_rootspace = 0"

definition L4_ReadWriteOnly :: u32 where
  [simp]: "L4_ReadWriteOnly = 6"

datatype ipc_type_t = SOS_IPC_CALL | SOS_IPC_SEND | SOS_IPC_REPLY | SOS_IPC_SENDNONBLOCKING

text \<open>
  What SOS asks of the microkernel. \<open>Ipc tid type label words\<close> is a message sent, \<open>Reply tid\<close> an
  empty one; the others change address spaces, caches and threads, or control interrupts.
\<close>

datatype l4_call =
    Ipc L4_ThreadId_t ipc_type_t u32 "u32 list"
  | MapFpage int u32 u32 u32
  | UnmapFpage int u32
  | UnmapSpace int
  | CacheFlushAll
  | CacheFlushRange int u32 u32
  | CacheFlushRangeInvalidate int u32 u32
  | ThreadDelete L4_ThreadId_t
  | SpaceDelete int
  | TaskNew int L4_ThreadId_t u32 u32
  | ThreadNew L4_ThreadId_t int u32 u32
  | RegisterInterrupt u32
  | AcknowledgeInterrupt u32
  | Reply L4_ThreadId_t

section \<open>System calls\<close>

datatype syscall_t =
    SOS_REPLY | SOS_KERNEL_PRINT | SOS_DEBUG_FLUSH | SOS_MOREMEM | SOS_COPYIN | SOS_COPYOUT
  | SOS_OPEN | SOS_CLOSE | SOS_READ | SOS_FLUSH | SOS_WRITE | SOS_LSEEK | SOS_GETDIRENT
  | SOS_STAT | SOS_REMOVE | SOS_DUP | SOS_PROCESS_CREATE | SOS_PROCESS_DELETE | SOS_MY_ID
  | SOS_PROCESS_STATUS | SOS_PROCESS_WAIT | SOS_TIME_STAMP | SOS_USLEEP | SOS_MEMUSE
  | SOS_SWAPUSE | SOS_PHYSUSE | SOS_VPAGER | SOS_MEMLOC | SOS_MMAP | SOS_SHARE_VM | SOS_NULL
  | L4_PAGEFAULT | L4_INTERRUPT | L4_EXCEPTION
  | PSOS_OPEN | PSOS_DUP | PSOS_FLUSH | PSOS_CLOSE

text \<open>The values of the two enumerations; the private calls follow \<^verbatim>\<open>SOS_NULL\<close>.\<close>

fun syscall_no :: "syscall_t \<Rightarrow> int" where
  "syscall_no SOS_REPLY = 0"
| "syscall_no SOS_KERNEL_PRINT = 1"
| "syscall_no SOS_DEBUG_FLUSH = 2"
| "syscall_no SOS_MOREMEM = 3"
| "syscall_no SOS_COPYIN = 4"
| "syscall_no SOS_COPYOUT = 5"
| "syscall_no SOS_OPEN = 6"
| "syscall_no SOS_CLOSE = 7"
| "syscall_no SOS_READ = 8"
| "syscall_no SOS_FLUSH = 9"
| "syscall_no SOS_WRITE = 10"
| "syscall_no SOS_LSEEK = 11"
| "syscall_no SOS_GETDIRENT = 12"
| "syscall_no SOS_STAT = 13"
| "syscall_no SOS_REMOVE = 14"
| "syscall_no SOS_DUP = 15"
| "syscall_no SOS_PROCESS_CREATE = 16"
| "syscall_no SOS_PROCESS_DELETE = 17"
| "syscall_no SOS_MY_ID = 18"
| "syscall_no SOS_PROCESS_STATUS = 19"
| "syscall_no SOS_PROCESS_WAIT = 20"
| "syscall_no SOS_TIME_STAMP = 21"
| "syscall_no SOS_USLEEP = 22"
| "syscall_no SOS_MEMUSE = 23"
| "syscall_no SOS_SWAPUSE = 24"
| "syscall_no SOS_PHYSUSE = 25"
| "syscall_no SOS_VPAGER = 26"
| "syscall_no SOS_MEMLOC = 27"
| "syscall_no SOS_MMAP = 28"
| "syscall_no SOS_SHARE_VM = 29"
| "syscall_no SOS_NULL = 30"
| "syscall_no L4_PAGEFAULT = -2"
| "syscall_no L4_INTERRUPT = -1"
| "syscall_no L4_EXCEPTION = -5"
| "syscall_no PSOS_OPEN = 31"
| "syscall_no PSOS_DUP = 32"
| "syscall_no PSOS_FLUSH = 33"
| "syscall_no PSOS_CLOSE = 34"

definition syscalls :: "syscall_t list" where
  "syscalls = [SOS_REPLY, SOS_KERNEL_PRINT, SOS_DEBUG_FLUSH, SOS_MOREMEM, SOS_COPYIN, SOS_COPYOUT,
     SOS_OPEN, SOS_CLOSE, SOS_READ, SOS_FLUSH, SOS_WRITE, SOS_LSEEK, SOS_GETDIRENT, SOS_STAT,
     SOS_REMOVE, SOS_DUP, SOS_PROCESS_CREATE, SOS_PROCESS_DELETE, SOS_MY_ID, SOS_PROCESS_STATUS,
     SOS_PROCESS_WAIT, SOS_TIME_STAMP, SOS_USLEEP, SOS_MEMUSE, SOS_SWAPUSE, SOS_PHYSUSE, SOS_VPAGER,
     SOS_MEMLOC, SOS_MMAP, SOS_SHARE_VM, SOS_NULL, L4_PAGEFAULT, L4_INTERRUPT, L4_EXCEPTION,
     PSOS_OPEN, PSOS_DUP, PSOS_FLUSH, PSOS_CLOSE]"

text \<open>The call a switch on the label selects; every other label takes the default branch.\<close>

definition syscall_of :: "int \<Rightarrow> syscall_t option" where
  "syscall_of n = find (\<lambda>s. syscall_no s = n) syscalls"

section \<open>Messages\<close>

text \<open>A message: the 16-bit label of its tag, and its untyped words.\<close>

record msg =
  msg_label :: "16 word"
  msg_words :: "u32 list"

definition L4_MsgWord :: "msg \<Rightarrow> nat \<Rightarrow> u32" where
  "L4_MsgWord m i = (if i < length (msg_words m) then msg_words m ! i else 0)"

definition MAGIC_THAT_MAKES_LABELS_WORK :: nat where
  [simp]: "MAGIC_THAT_MAKES_LABELS_WORK = 4"

definition ipc_create_msg_v :: "u32 \<Rightarrow> u32 list \<Rightarrow> msg" where
  "ipc_create_msg_v label ws =
     \<lparr>msg_label = ucast (push_bit MAGIC_THAT_MAKES_LABELS_WORK label), msg_words = ws\<rparr>"

text \<open>\<^verbatim>\<open>((short) L4_Label(t)) >> 4\<close>: an arithmetic shift of the signed label.\<close>

definition TAG_SYSLAB :: "msg \<Rightarrow> int" where
  "TAG_SYSLAB m = sint (msg_label m) div 16"

text \<open>The word that stands for a call in \<^verbatim>\<open>ipc_send\<close>.\<close>

definition syscall_word :: "syscall_t \<Rightarrow> u32" where
  "syscall_word s = word_of_int (syscall_no s)"

section \<open>Labels survive the journey\<close>

lemma syscall_of_no: "syscall_of (syscall_no s) = Some s"
  by (cases s) (simp_all add: syscall_of_def syscalls_def)

lemma syscall_label: "TAG_SYSLAB (ipc_create_msg_v (syscall_word s) ws) = syscall_no s"
  by (cases s) (simp_all add: TAG_SYSLAB_def ipc_create_msg_v_def syscall_word_def, code_simp+)

text \<open>
  C31. A message built for any system call, also a private one and the negative labels of the
  microkernel, is dispatched to exactly that call: shifting the label left by four, truncating
  it to the 16 bits of the message tag, and shifting it back arithmetically loses nothing.
\<close>

theorem syscall_label_roundtrip:
  "syscall_of (TAG_SYSLAB (ipc_create_msg_v (syscall_word s) ws)) = Some s"
  by (simp add: syscall_label syscall_of_no)

end
