(* ===== verification/Frames.thy ===== *)
theory Frames
  imports FreeList Ipc
begin

text \<open>
  The frame allocator, \<^verbatim>\<open>src/sos/frames.c\<close>. Its free list is threaded through physical
  memory: the first word of a free frame is the address of the next free frame, and the address 0
  ends the list. The record holds that memory (\<open>mem\<close>), the file's static variables, and the
  trace of the microkernel calls made so far. The other components extend it, so that one record is
  the state of the whole system and every operation is defined on all extensions.

  The allocator is an instance of the free-list interface: what is allocated was free, is not
  handed out again before it is freed, and freeing puts it at the head.
\<close>

section \<open>State\<close>

text \<open>Why a frame was allocated; the allocator only prints it.\<close>

datatype alloc_codes_t =
    FA_STACK | FA_SWAPFILE | FA_MORECORE | FA_SWAPPIN
  | FA_PAGETABLE1 | FA_PAGETABLE2 | FA_ALLOCFRAMES | FA_PAGERALLOC

record frames_st =
  mem :: word_mem
  l4 :: "l4_call list"
  totalFrames :: int
  firstFree :: u32
  totalInUse :: int

definition NULLFRAME :: u32 where
  [simp]: "NULLFRAME = 0"

section \<open>Operations\<close>

text \<open>The three phases of \<^verbatim>\<open>frame_init\<close>: map every page, link every page to the next, end the list.\<close>

partial_function (option) map_pages :: "u32 \<Rightarrow> u32 \<Rightarrow> l4_call list \<Rightarrow> l4_call list option" where
  "map_pages page high tr =
     (if page < high
      then map_pages (page + PAGESIZE) high (tr @ [MapFpage L4_rootspace page page L4_ReadWriteOnly])
      else Some tr)"

partial_function (option) link_pages :: "u32 \<Rightarrow> u32 \<Rightarrow> word_mem \<Rightarrow> int \<Rightarrow> (word_mem \<times> int) option" where
  "link_pages page lim m n =
     (if page < lim then link_pages (page + PAGESIZE) lim (m(page := page + PAGESIZE)) (n + 1)
      else Some (m, n))"

definition frame_init :: "u32 \<Rightarrow> u32 \<Rightarrow> 'z frames_st_scheme \<Rightarrow> 'z frames_st_scheme option" where
  "frame_init low frame s = (let high = frame + 1 in do {
     tr \<leftarrow> map_pages low high (l4 s);
     (m, n) \<leftarrow> link_pages low (high - PAGESIZE) (mem s) 0;
     Some (s\<lparr>mem := m(high - PAGESIZE := NULLFRAME), l4 := tr, totalFrames := n,
            firstFree := low, totalInUse := 0\<rparr>) })"

definition frame_alloc :: "alloc_codes_t \<Rightarrow> 'z frames_st_scheme \<Rightarrow> u32 \<times> 'z frames_st_scheme" where
  "frame_alloc reason s = (let alloc = firstFree s in
     if alloc \<noteq> NULLFRAME
     then (alloc, s\<lparr>firstFree := mem s (firstFree s), totalInUse := totalInUse s + 1\<rparr>)
     else (alloc, s))"

definition frame_free :: "u32 \<Rightarrow> 'z frames_st_scheme \<Rightarrow> 'z frames_st_scheme" where
  "frame_free frame s =
     s\<lparr>mem := (mem s)(frame := firstFree s), firstFree := frame, totalInUse := totalInUse s - 1\<rparr>"

definition frames_allocated :: "'z frames_st_scheme \<Rightarrow> int" where
  "frames_allocated s = totalInUse s"

definition frames_free :: "'z frames_st_scheme \<Rightarrow> int" where
  "frames_free s = totalFrames s - totalInUse s"

definition frames_total :: "'z frames_st_scheme \<Rightarrow> int" where
  "frames_total s = totalFrames s"

section \<open>The allocator implements the free-list interface\<close>

definition is_frame :: "u32 \<Rightarrow> bool" where
  "is_frame a \<longleftrightarrow> a \<noteq> 0 \<and> a AND 0xFFF = 0"

interpretation fr: free_list
  firstFree mem 0 is_frame totalInUse "\<lambda>_. True" "\<lambda>_. True" "\<lambda>a. a"
  "\<lambda>s. Some (frame_alloc reason s)" "\<lambda>a s. Some (frame_free a s)"
  by unfold_locales (auto simp: is_frame_def frame_alloc_def frame_free_def Let_def)

text \<open>\<open>frames_inv s F A\<close>: the frames of \<open>F\<close> are free, in list order, and those of \<open>A\<close> are in use.\<close>

definition frames_inv :: "'z frames_st_scheme \<Rightarrow> u32 list \<Rightarrow> u32 set \<Rightarrow> bool" where
  "frames_inv s F A \<longleftrightarrow> chain (mem s) (firstFree s) F 0 \<and> (\<forall>a\<in>set F \<union> A. is_frame a) \<and>
     set F \<inter> A = {} \<and> finite A \<and> totalInUse s = int (card A)"

lemma frames_inv_eq: "frames_inv s F A = fr.invar s F A"
  by (simp add: frames_inv_def fr.invar_def)

lemma frame_alloc_pops:
  "frames_inv s (a # F) A \<Longrightarrow> \<exists>s'. frame_alloc reason s = (a, s') \<and> frames_inv s' F (insert a A)"
  using fr.alloc_pops [of s a F A reason] by (simp add: frames_inv_eq)

lemma frame_alloc_empty: "frames_inv s [] A \<Longrightarrow> frame_alloc reason s = (0, s)"
  by (simp add: frames_inv_def frame_alloc_def)

lemma frame_free_pushes:
  "frames_inv s F A \<Longrightarrow> a \<in> A \<Longrightarrow> frames_inv (frame_free a s) (a # F) (A - {a})"
  using fr.release_pushes [of s F A a] by (simp add: frames_inv_eq)

section \<open>Initialisation\<close>

text \<open>The address \<open>j\<close> pages above \<open>p\<close>, and the frames of the \<open>n\<close> pages from \<open>low\<close> on.\<close>

definition page_at :: "u32 \<Rightarrow> nat \<Rightarrow> u32" where
  "page_at p j = p + of_nat (j * 4096)"

definition frames_from :: "u32 \<Rightarrow> nat \<Rightarrow> u32 list" where
  "frames_from low n = map (page_at low) [0..<n]"

lemma page_at_0 [simp]: "page_at p 0 = p"
  by (simp add: page_at_def)

lemma page_at_shift: "page_at (p + 4096) j = page_at p (Suc j)"
  by (simp add: page_at_def)

lemma unat_page_at: "unat p + n * 4096 < 2 ^ 32 \<Longrightarrow> j \<le> n \<Longrightarrow> unat (page_at p j) = unat p + j * 4096"
  by (simp add: page_at_def unat_word_ariths unat_of_nat)

lemma page_at_less:
  "unat p + n * 4096 < 2 ^ 32 \<Longrightarrow> j < k \<Longrightarrow> k \<le> n \<Longrightarrow> page_at p j < page_at p k"
  by (simp add: word_less_nat_alt unat_page_at)

lemma page_at_is_frame:
  assumes "is_frame p" and "unat p + n * 4096 < 2 ^ 32" and "j \<le> n"
  shows "is_frame (page_at p j)"
proof -
  have "unat p mod 4096 = 0" and "unat p \<noteq> 0"
    using assms(1) by (auto simp: is_frame_def page_aligned_iff unat_eq_zero)
  moreover have "unat (page_at p j) = unat p + j * 4096"
    using assms by (simp add: unat_page_at)
  ultimately have "unat (page_at p j) mod 4096 = 0" and "unat (page_at p j) \<noteq> 0"
    by simp_all
  then show ?thesis
    by (auto simp: is_frame_def page_aligned_iff)
qed

lemma frames_from_Suc: "frames_from low (Suc n) = low # frames_from (low + 4096) n"
  by (simp add: frames_from_def upt_conv_Cons map_Suc_upt [symmetric] page_at_shift del: upt_Suc)

lemma next_page_bound:
  fixes p :: u32
  assumes "unat p + Suc k * 4096 < 2 ^ 32"
  shows "unat (p + 4096) + k * 4096 < 2 ^ 32"
  using unat_page_at [OF assms, of 1] assms by (simp add: page_at_def)

lemma map_pages_run:
  "unat page + k * 4096 < 2 ^ 32 \<Longrightarrow>
   map_pages page (page_at page k) tr =
     Some (tr @ map (\<lambda>p. MapFpage L4_rootspace p p L4_ReadWriteOnly) (frames_from page k))"
proof (induction k arbitrary: page tr)
  case 0
  then show ?case by (subst map_pages.simps) (simp add: frames_from_def)
next
  case (Suc k)
  have "page < page_at page (Suc k)"
    using page_at_less [OF Suc.prems, of 0] by simp
  then show ?case
    using Suc.IH [OF next_page_bound [OF Suc.prems]]
    by (subst map_pages.simps) (simp add: frames_from_Suc page_at_shift)
qed

text \<open>The second loop stores in each page but the last the address of the next one.\<close>

lemma link_pages_run:
  "unat page + k * 4096 < 2 ^ 32 \<Longrightarrow>
   \<exists>m'. link_pages page (page_at page k) m n = Some (m', n + int k) \<and>
     (\<forall>j<k. m' (page_at page j) = page_at page (Suc j)) \<and>
     (\<forall>x. (\<forall>j<k. x \<noteq> page_at page j) \<longrightarrow> m' x = m x)"
proof (induction k arbitrary: page m n)
  case 0
  then show ?case by (subst link_pages.simps) simp
next
  case (Suc k)
  let ?p = "page + 4096"
  obtain m' where m': "link_pages ?p (page_at page (Suc k)) (m(page := ?p)) (n + 1) = Some (m', n + 1 + int k)"
      "\<forall>j<k. m' (page_at page (Suc j)) = page_at page (Suc (Suc j))"
      "\<forall>x. (\<forall>j<k. x \<noteq> page_at page (Suc j)) \<longrightarrow> m' x = (m(page := ?p)) x"
    using Suc.IH [OF next_page_bound [OF Suc.prems], of "m(page := ?p)" "n + 1"]
    unfolding page_at_shift by blast
  have lt: "page < page_at page (Suc k)"
    using page_at_less [OF Suc.prems, of 0] by simp
  have "page \<noteq> page_at page (Suc j)" if "j < k" for j
    using page_at_less [OF Suc.prems, of 0 "Suc j"] that by auto
  with m'(3) have hd: "m' page = page_at page 1"
    by (simp add: page_at_def)
  have "m' (page_at page j) = page_at page (Suc j)" if "j < Suc k" for j
    using hd m'(2) that by (cases j) simp_all
  moreover have "m' x = m x" if "\<forall>j<Suc k. x \<noteq> page_at page j" for x
    using m'(3) that [rule_format, of 0] that by auto
  moreover have "link_pages page (page_at page (Suc k)) m n = Some (m', n + int (Suc k))"
    using lt m'(1) by (subst link_pages.simps) simp
  ultimately show ?case by blast
qed

lemma chain_frames_from:
  assumes "\<And>j. j < n \<Longrightarrow> m (page_at low j) = page_at low (Suc j)"
    and "m (page_at low n) = y" and "\<And>j. j \<le> n \<Longrightarrow> page_at low j \<noteq> y"
  shows "chain m low (frames_from low (Suc n)) y"
  using assms
proof (induction n arbitrary: low)
  case 0
  from 0(2) 0(3) [of 0] show ?case by (auto simp: frames_from_def)
next
  case (Suc n)
  have "chain m (low + 4096) (frames_from (low + 4096) (Suc n)) y"
    by (rule Suc.IH) (use Suc.prems in \<open>auto simp: page_at_shift\<close>)
  moreover have "m low = low + 4096"
    using Suc.prems(1) [of 0] by (simp add: page_at_def)
  ultimately show ?case
    using Suc.prems(3) [of 0] by (simp add: frames_from_Suc [of low "Suc n"])
qed

text \<open>
  C26. On a memory area of \<open>n\<close> whole pages, \<^verbatim>\<open>frame_init\<close> returns with every page mapped one to
  one, the free list holding exactly these \<open>n\<close> frames in address order, nothing in use, and a
  total that is one less than the number of frames.
\<close>

theorem frame_init_free_list:
  assumes "is_frame low" and "unat low + Suc n * 4096 < 2 ^ 32"
    and "frame = low + of_nat (Suc n * 4096) - 1"
  shows "\<exists>s'. frame_init low frame s = Some s' \<and> frames_inv s' (frames_from low (Suc n)) {} \<and>
    l4 s' = l4 s @ map (\<lambda>p. MapFpage L4_rootspace p p L4_ReadWriteOnly) (frames_from low (Suc n)) \<and>
    frames_total s' = int n"
proof -
  have high: "frame + 1 = page_at low (Suc n)" and lim: "page_at low (Suc n) - 4096 = page_at low n"
    using assms(3) by (simp_all add: page_at_def)
  have b: "unat low + n * 4096 < 2 ^ 32"
    using assms(2) by simp
  obtain m' where m': "link_pages low (page_at low n) (mem s) 0 = Some (m', int n)"
      "\<forall>j<n. m' (page_at low j) = page_at low (Suc j)"
    using link_pages_run [OF b, of "mem s" 0] by auto
  let ?m = "m'(page_at low n := 0)"
  have "chain ?m low (frames_from low (Suc n)) 0"
  proof (rule chain_frames_from)
    show "?m (page_at low j) = page_at low (Suc j)" if "j < n" for j
      using m'(2) page_at_less [OF b that] that by auto
    show "page_at low j \<noteq> 0" if "j \<le> n" for j
      using page_at_is_frame [OF assms(1) b that] by (simp add: is_frame_def)
  qed simp
  moreover have "\<forall>a\<in>set (frames_from low (Suc n)). is_frame a"
    using page_at_is_frame [OF assms(1) b] by (auto simp: frames_from_def)
  ultimately show ?thesis
    using m'(1) map_pages_run [OF assms(2), of "l4 s"]
    by (simp add: frame_init_def Let_def high lim frames_inv_def frames_total_def)
qed

definition frames_none :: frames_st where
  "frames_none = \<lparr>mem = (\<lambda>_. 0), l4 = [], totalFrames = 0, firstFree = 0, totalInUse = 0\<rparr>"

theorem frame_init_free_list_witness:
  "\<exists>s'. frame_init 0x1000 0x2FFF frames_none = Some s' \<and> frames_inv s' [0x1000, 0x2000] {} \<and>
    frames_total s' = 1"
  using frame_init_free_list [of "0x1000" 1 "0x2FFF" frames_none]
  by (auto simp: is_frame_def frames_from_def page_at_def upt_rec [of 0] upt_rec [of 1])

section \<open>Safety of allocation\<close>

text \<open>
  C9. Whatever sequence of allocations and releases a client makes, releasing only frames it holds
  and asking only while a frame is free, every request succeeds, the frames it holds are pairwise
  different, none of them is on the free list, and the frames held and free are those that were
  free at the start: the allocator never hands out a frame twice and never loses one.
\<close>

theorem frame_requests_safe:
  assumes "frames_inv s F {}"
  shows "\<exists>L s' F'. run_reqs (\<lambda>s. firstFree s \<noteq> 0) (\<lambda>s. Some (frame_alloc reason s))
      (\<lambda>a s. Some (frame_free a s)) rs [] s = Some (L, s') \<and>
    distinct L \<and> frames_inv s' F' (set L) \<and> set F' \<union> set L = set F"
  using fr.run_reqs_invar [of s F "{}" "[]" "[]" reason rs] assms
  by (auto simp: frames_inv_eq)

definition frames_two :: frames_st where
  "frames_two = frames_none\<lparr>mem := (\<lambda>_. 0)(0x1000 := 0x2000), totalFrames := 1, firstFree := 0x1000\<rparr>"

theorem frame_requests_safe_witness:
  "frames_inv frames_two [0x1000, 0x2000] {} \<and>
   (\<exists>L s' F'. run_reqs (\<lambda>s. firstFree s \<noteq> 0) (\<lambda>s. Some (frame_alloc FA_STACK s))
      (\<lambda>a s. Some (frame_free a s)) [ReqAlloc, ReqAlloc, ReqRelease 0x1000, ReqAlloc] [] frames_two =
      Some (L, s') \<and> distinct L \<and> frames_inv s' F' (set L) \<and> set F' \<union> set L = {0x1000, 0x2000})"
proof -
  have "frames_inv frames_two [0x1000, 0x2000] {}"
    by (simp add: frames_inv_def frames_two_def frames_none_def is_frame_def)
  from this frame_requests_safe [OF this, of FA_STACK "[ReqAlloc, ReqAlloc, ReqRelease 0x1000, ReqAlloc]"]
  show ?thesis by simp
qed

end
