(* ===== verification/Kernel.thy ===== *)
theory Kernel
  imports Frames
begin

text \<open>
  What every part of SOS uses: the copy buffers through which user data reaches the kernel
  (\<^verbatim>\<open>pager_buffer\<close> of \<^verbatim>\<open>src/sos/pager.c\<close>), the C string functions on them, the clock
  reading, the sends of \<^verbatim>\<open>src/libs/sos/src/ipc.c\<close>, the non-blocking calls of
  \<^verbatim>\<open>src/libs/sos/src/sos.c\<close> that the pager makes to the root server, and the thread-number helpers
  of \<^verbatim>\<open>src/sos/libsos.h\<close>.
\<close>

section \<open>State\<close>

text \<open>
  \<open>copyInOutBuffer\<close> is the array of \<^verbatim>\<open>MAX_THREADS\<close> buffers of \<^verbatim>\<open>COPY_BUFSIZ\<close> bytes;
  \<open>now\<close> is the value of \<^verbatim>\<open>time_stamp()\<close> during the current step, and \<open>heapOk\<close> says whether
  \<^verbatim>\<open>malloc\<close> succeeds in it: both are set by the environment.
\<close>

record kernel_st = frames_st +
  copyInOutBuffer :: "nat \<Rightarrow> char"
  virtualPager :: L4_ThreadId_t
  now :: u64
  heapOk :: bool

section \<open>Strings and buffers\<close>

definition NUL :: char where
  [simp]: "NUL = CHR 0x00"

definition BUFFER_BYTES :: nat where
  "BUFFER_BYTES = 4194304"

text \<open>The C string at an index of the buffer; without a terminator before the end there is none.\<close>

function cstr :: "(nat \<Rightarrow> char) \<Rightarrow> nat \<Rightarrow> string option" where
  "cstr b i = (if BUFFER_BYTES \<le> i then None
     else if b i = NUL then Some []
     else map_option (Cons (b i)) (cstr b (Suc i)))"
  by auto
termination by (relation "measure (\<lambda>(b, i). BUFFER_BYTES - i)") auto

declare cstr.simps [simp del]

text \<open>\<^verbatim>\<open>strncpy\<close> to the buffer (padding with zeros), and \<^verbatim>\<open>memcpy\<close> of a list of bytes.\<close>

definition buf_strncpy :: "nat \<Rightarrow> string \<Rightarrow> nat \<Rightarrow> (nat \<Rightarrow> char) \<Rightarrow> nat \<Rightarrow> char" where
  "buf_strncpy dst str n b =
     (\<lambda>i. if dst \<le> i \<and> i < dst + n then if i - dst < length str then str ! (i - dst) else NUL else b i)"

definition buf_memcpy :: "nat \<Rightarrow> char list \<Rightarrow> (nat \<Rightarrow> char) \<Rightarrow> nat \<Rightarrow> char" where
  "buf_memcpy dst bs b = (\<lambda>i. if dst \<le> i \<and> i < dst + length bs then bs ! (i - dst) else b i)"

text \<open>A fixed array of \<open>n\<close> characters after \<^verbatim>\<open>strncpy\<close>, as the string it holds.\<close>

definition strncpy_field :: "nat \<Rightarrow> string \<Rightarrow> string" where
  "strncpy_field n str = take n str"

text \<open>The offset of the buffer of a thread.\<close>

definition pager_buffer :: "L4_ThreadId_t \<Rightarrow> nat" where
  "pager_buffer tid = nat (L4_ThreadNo tid) * 16384"

lemma cstr_eq_Some:
  assumes "\<And>k. k < length str \<Longrightarrow> b (i + k) = str ! k" and "b (i + length str) = NUL"
    and "\<forall>c\<in>set str. c \<noteq> NUL" and "i + length str < BUFFER_BYTES"
  shows "cstr b i = Some str"
  using assms
proof (induction str arbitrary: i)
  case Nil
  then show ?case by (simp add: cstr.simps)
next
  case (Cons c str)
  have "cstr b (Suc i) = Some str"
  proof (rule Cons.IH)
    show "b (Suc i + k) = str ! k" if "k < length str" for k
      using Cons.prems(1) [of "Suc k"] that by simp
  qed (use Cons.prems in auto)
  moreover have "b i = c"
    using Cons.prems(1) [of 0] by simp
  ultimately show ?case
    using Cons.prems by (subst cstr.simps) simp
qed

text \<open>A string that fits, with its terminator, is read back from the buffer unchanged.\<close>

lemma cstr_strncpy:
  assumes "length str < n" and "\<forall>c\<in>set str. c \<noteq> NUL" and "dst + n \<le> BUFFER_BYTES"
  shows "cstr (buf_strncpy dst str n b) dst = Some str"
  by (rule cstr_eq_Some) (use assms in \<open>auto simp: buf_strncpy_def\<close>)

section \<open>Sends\<close>

text \<open>
  A send builds the message and hands it to the microkernel. That the microkernel may refuse it, in which
  case \<^verbatim>\<open>ipc_send_v\<close> prints a diagnostic and returns 1, and what comes back from a call, are not modelled:
  SOS uses neither for its own sends.
\<close>

definition ipc_send :: "L4_ThreadId_t \<Rightarrow> syscall_t \<Rightarrow> ipc_type_t \<Rightarrow> u32 list \<Rightarrow>
    'z kernel_st_scheme \<Rightarrow> 'z kernel_st_scheme" where
  "ipc_send tid label ty ws s = s\<lparr>l4 := l4 s @ [Ipc tid ty (syscall_word label) ws]\<rparr>"

definition l4_do :: "l4_call \<Rightarrow> 'z kernel_st_scheme \<Rightarrow> 'z kernel_st_scheme" where
  "l4_do c s = s\<lparr>l4 := l4 s @ [c]\<rparr>"

definition open_lockNonblocking :: "u8 \<Rightarrow> u32 \<Rightarrow> u32 \<Rightarrow> 'z kernel_st_scheme \<Rightarrow> 'z kernel_st_scheme" where
  "open_lockNonblocking mode readers writers =
     ipc_send L4_rootserver SOS_OPEN SOS_IPC_SEND [ucast mode, readers, writers]"

definition openNonblocking :: "u8 \<Rightarrow> 'z kernel_st_scheme \<Rightarrow> 'z kernel_st_scheme" where
  "openNonblocking mode = open_lockNonblocking mode FM_UNLIMITED_RW FM_UNLIMITED_RW"

definition closeNonblocking :: "int \<Rightarrow> 'z kernel_st_scheme \<Rightarrow> 'z kernel_st_scheme" where
  "closeNonblocking file = ipc_send L4_rootserver SOS_CLOSE SOS_IPC_SEND [word_of_int file]"

definition readNonblocking :: "int \<Rightarrow> u32 \<Rightarrow> 'z kernel_st_scheme \<Rightarrow> 'z kernel_st_scheme" where
  "readNonblocking file nbyte = ipc_send L4_rootserver SOS_READ SOS_IPC_SEND [word_of_int file, nbyte]"

definition writeNonblocking :: "int \<Rightarrow> u32 \<Rightarrow> 'z kernel_st_scheme \<Rightarrow> 'z kernel_st_scheme" where
  "writeNonblocking file nbyte = ipc_send L4_rootserver SOS_WRITE SOS_IPC_SEND [word_of_int file, nbyte]"

definition SEEK_SET :: u32 where
  [simp]: "SEEK_SET = 0"
definition SEEK_CUR :: u32 where
  [simp]: "SEEK_CUR = 1"
definition SEEK_END :: u32 where
  [simp]: "SEEK_END = 2"

definition lseekNonblocking :: "int \<Rightarrow> u32 \<Rightarrow> u32 \<Rightarrow> 'z kernel_st_scheme \<Rightarrow> 'z kernel_st_scheme" where
  "lseekNonblocking file pos whence =
     ipc_send L4_rootserver SOS_LSEEK SOS_IPC_SEND [word_of_int file, pos, whence]"

definition statNonblocking :: "'z kernel_st_scheme \<Rightarrow> 'z kernel_st_scheme" where
  "statNonblocking = ipc_send L4_rootserver SOS_STAT SOS_IPC_SEND []"

lemmas send_defs = ipc_send_def l4_do_def open_lockNonblocking_def openNonblocking_def
  closeNonblocking_def readNonblocking_def writeNonblocking_def lseekNonblocking_def statNonblocking_def

section \<open>Threads and spaces\<close>

definition pager_get_tid :: "'z kernel_st_scheme \<Rightarrow> L4_ThreadId_t" where
  "pager_get_tid s = virtualPager s"

definition pager_is_active :: "'z kernel_st_scheme \<Rightarrow> bool" where
  "pager_is_active s \<longleftrightarrow> virtualPager s \<noteq> L4_nilthread"

text \<open>The thread of a sending space: the pager for the root space, else the thread of that number.\<close>

definition sos_sid2tid :: "int \<Rightarrow> 'z kernel_st_scheme \<Rightarrow> L4_ThreadId_t" where
  "sos_sid2tid sid s = (if sid = L4_rootspace then pager_get_tid s else L4_GlobalId sid 1)"

definition sos_tid2sid :: "L4_ThreadId_t \<Rightarrow> int" where
  "sos_tid2sid tid = L4_ThreadNo tid"

text \<open>\<^verbatim>\<open>wordAlign\<close>, which \<^verbatim>\<open>pager.c\<close> and \<^verbatim>\<open>syscall.c\<close> both define: round up to a word.\<close>

definition wordAlign :: "u32 \<Rightarrow> u32" where
  "wordAlign a = (let x = a - 1 in x + (4 - x mod 4))"

text \<open>\<^verbatim>\<open>round_up(address, size)\<close>.\<close>

definition round_up :: "u32 \<Rightarrow> u32 \<Rightarrow> u32" where
  "round_up a sz = (a + (sz - 1)) AND NOT (sz - 1)"

end
