(* ===== verification/Swapfile.thy ===== *)
theory Swapfile
  imports Kernel
begin

text \<open>
  Swap files, \<^verbatim>\<open>src/sos/swapfile.c\<close>: a page-sized table whose entries link the free slots of
  a file. The slot table is the second instance of the free-list interface. What it hands out is
  the slot's byte offset in the file.
\<close>

section \<open>State and operations\<close>

definition SWAPSIZE :: nat where
  [simp]: "SWAPSIZE = 1013"

text \<open>
  \<^verbatim>\<open>Swapfile\<close> with its \<^verbatim>\<open>SwapfileData\<close>: 44 bytes of data leave room for 1013 slots in a page,
  which is what \<^verbatim>\<open>assert(sizeof(Swapfile) == PAGESIZE)\<close> checks.
\<close>

record Swapfile =
  sf_path :: string
  sf_fd :: int
  sf_head :: u32
  sf_usage :: int
  sf_slots :: "u32 list"

definition SwapfileData_size :: nat where
  "SwapfileData_size = MAX_FILE_NAME + 4 + 4 + 4"

definition swapfile_init :: "string \<Rightarrow> 'z frames_st_scheme \<Rightarrow> (u32 \<times> Swapfile \<times> 'z frames_st_scheme) option" where
  "swapfile_init p s = do {
     c_assert (SwapfileData_size + SWAPSIZE * 4 = unat PAGESIZE);
     let (sf, s') = frame_alloc FA_SWAPFILE s;
     c_assert (sf \<noteq> 0);
     Some (sf,
       \<lparr>sf_path = strncpy_field MAX_FILE_NAME p, sf_fd = VFS_NIL_FILE, sf_head = 0, sf_usage = 0,
        sf_slots = map (\<lambda>i. of_nat (i + 1)) [0..<SWAPSIZE - 1] @ [ADDRESS_NONE]\<rparr>, s') }"

definition swapfile_is_open :: "Swapfile \<Rightarrow> bool" where
  "swapfile_is_open sf \<longleftrightarrow> sf_fd sf \<noteq> VFS_NIL_FILE"

definition swapfile_is_default :: "Swapfile \<Rightarrow> bool" where
  "swapfile_is_default sf \<longleftrightarrow> take MAX_FILE_NAME (sf_path sf) = take MAX_FILE_NAME SWAPFILE_FN"

definition SWAP_READERS :: u32 where
  [simp]: "SWAP_READERS = 1"
definition SWAP_WRITERS :: u32 where
  [simp]: "SWAP_WRITERS = 1"

definition swapfile_open :: "Swapfile \<Rightarrow> u8 \<Rightarrow> 'z kernel_st_scheme \<Rightarrow> 'z kernel_st_scheme option" where
  "swapfile_open sf rights s = do {
     c_assert (sf_fd sf = VFS_NIL_FILE);
     let s' = s\<lparr>copyInOutBuffer :=
       buf_strncpy (pager_buffer (pager_get_tid s)) (sf_path sf) MAX_FILE_NAME (copyInOutBuffer s)\<rparr>;
     Some (open_lockNonblocking (rights OR FM_NOTRUNC) SWAP_READERS SWAP_WRITERS s') }"

definition swapfile_close :: "Swapfile \<Rightarrow> 'z kernel_st_scheme \<Rightarrow> (Swapfile \<times> 'z kernel_st_scheme) option" where
  "swapfile_close sf s = do {
     c_assert (sf_fd sf \<noteq> VFS_NIL_FILE);
     Some (sf\<lparr>sf_fd := VFS_NIL_FILE\<rparr>, closeNonblocking (sf_fd sf) s) }"

definition swapfile_free :: "u32 \<Rightarrow> 'z frames_st_scheme \<Rightarrow> 'z frames_st_scheme" where
  "swapfile_free sf = frame_free sf"

definition swapfile_get_usage :: "Swapfile \<Rightarrow> int" where
  "swapfile_get_usage sf = sf_usage sf"

definition swapfile_get_fd :: "Swapfile \<Rightarrow> int option" where
  "swapfile_get_fd sf = do { c_assert (swapfile_is_open sf); Some (sf_fd sf) }"

definition swapfile_set_fd :: "int \<Rightarrow> Swapfile \<Rightarrow> Swapfile option" where
  "swapfile_set_fd f sf = do {
     c_assert (sf_fd sf = VFS_NIL_FILE);
     c_assert (f \<noteq> VFS_NIL_FILE);
     Some (sf\<lparr>sf_fd := f\<rparr>) }"

text \<open>
  \<^verbatim>\<open>swapslot_alloc\<close> is its assertion followed by its body. The assertion compares an \<^verbatim>\<open>int\<close> with a
  \<^verbatim>\<open>size_t\<close>, so as unsigned words. The body does not look at the end marker of the list: it reads
  the table at whatever the head is, and a read outside the array is \<^term>\<open>None\<close>.
\<close>

definition swapslot_assert :: "Swapfile \<Rightarrow> bool" where
  "swapslot_assert sf \<longleftrightarrow> (word_of_int (swapfile_get_usage sf) :: u32) \<le> of_nat SWAPSIZE"

definition swapslot_take :: "Swapfile \<Rightarrow> (u32 \<times> Swapfile) option" where
  "swapslot_take sf = do {
     let slot = sf_head sf;
     nxt \<leftarrow> arr_get (sf_slots sf) (unat slot);
     Some (slot * PAGESIZE, sf\<lparr>sf_head := nxt, sf_usage := sf_usage sf + 1\<rparr>) }"

definition swapslot_alloc :: "Swapfile \<Rightarrow> (u32 \<times> Swapfile) option" where
  "swapslot_alloc sf = do { c_assert (swapslot_assert sf); swapslot_take sf }"

definition swapslot_free :: "u32 \<Rightarrow> Swapfile \<Rightarrow> Swapfile option" where
  "swapslot_free slot sf = do {
     c_assert (slot AND NOT PAGEALIGN = 0);
     c_assert (swapfile_get_usage sf > 0);
     let i = slot div PAGESIZE;
     sl \<leftarrow> arr_set (sf_slots sf) (unat i) (sf_head sf);
     Some (sf\<lparr>sf_slots := sl, sf_head := i, sf_usage := sf_usage sf - 1\<rparr>) }"

section \<open>The slot table implements the free-list interface\<close>

definition is_slot :: "u32 \<Rightarrow> bool" where
  "is_slot a \<longleftrightarrow> unat a < SWAPSIZE"

definition slot_link :: "Swapfile \<Rightarrow> u32 \<Rightarrow> u32" where
  "slot_link sf a = sf_slots sf ! unat a"

definition swapfile_wf :: "Swapfile \<Rightarrow> bool" where
  "swapfile_wf sf \<longleftrightarrow> length (sf_slots sf) = SWAPSIZE \<and> 0 \<le> sf_usage sf"

lemma unat_slot_offset: "is_slot a \<Longrightarrow> unat (a * 4096) = unat a * 4096"
  by (simp add: is_slot_def unat_word_ariths)

lemma slot_offset_div: "is_slot a \<Longrightarrow> a * 4096 div 4096 = a"
  by (simp add: word_unat_eq_iff unat_div unat_slot_offset)

lemma slot_offset_aligned: "is_slot a \<Longrightarrow> (a * 4096) AND 0xFFF = 0"
  by (simp add: page_aligned_iff unat_slot_offset)

lemma card_slots: "finite X \<Longrightarrow> \<forall>a\<in>X. is_slot a \<Longrightarrow> card X \<le> SWAPSIZE"
proof -
  assume "\<forall>a\<in>X. is_slot a"
  then have "unat ` X \<subseteq> {..<SWAPSIZE}"
    by (auto simp: is_slot_def)
  then have "card (unat ` X) \<le> SWAPSIZE"
    using card_mono [of "{..<SWAPSIZE}" "unat ` X"] by simp
  then show "card X \<le> SWAPSIZE"
    by (simp add: card_image inj_on_def word_unat_eq_iff)
qed

lemma slot_links_upd:
  "is_slot a \<Longrightarrow> is_slot b \<Longrightarrow> length sl = SWAPSIZE \<Longrightarrow>
   sl[unat a := v] ! unat b = ((\<lambda>c. sl ! unat c)(a := v)) b"
  by (auto simp: is_slot_def nth_list_update word_unat_eq_iff)

lemma usage_word_le:
  "0 \<le> u \<Longrightarrow> u \<le> int SWAPSIZE \<Longrightarrow> (word_of_int u :: u32) \<le> of_nat SWAPSIZE"
  by (simp add: word_le_def uint_word_of_int)

interpretation sw: free_list
  sf_head slot_link ADDRESS_NONE is_slot sf_usage swapfile_wf "\<lambda>u. u \<le> int SWAPSIZE" "\<lambda>a. a * 4096"
  swapslot_alloc swapslot_free
proof (unfold_locales, goal_cases)
  case (1 a b)
  then show ?case by (metis slot_offset_div)
next
  case 2
  then show ?case by (simp add: is_slot_def)
next
  case (3 X)
  then show ?case using card_slots [of X] by simp
next
  case (4 s)
  then show ?case
    using usage_word_le [of "sf_usage s"]
    by (auto simp: swapslot_alloc_def swapslot_assert_def swapslot_take_def swapfile_get_usage_def swapfile_wf_def slot_link_def is_slot_def
        Let_def)
next
  case (5 s a)
  then have "swapslot_free (a * 4096) s =
      Some (s\<lparr>sf_slots := (sf_slots s)[unat a := sf_head s], sf_head := a, sf_usage := sf_usage s - 1\<rparr>)"
    using slot_offset_aligned [of a]
    by (simp add: swapslot_free_def swapfile_get_usage_def slot_offset_div swapfile_wf_def is_slot_def)
  with 5 show ?case
    by (auto simp: swapfile_wf_def slot_link_def slot_links_upd)
qed

definition swap_inv :: "Swapfile \<Rightarrow> u32 list \<Rightarrow> u32 set \<Rightarrow> bool" where
  "swap_inv sf F A \<longleftrightarrow> swapfile_wf sf \<and> chain (slot_link sf) (sf_head sf) F ADDRESS_NONE \<and>
     (\<forall>a\<in>set F \<union> A. is_slot a) \<and> set F \<inter> A = {} \<and> finite A \<and> sf_usage sf = int (card A)"

lemma swap_inv_eq: "swap_inv sf F A = sw.invar sf F A"
  unfolding swap_inv_def sw.invar_def ..


section \<open>Initialisation\<close>

lemma chain_from_upt:
  assumes "\<And>i. k \<le> i \<Longrightarrow> i < n \<Longrightarrow> nxt (f i) = (if Suc i < n then f (Suc i) else e)"
    and "\<And>i. k \<le> i \<Longrightarrow> i < n \<Longrightarrow> f i \<noteq> e" and "k < n"
  shows "chain nxt (f k) (map f [k..<n]) e"
  using assms
proof (induction "n - k" arbitrary: k)
  case (Suc d)
  show ?case
  proof (cases "Suc k < n")
    case True
    then have "chain nxt (f (Suc k)) (map f [Suc k..<n]) e"
      using Suc by (intro Suc.hyps(1)) auto
    then show ?thesis
      using Suc.prems True by (simp add: upt_conv_Cons)
  next
    case False
    then have "[k..<n] = [k]"
      using Suc.prems(3) by (simp add: upt_conv_Cons)
    then show ?thesis
      using Suc.prems False by simp
  qed
qed simp

text \<open>A new swap file has every slot free, in order.\<close>

lemma swapfile_init_inv:
  assumes "swapfile_init p s = Some (a, sf, s')"
  shows "swap_inv sf (map of_nat [0..<SWAPSIZE]) {}"
proof -
  have sl: "sf_slots sf = map (\<lambda>i. of_nat (i + 1)) [0..<SWAPSIZE - 1] @ [ADDRESS_NONE]"
    and hd: "sf_head sf = 0" and us: "sf_usage sf = 0"
    using assms by (auto simp: swapfile_init_def split: prod.splits if_splits)
  have un: "unat (of_nat i :: u32) = i" if "i < SWAPSIZE" for i
    using that by (simp add: unat_of_nat)
  have "chain (slot_link sf) (of_nat 0) (map of_nat [0..<SWAPSIZE]) ADDRESS_NONE"
  proof (rule chain_from_upt)
    fix i assume i: "0 \<le> i" "i < SWAPSIZE"
    show "slot_link sf (of_nat i) = (if Suc i < SWAPSIZE then of_nat (Suc i) else ADDRESS_NONE)"
      using i by (simp add: slot_link_def un sl nth_append del: ADDRESS_NONE_def upt_Suc)
    show "(of_nat i :: u32) \<noteq> ADDRESS_NONE"
      using un [OF i(2)] i(2) by auto
  qed simp
  moreover have "length (sf_slots sf) = SWAPSIZE"
    by (simp add: sl)
  ultimately show ?thesis
    using un by (auto simp: swap_inv_def swapfile_wf_def hd us is_slot_def)
qed

lemma slots_eq: "set (map of_nat [0..<SWAPSIZE]) = {a. is_slot a}"
  by (force simp: is_slot_def unat_of_nat image_iff intro: exI [of _ "unat _"])

lemma card_is_slot: "card {a. is_slot a} = SWAPSIZE" "finite {a. is_slot a}"
proof -
  have "inj_on (of_nat :: nat \<Rightarrow> u32) {..<SWAPSIZE}"
    by (rule inj_onI) (auto dest!: arg_cong [of _ _ unat] simp: unat_of_nat)
  then show "card {a. is_slot a} = SWAPSIZE" "finite {a. is_slot a}"
    unfolding slots_eq [symmetric] by (simp_all add: card_image atLeast0LessThan)
qed

text \<open>While every slot is free or held, the usage counter tells whether one is free.\<close>

lemma usage_full_iff:
  assumes "swap_inv sf F A" and "set F \<union> A = {a. is_slot a}"
  shows "swapfile_get_usage sf < int SWAPSIZE \<longleftrightarrow> F \<noteq> []"
proof -
  have i: "finite A" "set F \<inter> A = {}" "sf_usage sf = int (card A)"
    using assms(1) by (auto simp: swap_inv_def)
  have "card (set F) + card A = SWAPSIZE"
    using i assms(2) card_is_slot card_Un_disjoint [of "set F" A] by simp
  moreover have "card (set F) = 0 \<longleftrightarrow> F = []"
    by simp
  ultimately show ?thesis
    unfolding swapfile_get_usage_def i(3) by linarith
qed

text \<open>
  C24. On a new swap file, take any sequence of slot requests of a client that releases only what it
  holds and asks only while \<^verbatim>\<open>swapfile_get_usage\<close> is below 1013. Nothing in \<^verbatim>\<open>swapslot_alloc\<close> or in the
  pager makes that check, it is the client's duty. Then every request succeeds: the offsets handed
  out are page aligned, lie in the file's 1013 pages and are pairwise different, and the usage
  counter is their number.
\<close>

theorem swapslot_requests_safe:
  assumes "swapfile_init p s = Some (a, sf, s')"
  shows "\<exists>L sf'. run_reqs (\<lambda>sf. swapfile_get_usage sf < int SWAPSIZE) swapslot_alloc swapslot_free rs [] sf =
      Some (L, sf') \<and>
    distinct L \<and> (\<forall>d\<in>set L. d AND NOT PAGEALIGN = 0 \<and> unat d < SWAPSIZE * 4096) \<and>
    swapfile_get_usage sf' = int (length L)"
proof -
  let ?g = "\<lambda>sf. swapfile_get_usage sf < int SWAPSIZE"
  have "\<exists>L ls sf' F'. run_reqs ?g swapslot_alloc swapslot_free rs [] sf = Some (L, sf') \<and>
      L = map (\<lambda>a. a * 4096) ls \<and> distinct ls \<and> sw.invar sf' F' (set ls) \<and> set F' \<union> set ls = {a. is_slot a}"
    by (rule sw.run_reqs_guarded [where F = "map of_nat [0..<SWAPSIZE]" and A = "{}" and ls = "[]"])
      (use swapfile_init_inv [OF assms] usage_full_iff slots_eq in
        \<open>simp_all only: swap_inv_eq list.map distinct.simps list.set Un_empty_right\<close>)
  then obtain L ls sf' F' where r:
      "run_reqs ?g swapslot_alloc swapslot_free rs [] sf = Some (L, sf')"
      "L = map (\<lambda>a. a * 4096) ls" "distinct ls" "swap_inv sf' F' (set ls)"
    unfolding swap_inv_eq by (elim exE conjE)
  have sl: "\<forall>a\<in>set ls. is_slot a"
    using r(4) by (auto simp: swap_inv_def)
  then have "distinct L"
    using r(2,3) by (auto simp: distinct_map inj_on_def dest: sw.inj_out)
  moreover have "d AND NOT PAGEALIGN = 0 \<and> unat d < SWAPSIZE * 4096" if "d \<in> set L" for d
    using that r(2) sl slot_offset_aligned by (auto simp: unat_slot_offset is_slot_def)
  moreover have "sf_usage sf' = int (length L)"
    using r(2,3,4) by (simp add: swap_inv_def distinct_card)
  ultimately show ?thesis
    using r(1) unfolding swapfile_get_usage_def by blast
qed

lemma swapfile_init_frames_two:
  "\<exists>sf s'. swapfile_init ''.swap'' frames_two = Some (0x1000, sf, s')"
  by (simp add: swapfile_init_def SwapfileData_size_def frame_alloc_def frames_two_def frames_none_def Let_def)

theorem swapslot_requests_safe_witness:
  "\<exists>sf s' L sf'. swapfile_init ''.swap'' frames_two = Some (0x1000, sf, s') \<and>
    run_reqs (\<lambda>sf. swapfile_get_usage sf < int SWAPSIZE) swapslot_alloc swapslot_free
      [ReqAlloc, ReqAlloc, ReqRelease 0, ReqAlloc] [] sf = Some (L, sf') \<and>
    distinct L \<and> swapfile_get_usage sf' = int (length L)"
proof -
  obtain sf s' where "swapfile_init ''.swap'' frames_two = Some (0x1000, sf, s')"
    using swapfile_init_frames_two by blast
  from this swapslot_requests_safe [OF this, of "[ReqAlloc, ReqAlloc, ReqRelease 0, ReqAlloc]"]
  show ?thesis by blast
qed

text \<open>
  C29. From a new swap file 1013 allocations in a row succeed, and then every slot is in use. The
  next \<^verbatim>\<open>swapslot_alloc\<close> passes its assertion, and its body reads the table at the end marker of the
  list, which is no index of the array.
\<close>

theorem swapslot_alloc_exhausted:
  assumes "swapfile_init p s = Some (a, sf, s')"
  shows "\<exists>L sf'. run_reqs (\<lambda>_. True) swapslot_alloc swapslot_free (replicate 1013 ReqAlloc) [] sf = Some (L, sf') \<and>
    swapfile_get_usage sf' = 1013 \<and> swapslot_assert sf' \<and> sf_head sf' = ADDRESS_NONE \<and>
    length (sf_slots sf') < unat (sf_head sf') \<and> swapslot_take sf' = None"
proof -
  let ?F = "map of_nat [0..<SWAPSIZE] :: u32 list"
  have i: "sw.invar sf ?F {}" and n: "1013 \<le> length ?F"
    using swapfile_init_inv [OF assms] by (simp_all only: swap_inv_eq length_map length_upt SWAPSIZE_def)
  obtain sf' where sf': "run_reqs (\<lambda>_. True) swapslot_alloc swapslot_free (replicate 1013 ReqAlloc) [] sf =
        Some (rev (map (\<lambda>a. a * 4096) (take 1013 ?F)) @ [], sf')"
      "sw.invar sf' (drop 1013 ?F) ({} \<union> set (take 1013 ?F))"
    using sw.run_allocs [OF i n, of "[]"] by (elim exE conjE) (rule that)
  have "length ?F = 1013"
    by (simp only: length_map length_upt SWAPSIZE_def)
  then have "take 1013 ?F = ?F" "drop 1013 ?F = []"
    by (simp_all only: take_all drop_all order.refl)
  then have "swap_inv sf' [] {a. is_slot a}"
    using sf'(2) by (simp only: swap_inv_eq slots_eq Un_empty_left)
  then have f: "sf_head sf' = ADDRESS_NONE" "length (sf_slots sf') = SWAPSIZE" "sf_usage sf' = 1013"
    using card_is_slot by (auto simp: swap_inv_def swapfile_wf_def)
  have "swapslot_assert sf'"
    using usage_word_le [of "sf_usage sf'"] f by (simp add: swapslot_assert_def swapfile_get_usage_def)
  moreover have "swapslot_take sf' = None"
    using f by (simp add: swapslot_take_def)
  ultimately show ?thesis
    using sf'(1) f by (auto simp: swapfile_get_usage_def)
qed

theorem swapslot_alloc_exhausted_witness:
  "\<exists>sf s' L sf'. swapfile_init ''.swap'' frames_two = Some (0x1000, sf, s') \<and>
    run_reqs (\<lambda>_. True) swapslot_alloc swapslot_free (replicate 1013 ReqAlloc) [] sf = Some (L, sf') \<and>
    swapslot_assert sf' \<and> swapslot_take sf' = None"
proof -
  obtain sf s' where "swapfile_init ''.swap'' frames_two = Some (0x1000, sf, s')"
    using swapfile_init_frames_two by blast
  from this swapslot_alloc_exhausted [OF this] show ?thesis by blast
qed

end
