(* ===== verification/Region.thy ===== *)
theory Region
  imports Swapfile
begin

text \<open>
  Memory regions of a process, \<^verbatim>\<open>src/sos/region.c\<close>, with the callbacks that \<^verbatim>\<open>pager.c\<close> and
  \<^verbatim>\<open>process.c\<close> run over region lists. A region points to the swap file of its ELF image by
  address (0 for none); the swap files live in a map from addresses.
\<close>

datatype region_type = REGION_STACK | REGION_HEAP | REGION_OTHER | REGION_THREAD_INIT

text \<open>\<open>filesize\<close> is not set by \<^verbatim>\<open>region_alloc\<close>: reading it before it is set is undefined.\<close>

record Region =
  rg_type :: region_type
  rg_base :: u32
  rg_size :: u32
  rg_filesize :: "u32 option"
  rg_rights :: u32
  rg_mapDirectly :: bool
  rg_elffile :: u32

definition REGION_READ :: u32 where
  [simp]: "REGION_READ = 4"
definition REGION_WRITE :: u32 where
  [simp]: "REGION_WRITE = 2"
definition REGION_EXECUTE :: u32 where
  [simp]: "REGION_EXECUTE = 1"

definition region_alloc :: "region_type \<Rightarrow> u32 \<Rightarrow> u32 \<Rightarrow> u32 \<Rightarrow> bool \<Rightarrow> Region" where
  "region_alloc ty base sz rights dirmap =
     \<lparr>rg_type = ty, rg_base = base, rg_size = sz, rg_filesize = None, rg_rights = rights,
      rg_mapDirectly = dirmap, rg_elffile = 0\<rparr>"

type_synonym swapfiles = "u32 \<rightharpoonup> Swapfile"

definition region_free :: "Region \<Rightarrow> swapfiles \<Rightarrow> 'z frames_st_scheme \<Rightarrow>
    (swapfiles \<times> 'z frames_st_scheme) option" where
  "region_free r sfs s =
     (if rg_elffile r = 0 then Some (sfs, s)
      else do {
        sf \<leftarrow> sfs (rg_elffile r);
        if swapfile_is_default sf then Some (sfs, s)
        else Some (sfs(rg_elffile r := None), swapfile_free (rg_elffile r) s) })"

definition region_get_type :: "Region \<Rightarrow> region_type" where
  "region_get_type r = rg_type r"
definition region_get_base :: "Region \<Rightarrow> u32" where
  "region_get_base r = rg_base r"
definition region_get_size :: "Region \<Rightarrow> u32" where
  "region_get_size r = rg_size r"
definition region_get_filesize :: "Region \<Rightarrow> u32 option" where
  "region_get_filesize r = rg_filesize r"
definition region_get_rights :: "Region \<Rightarrow> u32" where
  "region_get_rights r = rg_rights r"
definition region_get_elffile :: "Region \<Rightarrow> u32" where
  "region_get_elffile r = rg_elffile r"
definition region_map_directly :: "Region \<Rightarrow> bool" where
  "region_map_directly r = rg_mapDirectly r"
definition region_set_rights :: "u32 \<Rightarrow> Region \<Rightarrow> Region" where
  "region_set_rights rights r = r\<lparr>rg_rights := rights\<rparr>"
definition region_set_size :: "u32 \<Rightarrow> Region \<Rightarrow> Region" where
  "region_set_size sz r = r\<lparr>rg_size := sz\<rparr>"
definition region_set_filesize :: "u32 \<Rightarrow> Region \<Rightarrow> Region" where
  "region_set_filesize sz r = r\<lparr>rg_filesize := Some sz\<rparr>"
definition region_set_elffile :: "u32 \<Rightarrow> Region \<Rightarrow> Region" where
  "region_set_elffile sf r = r\<lparr>rg_elffile := sf\<rparr>"

lemmas region_defs = region_get_type_def region_get_base_def region_get_size_def
  region_get_filesize_def region_get_rights_def region_get_elffile_def region_map_directly_def
  region_set_rights_def region_set_size_def region_set_filesize_def region_set_elffile_def

section \<open>Callbacks over region lists\<close>

definition findHeap :: "Region \<Rightarrow> bool" where
  "findHeap r \<longleftrightarrow> region_get_type r = REGION_HEAP"

definition findRegion :: "u32 \<Rightarrow> Region \<Rightarrow> bool" where
  "findRegion addr r \<longleftrightarrow> region_get_base r \<le> addr \<and> addr < region_get_base r + region_get_size r"

text \<open>The second conjunct is a comma expression with the value \<^verbatim>\<open>PAGESIZE\<close>.\<close>

definition findPaRegion :: "u32 \<Rightarrow> Region \<Rightarrow> bool" where
  "findPaRegion addr r \<longleftrightarrow> (region_get_base r AND PAGEALIGN) \<le> addr \<and> (let _ = region_get_size r in PAGESIZE) \<noteq> 0"

text \<open>
  So \<^verbatim>\<open>findPaRegion\<close> finds the first region that starts at or below the page of an address,
  wherever that region ends: the region found need not contain the address.
\<close>

lemma findPaRegion_ignores_size:
  "find (findPaRegion addr) rs = find (\<lambda>r. (region_get_base r AND PAGEALIGN) \<le> addr) rs"
  by (induction rs) (simp_all add: findPaRegion_def)

lemma findPaRegion_wrong_region:
  "find (findPaRegion 0x5000) [region_alloc REGION_OTHER 0x1000 0x1000 6 False,
      region_alloc REGION_OTHER 0x5000 0x1000 6 False] = Some (region_alloc REGION_OTHER 0x1000 0x1000 6 False)"
  "find (findRegion 0x5000) [region_alloc REGION_OTHER 0x1000 0x1000 6 False,
      region_alloc REGION_OTHER 0x5000 0x1000 6 False] = Some (region_alloc REGION_OTHER 0x5000 0x1000 6 False)"
  by (simp_all add: findPaRegion_def findRegion_def region_alloc_def region_defs)

text \<open>The reduction that finds the highest top of a region compares signed integers.\<close>

definition regionFindHighest :: "Region \<Rightarrow> int \<Rightarrow> int" where
  "regionFindHighest r d = (let top = sint (region_get_base r + region_get_size r) in if top > d then top else d)"

lemma regionFindHighest_upper:
  "d \<le> fold regionFindHighest rs d \<and>
   (\<forall>r\<in>set rs. sint (region_get_base r + region_get_size r) \<le> fold regionFindHighest rs d)"
proof (induction rs arbitrary: d)
  case (Cons r rs)
  have "d \<le> regionFindHighest r d" "sint (region_get_base r + region_get_size r) \<le> regionFindHighest r d"
    by (simp_all add: regionFindHighest_def Let_def)
  with Cons [of "regionFindHighest r d"] show ?case by auto
qed simp

lemma regionFindHighest_attained:
  "fold regionFindHighest rs d = d \<or>
   (\<exists>r\<in>set rs. sint (region_get_base r + region_get_size r) = fold regionFindHighest rs d)"
proof (induction rs arbitrary: d)
  case (Cons r rs)
  have "regionFindHighest r d = d \<or> regionFindHighest r d = sint (region_get_base r + region_get_size r)"
    by (simp add: regionFindHighest_def Let_def)
  with Cons [of "regionFindHighest r d"] show ?case by auto
qed simp

end
