(* ===== verification/PageTable.thy ===== *)
theory PageTable
  imports Frames
begin

text \<open>
  The two-level page tables of \<^verbatim>\<open>src/sos/pager.c\<close>, in the words of physical memory: a first-level
  frame of 1024 pointers to second-level frames of 1024 entries, allocated on demand. The tables
  are shown to be maps from pages to entries, and looking up an address never changes an entry.
\<close>

section \<open>Operations\<close>

text \<open>Masks of an entry.\<close>

definition SWAP_MASK :: u32 where
  [simp]: "SWAP_MASK = 1"
definition REF_MASK :: u32 where
  [simp]: "REF_MASK = 2"
definition ELF_MASK :: u32 where
  [simp]: "ELF_MASK = 4"
definition ADDRESS_MASK :: u32 where
  [simp]: "ADDRESS_MASK = PAGEALIGN"

text \<open>The address of word \<open>i\<close> of a frame, and the loop that clears all words of one.\<close>

definition word_at :: "u32 \<Rightarrow> nat \<Rightarrow> u32" where
  "word_at a i = a + of_nat (4 * i)"

fun clear_words :: "u32 \<Rightarrow> nat \<Rightarrow> word_mem \<Rightarrow> word_mem" where
  "clear_words a 0 m = m"
| "clear_words a (Suc n) m = (clear_words a n m)(word_at a n := 0)"

definition pagetable_init :: "'z frames_st_scheme \<Rightarrow> (u32 \<times> 'z frames_st_scheme) option" where
  "pagetable_init s = (let (pt, s) = frame_alloc FA_PAGETABLE1 s in do {
     c_assert (pt \<noteq> 0);
     Some (pt, s\<lparr>mem := clear_words pt 1024 (mem s)\<rparr>) })"

text \<open>
  \<^verbatim>\<open>pagetableLookup\<close> returns the address of the entry (0 for a null table), allocating the
  second-level table when it is missing.
\<close>

definition pagetableLookup :: "u32 \<Rightarrow> u32 \<Rightarrow> 'z frames_st_scheme \<Rightarrow> (u32 \<times> 'z frames_st_scheme) option" where
  "pagetableLookup pt addr s = (let
       a = addr div PAGESIZE;
       offset1 = a div PAGEWORDS;
       offset2 = a - offset1 * PAGEWORDS in
     if pt = 0 then Some (0, s)
     else let slot = word_at pt (unat offset1) in do {
       s \<leftarrow> (if mem s slot = 0
         then let (f, s) = frame_alloc FA_PAGETABLE2 s in do {
           let s = s\<lparr>mem := (mem s)(slot := f)\<rparr>;
           c_assert (f \<noteq> 0);
           Some (s\<lparr>mem := clear_words (mem s slot) 1024 (mem s)\<rparr>) }
         else Some s);
       Some (word_at (mem s slot) (unat offset2), s) })"

text \<open>
  \<^verbatim>\<open>pagetableFree\<close> gets a process in the code and starts by asserting that it and its page table are not
  null. Here its argument is the page table; its only caller, the deletion of a process, has looked the
  process up and fails on a null one.
\<close>

fun free_level2 :: "u32 \<Rightarrow> nat \<Rightarrow> nat \<Rightarrow> 'z frames_st_scheme \<Rightarrow> 'z frames_st_scheme" where
  "free_level2 pt i 0 s = s"
| "free_level2 pt i (Suc n) s =
     free_level2 pt (Suc i) n (if mem s (word_at pt i) \<noteq> 0 then frame_free (mem s (word_at pt i)) s else s)"

definition pagetableFree :: "u32 \<Rightarrow> 'z frames_st_scheme \<Rightarrow> 'z frames_st_scheme option" where
  "pagetableFree pt s = do {
     c_assert (pt \<noteq> 0);
     Some (frame_free pt (free_level2 pt 0 1024 s)) }"

section \<open>Words of frames\<close>

lemma frame_bound:
  assumes "is_frame a"
  shows "unat a + 4096 \<le> 2 ^ 32"
proof -
  obtain k where k: "unat a = 4096 * k"
    using assms by (auto simp: is_frame_def page_aligned_iff mod_eq_0_iff_dvd dvd_def)
  have "unat a < 2 ^ 32"
    using unsigned_less [of a] by simp
  then show ?thesis
    using k by simp
qed

lemma unat_word_at: "is_frame a \<Longrightarrow> i < 1024 \<Longrightarrow> unat (word_at a i) = unat a + 4 * i"
  using frame_bound [of a] by (simp add: word_at_def unat_word_ariths unat_of_nat)

lemma word_at_div: "is_frame a \<Longrightarrow> i < 1024 \<Longrightarrow> unat (word_at a i) div 4096 = unat a div 4096"
  by (auto simp: unat_word_at is_frame_def page_aligned_iff)

lemma word_at_inj:
  assumes "is_frame a" and "is_frame b" and "i < 1024" and "j < 1024"
  shows "word_at a i = word_at b j \<longleftrightarrow> a = b \<and> i = j"
proof
  assume eq: "word_at a i = word_at b j"
  have "unat a mod 4096 = 0" "unat b mod 4096 = 0"
    using assms by (auto simp: is_frame_def page_aligned_iff)
  moreover have "unat a div 4096 = unat b div 4096"
    using eq word_at_div assms by metis
  ultimately have "unat a = unat b"
    by (metis div_mod_decomp)
  moreover have "unat a + 4 * i = unat b + 4 * j"
    using eq unat_word_at assms by metis
  ultimately show "a = b \<and> i = j"
    by (simp add: word_unat_eq_iff)
qed simp

lemma word_at_0 [simp]: "word_at a 0 = a"
  by (simp add: word_at_def)

lemma word_at_frame: "is_frame a \<Longrightarrow> is_frame b \<Longrightarrow> i < 1024 \<Longrightarrow> word_at a i = b \<longleftrightarrow> a = b \<and> i = 0"
  using word_at_inj [of a b i 0] by simp

lemma word_at_nonzero: "is_frame a \<Longrightarrow> i < 1024 \<Longrightarrow> word_at a i \<noteq> 0"
  using unat_word_at [of a i] by (auto simp: is_frame_def unat_eq_zero)

lemma clear_words_apply:
  "clear_words a n m x = (if \<exists>i<n. x = word_at a i then 0 else m x)"
  by (induction n) (auto simp: less_Suc_eq)

section \<open>The invariant of a page table\<close>

definition offs1 :: "u32 \<Rightarrow> nat" where
  "offs1 addr = unat addr div 4096 div 1024"

definition offs2 :: "u32 \<Rightarrow> nat" where
  "offs2 addr = unat addr div 4096 mod 1024"

definition level2 :: "'z frames_st_scheme \<Rightarrow> u32 \<Rightarrow> nat \<Rightarrow> u32" where
  "level2 s pt i = mem s (word_at pt i)"

text \<open>The frames a page table occupies.\<close>

definition pt_frames :: "'z frames_st_scheme \<Rightarrow> u32 \<Rightarrow> u32 set" where
  "pt_frames s pt = insert pt (level2 s pt ` {i. i < 1024 \<and> level2 s pt i \<noteq> 0})"

definition pt_inv :: "'z frames_st_scheme \<Rightarrow> u32 \<Rightarrow> bool" where
  "pt_inv s pt \<longleftrightarrow> is_frame pt \<and>
     (\<forall>i<1024. level2 s pt i \<noteq> 0 \<longrightarrow> is_frame (level2 s pt i) \<and> level2 s pt i \<noteq> pt) \<and>
     (\<forall>i<1024. \<forall>j<1024. level2 s pt i = level2 s pt j \<longrightarrow> level2 s pt i \<noteq> 0 \<longrightarrow> i = j)"

text \<open>The entry of an address; without a second-level table it is 0.\<close>

definition pt_entry :: "'z frames_st_scheme \<Rightarrow> u32 \<Rightarrow> u32 \<Rightarrow> u32" where
  "pt_entry s pt addr = (let e = level2 s pt (offs1 addr) in if e = 0 then 0 else mem s (word_at e (offs2 addr)))"

lemma offs_bounds [simp]: "offs1 addr < 1024" "offs2 addr < 1024"
proof -
  have "unat addr < 2 ^ 32"
    using unsigned_less [of addr] by simp
  then show "offs1 addr < 1024"
    by (simp add: offs1_def div_less_iff_less_mult)
qed (simp add: offs2_def)

lemma offs_words:
  "unat (addr div 4096 div 1024) = offs1 addr"
  "unat (addr div 4096 - addr div 4096 div 1024 * 1024) = offs2 addr"
proof -
  show o1: "unat (addr div 4096 div 1024) = offs1 addr"
    by (simp add: offs1_def unat_div)
  have "unat (addr div 4096 div 1024 * 1024) = unat addr div 4096 div 1024 * 1024"
    using offs_bounds(1) [of addr] by (simp add: unat_word_ariths unat_div offs1_def)
  moreover have "addr div 4096 div 1024 * 1024 \<le> addr div 4096"
    using calculation by (simp add: word_le_nat_alt unat_div)
  ultimately show "unat (addr div 4096 - addr div 4096 div 1024 * 1024) = offs2 addr"
    by (simp only: unat_sub unat_div offs2_def) (simp add: minus_div_mult_eq_mod)
qed

lemma offs_eq_iff: "offs1 a = offs1 b \<and> offs2 a = offs2 b \<longleftrightarrow> unat a div 4096 = unat b div 4096"
  unfolding offs1_def offs2_def by (metis div_mult_mod_eq)

lemma offs_page [simp]: "offs1 (a AND 0xFFFFF000) = offs1 a" "offs2 (a AND 0xFFFFF000) = offs2 a"
  by (simp_all add: offs1_def offs2_def page_div)

lemma pt_entry_page [simp]: "pt_entry s pt (a AND 0xFFFFF000) = pt_entry s pt a"
  by (simp add: pt_entry_def Let_def)

lemma level2_upd:
  "is_frame pt \<Longrightarrow> is_frame e \<Longrightarrow> e \<noteq> pt \<Longrightarrow> j < 1024 \<Longrightarrow> i < 1024 \<Longrightarrow>
   level2 (s\<lparr>mem := (mem s)(word_at e j := v)\<rparr>) pt i = level2 s pt i"
  by (simp add: level2_def word_at_inj)

section \<open>Looking up and storing\<close>

text \<open>A store to a word of an allocated frame keeps the free list.\<close>

lemma frames_inv_store:
  assumes "frames_inv s F A" and "e \<in> A" and "i < 1024"
  shows "frames_inv (s\<lparr>mem := (mem s)(word_at e i := v)\<rparr>) F A"
proof -
  have "is_frame e" and "e \<notin> set F" and "\<forall>f\<in>set F. is_frame f"
    using assms by (auto simp: frames_inv_def)
  then have "word_at e i \<notin> set F"
    using assms(3) word_at_frame by metis
  with assms(1) show ?thesis
    by (simp add: frames_inv_def chain_fun_upd)
qed

lemma frames_inv_clear:
  assumes "frames_inv s F A" and "e \<in> A" and "n \<le> 1024"
  shows "frames_inv (s\<lparr>mem := clear_words e n (mem s)\<rparr>) F A"
  using assms(3)
proof (induction n)
  case 0
  with assms(1) show ?case by simp
next
  case (Suc n)
  then show ?case
    using frames_inv_store [of "s\<lparr>mem := clear_words e n (mem s)\<rparr>" F A e n 0] assms(2)
    by (simp del: fun_upd_apply)
qed

text \<open>\<open>points s pt x addr\<close>: \<open>x\<close> is the address of the entry of \<open>addr\<close>.\<close>

definition points :: "'z frames_st_scheme \<Rightarrow> u32 \<Rightarrow> u32 \<Rightarrow> u32 \<Rightarrow> bool" where
  "points s pt x addr \<longleftrightarrow> level2 s pt (offs1 addr) \<noteq> 0 \<and> x = word_at (level2 s pt (offs1 addr)) (offs2 addr)"

lemma points_read: "points s pt x addr \<Longrightarrow> mem s x = pt_entry s pt addr"
  by (simp add: points_def pt_entry_def)

lemma pagetableLookup_present:
  assumes "pt_inv s pt" and "level2 s pt (offs1 addr) \<noteq> 0"
  shows "pagetableLookup pt addr s = Some (word_at (level2 s pt (offs1 addr)) (offs2 addr), s)"
  using assms by (simp add: pagetableLookup_def pt_inv_def is_frame_def offs_words level2_def Let_def)

text \<open>The state after a second-level table has been put in place.\<close>

definition add_level2 :: "u32 \<Rightarrow> u32 \<Rightarrow> u32 \<Rightarrow> 'z frames_st_scheme \<Rightarrow> 'z frames_st_scheme" where
  "add_level2 pt addr f s =
     s\<lparr>mem := clear_words f 1024 ((mem s)(word_at pt (offs1 addr) := f))\<rparr>"

lemma pagetableLookup_missing:
  assumes "pt_inv s pt" and "level2 s pt (offs1 addr) = 0" and "frame_alloc FA_PAGETABLE2 s = (f, s1)"
    and "is_frame f" and "f \<noteq> pt" and "mem s1 = mem s"
  shows "pagetableLookup pt addr s = Some (word_at f (offs2 addr), add_level2 pt addr f s1)"
proof -
  have "\<forall>i<1024. word_at pt (offs1 addr) \<noteq> word_at f i"
    using assms by (simp add: word_at_inj pt_inv_def)
  then have "clear_words f 1024 ((mem s)(word_at pt (offs1 addr) := f)) (word_at pt (offs1 addr)) = f"
    by (auto simp: clear_words_apply)
  then show ?thesis
    using assms
    by (simp add: pagetableLookup_def pt_inv_def is_frame_def offs_words level2_def Let_def add_level2_def)
qed

lemma level2_add:
  assumes "is_frame pt" and "is_frame f" and "f \<noteq> pt" and "i < 1024"
  shows "level2 (add_level2 pt addr f s) pt i = (if i = offs1 addr then f else level2 s pt i)"
proof -
  have "\<forall>j<1024. word_at pt i \<noteq> word_at f j"
    using assms by (simp add: word_at_inj)
  moreover have "word_at pt i = word_at pt (offs1 addr) \<longleftrightarrow> i = offs1 addr"
    using assms by (simp add: word_at_inj)
  ultimately show ?thesis
    by (auto simp: level2_def add_level2_def clear_words_apply)
qed

text \<open>Other frames keep their words.\<close>

lemma add_level2_other:
  assumes "is_frame pt" and "is_frame f" and "is_frame e" and "e \<noteq> pt" and "e \<noteq> f" and "i < 1024"
  shows "mem (add_level2 pt addr f s) (word_at e i) = mem s (word_at e i)"
  using assms by (auto simp: add_level2_def clear_words_apply word_at_inj)

lemma add_level2_new:
  "is_frame f \<Longrightarrow> i < 1024 \<Longrightarrow> mem (add_level2 pt addr f s) (word_at f i) = 0"
  by (auto simp: add_level2_def clear_words_apply)

lemma add_level2_inv:
  assumes pt: "pt_inv s pt" and l2: "level2 s pt (offs1 addr) = 0" and f: "is_frame f" "f \<notin> pt_frames s pt"
    and m: "mem s1 = mem s"
  shows "pt_inv (add_level2 pt addr f s1) pt"
    and "pt_frames (add_level2 pt addr f s1) pt = insert f (pt_frames s pt)"
    and "pt_entry (add_level2 pt addr f s1) pt w = pt_entry s pt w"
proof -
  have fp: "is_frame pt" "f \<noteq> pt" "f \<noteq> 0"
    using pt f by (auto simp: pt_inv_def pt_frames_def is_frame_def)
  have l1: "level2 s1 pt i = level2 s pt i" for i
    by (simp add: level2_def m)
  note la = level2_add [OF fp(1) f(1) fp(2), where s = s1 and addr = addr, unfolded l1]
  have fn: "\<forall>i<1024. level2 s pt i \<noteq> f"
    using f fp by (auto simp: pt_frames_def)
  show "pt_inv (add_level2 pt addr f s1) pt"
    using pt f fp fn by (auto simp: pt_inv_def la)
  have "{i. i < 1024 \<and> level2 (add_level2 pt addr f s1) pt i \<noteq> 0} =
      insert (offs1 addr) {i. i < 1024 \<and> level2 s pt i \<noteq> 0}"
    using fp by (auto simp: la split: if_splits)
  then show "pt_frames (add_level2 pt addr f s1) pt = insert f (pt_frames s pt)"
    using l2 by (auto simp: pt_frames_def la image_iff)
  show "pt_entry (add_level2 pt addr f s1) pt w = pt_entry s pt w"
  proof (cases "level2 s pt (offs1 w) = 0 \<or> offs1 w = offs1 addr")
    case True
    then show ?thesis
      using l2 f fp by (auto simp: pt_entry_def la Let_def add_level2_new)
  next
    case False
    then have "is_frame (level2 s pt (offs1 w))" "level2 s pt (offs1 w) \<noteq> pt" "level2 s pt (offs1 w) \<noteq> f"
      using pt fn by (auto simp: pt_inv_def)
    then show ?thesis
      using False f fp by (simp add: pt_entry_def la Let_def add_level2_other m)
  qed
qed

lemma frame_alloc_mem: "frame_alloc reason s = (f, s') \<Longrightarrow> mem s' = mem s"
  by (auto simp: frame_alloc_def Let_def split: if_splits)

text \<open>
  A lookup returns the address of the entry; it changes no entry, and takes at most one frame from
  the free list, for the table itself.
\<close>

lemma pagetableLookup_spec:
  assumes pt: "pt_inv s pt" and fi: "frames_inv s F A" and sub: "pt_frames s pt \<subseteq> A"
    and av: "F \<noteq> [] \<or> level2 s pt (offs1 addr) \<noteq> 0"
  shows "\<exists>x s' F' A'. pagetableLookup pt addr s = Some (x, s') \<and> points s' pt x addr \<and> pt_inv s' pt \<and>
    frames_inv s' F' A' \<and> pt_frames s' pt \<subseteq> A' \<and>
    (F' = F \<and> A' = A \<or> (\<exists>f. F = f # F' \<and> A' = insert f A)) \<and> pt_frames s' pt - pt_frames s pt = A' - A \<and>
    pt_frames s pt \<subseteq> pt_frames s' pt \<and>
    (\<forall>w. pt_entry s' pt w = pt_entry s pt w) \<and>
    (\<forall>e\<in>A - pt_frames s pt. \<forall>i<1024. mem s' (word_at e i) = mem s (word_at e i))"
proof (cases "level2 s pt (offs1 addr) = 0")
  case False
  then show ?thesis
    using assms pagetableLookup_present [OF pt False]
    by (intro exI [of _ "word_at (level2 s pt (offs1 addr)) (offs2 addr)"] exI [of _ s] exI [of _ F] exI [of _ A])
      (auto simp: points_def)
next
  case True
  then obtain f F' where F: "F = f # F'"
    using av by (cases F) auto
  obtain s1 where s1: "frame_alloc FA_PAGETABLE2 s = (f, s1)" "frames_inv s1 F' (insert f A)"
    using frame_alloc_pops [OF fi [unfolded F], of FA_PAGETABLE2] by blast
  note m = frame_alloc_mem [OF s1(1)]
  have f: "is_frame f" "f \<notin> A" "is_frame pt" "pt \<in> A" "\<forall>e\<in>A. is_frame e"
    using fi F pt sub by (auto simp: frames_inv_def pt_inv_def pt_frames_def)
  then have fn: "f \<notin> pt_frames s pt" "f \<noteq> pt"
    using sub by auto
  let ?s = "add_level2 pt addr f s1"
  note inv = add_level2_inv [OF pt True f(1) fn(1) m]
  have "frames_inv (s1\<lparr>mem := (mem s1)(word_at pt (offs1 addr) := f)\<rparr>) F' (insert f A)"
    using frames_inv_store [OF s1(2)] f by simp
  from frames_inv_clear [OF this, of f 1024] have "frames_inv ?s F' (insert f A)"
    by (simp add: add_level2_def)
  moreover have "points ?s pt (word_at f (offs2 addr)) addr"
    using level2_add [OF f(3) f(1) fn(2), of "offs1 addr" addr s1] f(1)
    by (simp add: points_def is_frame_def)
  moreover have "mem ?s (word_at e i) = mem s (word_at e i)" if "e \<in> A - pt_frames s pt" "i < 1024" for e i
    using add_level2_other [OF f(3) f(1), of e i addr s1] that f m by (auto simp: pt_frames_def)
  moreover have "insert f (pt_frames s pt) \<subseteq> insert f A" "insert f (pt_frames s pt) - pt_frames s pt = insert f A - A"
    using sub f(2) fn(1) by auto
  ultimately show ?thesis
    using pagetableLookup_missing [OF pt True s1(1) f(1) fn(2) m] inv F
    by (intro exI [of _ "word_at f (offs2 addr)"] exI [of _ ?s] exI [of _ F'] exI [of _ "insert f A"]) auto
qed

lemma pt_store_spec:
  fixes s :: "'z frames_st_scheme" and v :: u32
  assumes pt: "pt_inv s pt" and fi: "frames_inv s F A" and sub: "pt_frames s pt \<subseteq> A"
    and px: "points s pt x addr"
  defines "s' \<equiv> s\<lparr>mem := (mem s)(x := v)\<rparr>"
  shows "pt_inv s' pt" and "frames_inv s' F A" and "pt_frames s' pt = pt_frames s pt"
    and "points s' pt y w = points s pt y w"
    and "pt_entry s' pt w = (if unat w div 4096 = unat addr div 4096 then v else pt_entry s pt w)"
proof -
  let ?e = "level2 s pt (offs1 addr)"
  have e: "?e \<noteq> 0" "is_frame ?e" "?e \<noteq> pt" "is_frame pt" "?e \<in> A" and x: "x = word_at ?e (offs2 addr)"
    using px pt sub by (auto simp: points_def pt_inv_def pt_frames_def)
  have l2: "level2 s' pt i = level2 s pt i" if "i < 1024" for i
    using level2_upd [OF e(4,2,3) _ that, of "offs2 addr" s v] by (simp add: s'_def x)
  show "pt_inv s' pt"
    using pt by (simp add: pt_inv_def l2)
  show "frames_inv s' F A"
    using frames_inv_store [OF fi e(5), of "offs2 addr" v] by (simp add: s'_def x)
  show "pt_frames s' pt = pt_frames s pt"
    by (auto simp: pt_frames_def l2)
  show "points s' pt y w = points s pt y w"
    by (simp add: points_def l2)
  show "pt_entry s' pt w = (if unat w div 4096 = unat addr div 4096 then v else pt_entry s pt w)"
  proof (cases "level2 s pt (offs1 w) = 0")
    case True
    then have "offs1 w \<noteq> offs1 addr"
      using e by auto
    then show ?thesis
      using True offs_eq_iff [of w addr] by (simp add: pt_entry_def l2)
  next
    case False
    then have w: "is_frame (level2 s pt (offs1 w))"
      using pt by (simp add: pt_inv_def)
    have "word_at (level2 s pt (offs1 w)) (offs2 w) = x \<longleftrightarrow> unat w div 4096 = unat addr div 4096"
      using word_at_inj [OF w e(2), of "offs2 w" "offs2 addr"] x pt False offs_eq_iff [of w addr]
      by (auto simp: pt_inv_def)
    then show ?thesis
      using False by (simp add: pt_entry_def l2 Let_def) (simp add: s'_def)
  qed
qed

section \<open>Page tables as maps\<close>

text \<open>
  The interface the pager uses: look an address up, then read or overwrite the word it is given.
  \<open>inv s k\<close> is the invariant with room for \<open>k\<close> more lookups.
\<close>

fun update_all :: "('a \<Rightarrow> 's \<Rightarrow> ('x \<times> 's) option) \<Rightarrow> ('x \<Rightarrow> 'v \<Rightarrow> 's \<Rightarrow> 's) \<Rightarrow> ('a \<times> 'v) list \<Rightarrow> 's \<Rightarrow> 's option" where
  "update_all lookup store [] s = Some s"
| "update_all lookup store ((a, v) # avs) s = do {
     (x, s) \<leftarrow> lookup a s; update_all lookup store avs (store x v s) }"

text \<open>The value at page \<open>p\<close> after a sequence of updates: the last one to that page wins.\<close>

fun last_update :: "('a \<Rightarrow> nat) \<Rightarrow> ('a \<times> 'v) list \<Rightarrow> nat \<Rightarrow> 'v \<Rightarrow> 'v" where
  "last_update page [] p v = v"
| "last_update page ((a, u) # avs) p v = last_update page avs p (if page a = p then u else v)"

locale page_map =
  fixes inv :: "'s \<Rightarrow> nat \<Rightarrow> bool"
    and lookup :: "'a \<Rightarrow> 's \<Rightarrow> ('x \<times> 's) option"
    and fetch :: "'x \<Rightarrow> 's \<Rightarrow> 'v"
    and store :: "'x \<Rightarrow> 'v \<Rightarrow> 's \<Rightarrow> 's"
    and entry :: "'s \<Rightarrow> 'a \<Rightarrow> 'v"
    and page :: "'a \<Rightarrow> nat"
  assumes lookup_law: "inv s (Suc k) \<Longrightarrow> \<exists>x s'. lookup a s = Some (x, s') \<and> inv s' k \<and>
      fetch x s' = entry s a \<and> (\<forall>w. entry s' w = entry s w) \<and>
      (\<forall>v. inv (store x v s') k \<and> (\<forall>w. entry (store x v s') w = (if page w = page a then v else entry s w)))"
begin

lemma update_all_entries:
  "inv s (length avs + k) \<Longrightarrow> \<exists>s'. update_all lookup store avs s = Some s' \<and> inv s' k \<and>
    (\<forall>w. entry s' w = last_update page avs (page w) (entry s w))"
proof (induction avs arbitrary: s)
  case (Cons av avs)
  obtain a v where av: "av = (a, v)" by (cases av)
  obtain x s1 where x: "lookup a s = Some (x, s1)" "inv (store x v s1) (length avs + k)"
      "\<forall>w. entry (store x v s1) w = (if page w = page a then v else entry s w)"
    using lookup_law [of s "length avs + k" a] Cons.prems by auto
  obtain s' where "update_all lookup store avs (store x v s1) = Some s'" "inv s' k"
      "\<forall>w. entry s' w = last_update page avs (page w) (entry (store x v s1) w)"
    using Cons.IH [OF x(2)] by blast
  with x av show ?case by auto
qed simp

text \<open>Reading after any number of updates.\<close>

lemma update_all_fetch:
  assumes "inv s (Suc (length avs))"
  shows "\<exists>s' y s''. update_all lookup store avs s = Some s' \<and> lookup b s' = Some (y, s'') \<and>
    fetch y s'' = last_update page avs (page b) (entry s b)"
proof -
  obtain s' where s': "update_all lookup store avs s = Some s'" "inv s' (Suc 0)"
      "entry s' b = last_update page avs (page b) (entry s b)"
    using update_all_entries [of s avs "Suc 0"] assms by auto
  with lookup_law [OF s'(2), of b] show ?thesis by auto
qed

end

definition pt_store :: "u32 \<Rightarrow> u32 \<Rightarrow> 'z frames_st_scheme \<Rightarrow> 'z frames_st_scheme" where
  "pt_store x v s = s\<lparr>mem := (mem s)(x := v)\<rparr>"

definition page_no :: "u32 \<Rightarrow> nat" where
  "page_no a = unat a div 4096"

text \<open>
  The table is well formed, \<open>k\<close> frames are free, the frames in use are those of the table and the
  others \<open>A\<close>, and the frames free or in the table are \<open>U\<close>.
\<close>

definition pt_owned :: "u32 \<Rightarrow> u32 set \<Rightarrow> u32 set \<Rightarrow> 'z frames_st_scheme \<Rightarrow> nat \<Rightarrow> bool" where
  "pt_owned pt A U s k \<longleftrightarrow> pt_inv s pt \<and> pt_frames s pt \<inter> A = {} \<and>
     (\<exists>F. frames_inv s F (A \<union> pt_frames s pt) \<and> set F \<union> pt_frames s pt = U \<and> k \<le> length F)"

lemma pt_owned_intro:
  assumes "pt_inv s pt" and "frames_inv s F A" and "pt_frames s pt \<subseteq> A" and "k \<le> length F"
  shows "pt_owned pt (A - pt_frames s pt) (set F \<union> pt_frames s pt) s k"
proof -
  have "A - pt_frames s pt \<union> pt_frames s pt = A"
    using assms(3) by auto
  with assms show ?thesis
    unfolding pt_owned_def by auto
qed

interpretation ptm: page_map "pt_owned pt A U" "pagetableLookup pt" "\<lambda>x s. mem s x" pt_store "\<lambda>s. pt_entry s pt" page_no
proof (unfold_locales, goal_cases)
  case (1 s k a)
  then obtain F where i: "pt_inv s pt" "frames_inv s F (A \<union> pt_frames s pt)" "pt_frames s pt \<inter> A = {}"
      "set F \<union> pt_frames s pt = U" "Suc k \<le> length F"
    by (auto simp: pt_owned_def)
  then have "F \<noteq> [] \<or> level2 s pt (offs1 a) \<noteq> 0" "pt_frames s pt \<subseteq> A \<union> pt_frames s pt"
    by auto
  from pagetableLookup_spec [OF i(1,2) this(2,1)]
  obtain x s' F' A' where r: "pagetableLookup pt a s = Some (x, s')" "points s' pt x a" "pt_inv s' pt"
      "frames_inv s' F' A'" "pt_frames s' pt \<subseteq> A'"
      "F' = F \<and> A' = A \<union> pt_frames s pt \<or> (\<exists>f. F = f # F' \<and> A' = insert f (A \<union> pt_frames s pt))"
      "pt_frames s' pt - pt_frames s pt = A' - (A \<union> pt_frames s pt)" "pt_frames s pt \<subseteq> pt_frames s' pt"
      "\<forall>w. pt_entry s' pt w = pt_entry s pt w"
    by blast
  have k: "k \<le> length F'" "A' = A \<union> pt_frames s' pt"
      "pt_frames s' pt \<inter> A = {}" "set F' \<union> pt_frames s' pt = U"
    using r(5-8) i(2-5) by (auto simp: frames_inv_def)
  note st = pt_store_spec [OF r(3,4,5,2)]
  have "pt_owned pt A U s' k"
    using r k by (auto simp: pt_owned_def)
  moreover have "pt_owned pt A U (pt_store x v s') k" for v
    using st(1-3) [of v] k unfolding pt_owned_def pt_store_def by auto
  moreover have "pt_entry (pt_store x v s') pt w = (if page_no w = page_no a then v else pt_entry s pt w)" for v w
    using st(5) [of v w] r(9) by (simp add: pt_store_def page_no_def)
  ultimately show ?case
    using r points_read [OF r(2)] by (intro exI [of _ x] exI [of _ s']) simp
qed

lemma pagetable_init_spec:
  assumes "frames_inv s (f # F) A"
  shows "\<exists>s'. pagetable_init s = Some (f, s') \<and> pt_inv s' f \<and> pt_frames s' f = {f} \<and>
    frames_inv s' F (insert f A) \<and> (\<forall>w. pt_entry s' f w = 0)"
proof -
  obtain s1 where s1: "frame_alloc FA_PAGETABLE1 s = (f, s1)" "frames_inv s1 F (insert f A)"
    using frame_alloc_pops [OF assms, of FA_PAGETABLE1] by blast
  let ?s = "s1\<lparr>mem := clear_words f 1024 (mem s1)\<rparr>"
  have f: "is_frame f" "f \<noteq> 0"
    using assms by (auto simp: frames_inv_def is_frame_def)
  have l2: "level2 ?s f i = 0" if "i < 1024" for i
    using that by (auto simp: level2_def clear_words_apply)
  have "pagetable_init s = Some (f, ?s)"
    using s1 f by (simp add: pagetable_init_def)
  moreover have "frames_inv ?s F (insert f A)"
    using frames_inv_clear [OF s1(2), of f 1024] by simp
  ultimately show ?thesis
    using f by (auto simp: pt_inv_def pt_frames_def l2 pt_entry_def)
qed

text \<open>
  C8. A page table is a map from pages to words: from any well-formed table, with enough free
  frames for the second-level tables, any sequence of lookups each followed by a store through
  the address returned succeeds, and a lookup afterwards gives the address of a word that holds
  the last value stored for that page, or, if there was none, the entry it had before.
\<close>

theorem page_table_update_lookup:
  assumes "pt_inv s pt" and "frames_inv s F A" and "pt_frames s pt \<subseteq> A" and "length avs < length F"
  shows "\<exists>s' y s''. update_all (pagetableLookup pt) pt_store avs s = Some s' \<and>
    pagetableLookup pt b s' = Some (y, s'') \<and>
    mem s'' y = last_update page_no avs (page_no b) (pt_entry s pt b)"
  using ptm.update_all_fetch [OF pt_owned_intro [OF assms(1-3) Suc_leI [OF assms(4)]]] .

text \<open>A first-level table with no second-level tables, and three free frames.\<close>

definition pt_example :: frames_st where
  "pt_example = frames_none\<lparr>mem := (\<lambda>_. 0)(0x2000 := 0x3000, 0x3000 := 0x4000), firstFree := 0x2000, totalInUse := 1\<rparr>"

lemma pt_example_inv:
  "pt_inv pt_example 0x1000" "frames_inv pt_example [0x2000, 0x3000, 0x4000] {0x1000}" "pt_frames pt_example 0x1000 \<subseteq> {0x1000}"
proof -
  have f: "is_frame 0x1000" "is_frame 0x2000" "is_frame 0x3000"
    by (simp_all add: is_frame_def)
  have "word_at 0x1000 i \<noteq> 0x2000" "word_at 0x1000 i \<noteq> 0x3000" if "i < 1024" for i
    using word_at_frame [OF f(1) _ that] f by simp_all
  then have l2: "level2 pt_example 0x1000 i = 0" if "i < 1024" for i
    using that by (simp add: level2_def pt_example_def)
  show "pt_inv pt_example 0x1000" "pt_frames pt_example 0x1000 \<subseteq> {0x1000}"
    using f by (auto simp: pt_inv_def pt_frames_def l2)
  show "frames_inv pt_example [0x2000, 0x3000, 0x4000] {0x1000}"
    by (simp add: frames_inv_def pt_example_def frames_none_def is_frame_def)
qed

theorem page_table_update_lookup_witness:
  "\<exists>s' y s''. update_all (pagetableLookup 0x1000) pt_store [(0x5000, 7), (0x80000000, 9)] pt_example = Some s' \<and>
    pagetableLookup 0x1000 0x5FFC s' = Some (y, s'') \<and> mem s'' y = 7"
  using page_table_update_lookup [OF pt_example_inv, of "[(0x5000, 7), (0x80000000, 9)]" "0x5FFC"]
  by (simp add: page_no_def del: update_all.simps)

section \<open>Freeing\<close>

lemma level2_frame_free:
  "is_frame pt \<Longrightarrow> is_frame e \<Longrightarrow> e \<noteq> pt \<Longrightarrow> j < 1024 \<Longrightarrow> level2 (frame_free e s) pt j = level2 s pt j"
  using word_at_frame [of pt e j] by (auto simp: level2_def frame_free_def)

lemma free_level2_fold:
  assumes "is_frame pt" and "i + n \<le> 1024"
    and "\<forall>j<1024. level2 s pt j \<noteq> 0 \<longrightarrow> is_frame (level2 s pt j) \<and> level2 s pt j \<noteq> pt"
  shows "free_level2 pt i n s = fold frame_free (filter (\<lambda>e. e \<noteq> 0) (map (level2 s pt) [i..<i + n])) s"
  using assms(2,3)
proof (induction n arbitrary: i s)
  case (Suc n)
  let ?e = "level2 s pt i"
  let ?s = "if ?e \<noteq> 0 then frame_free ?e s else s"
  have l2: "level2 ?s pt j = level2 s pt j" if "j < 1024" for j
    using Suc.prems that level2_frame_free [OF assms(1), of ?e j s] by auto
  have "free_level2 pt (Suc i) n ?s = fold frame_free (filter (\<lambda>e. e \<noteq> 0) (map (level2 ?s pt) [Suc i..<Suc i + n])) ?s"
    using Suc.prems l2 by (intro Suc.IH) simp_all
  moreover have "map (level2 ?s pt) [Suc i..<Suc i + n] = map (level2 s pt) [Suc i..<Suc i + n]"
    using Suc.prems(1) l2 by auto
  moreover have "free_level2 pt i (Suc n) s = free_level2 pt (Suc i) n ?s"
    by (simp add: level2_def)
  ultimately have "free_level2 pt i (Suc n) s =
      fold frame_free (filter (\<lambda>e. e \<noteq> 0) (map (level2 s pt) [Suc i..<Suc i + n])) ?s"
    by (simp only:)
  then show ?case
    by (cases "?e = 0") (simp_all add: upt_conv_Cons del: upt_Suc)
qed simp

lemma fold_frame_free:
  "frames_inv s F A \<Longrightarrow> distinct xs \<Longrightarrow> set xs \<subseteq> A \<Longrightarrow>
   frames_inv (fold frame_free xs s) (rev xs @ F) (A - set xs)"
proof (induction xs arbitrary: s F A)
  case (Cons x xs)
  then have "frames_inv (frame_free x s) (x # F) (A - {x})"
    using frame_free_pushes [of s F A x] by auto
  from Cons.IH [OF this] Cons.prems show ?case
    by (auto simp: Diff_insert2 [symmetric] insert_Diff_if)
qed simp

lemma pagetableFree_spec:
  assumes pt: "pt_inv s pt" and fi: "frames_inv s F A" and sub: "pt_frames s pt \<subseteq> A"
  shows "\<exists>s' F'. pagetableFree pt s = Some s' \<and> frames_inv s' F' (A - pt_frames s pt) \<and>
    set F' = set F \<union> pt_frames s pt"
proof -
  let ?xs = "filter (\<lambda>e. e \<noteq> 0) (map (level2 s pt) [0..<1024])"
  have st: "set ?xs = pt_frames s pt - {pt}"
    using pt by (auto simp: pt_frames_def pt_inv_def)
  have "inj_on (level2 s pt) {i. i < 1024 \<and> level2 s pt i \<noteq> 0}"
    using pt by (auto simp: inj_on_def pt_inv_def)
  then have "distinct ?xs"
    by (auto simp: filter_map distinct_map comp_def elim!: inj_on_subset)
  then have "frames_inv (fold frame_free ?xs s) (rev ?xs @ F) (A - (pt_frames s pt - {pt}))"
    using fold_frame_free [OF fi, of ?xs] st sub by auto
  moreover have "pt \<in> A - (pt_frames s pt - {pt})" "pt \<noteq> 0"
    using sub pt by (auto simp: pt_frames_def pt_inv_def is_frame_def)
  ultimately have "frames_inv (frame_free pt (fold frame_free ?xs s)) (pt # rev ?xs @ F) (A - (pt_frames s pt - {pt}) - {pt})"
    using frame_free_pushes by blast
  moreover have "A - (pt_frames s pt - {pt}) - {pt} = A - pt_frames s pt" "pt \<in> pt_frames s pt"
    by (auto simp: pt_frames_def)
  moreover have "pagetableFree pt s = Some (frame_free pt (fold frame_free ?xs s))"
    using free_level2_fold [of pt 0 1024 s] pt \<open>pt \<noteq> 0\<close> by (simp add: pagetableFree_def pt_inv_def)
  moreover have "set (pt # rev ?xs @ F) = set F \<union> pt_frames s pt"
    using calculation(3) st by auto
  ultimately show ?thesis
    by auto
qed

text \<open>
  C11. The life of a page table is balanced: a table created on some free frame and then used for
  any sequence of lookups and stores gives back, when \<^verbatim>\<open>pagetableFree\<close> runs, every frame it took,
  first-level and second-level, and no other; the frames in use are those before its creation.
\<close>

theorem page_table_frames_returned:
  assumes "frames_inv s F A" and "length avs < length F"
  shows "\<exists>pt s1 s2 s3 F3. pagetable_init s = Some (pt, s1) \<and>
    update_all (pagetableLookup pt) pt_store avs s1 = Some s2 \<and> pagetableFree pt s2 = Some s3 \<and>
    frames_inv s3 F3 A \<and> set F3 = set F"
proof -
  obtain pt F1 where F: "F = pt # F1"
    using assms(2) by (cases F) auto
  obtain s1 where s1: "pagetable_init s = Some (pt, s1)" "pt_inv s1 pt" "pt_frames s1 pt = {pt}"
      "frames_inv s1 F1 (insert pt A)"
    using pagetable_init_spec [OF assms(1) [unfolded F]] by blast
  have "pt \<notin> A"
    using assms(1) F by (auto simp: frames_inv_def)
  then have "pt_owned pt A (set F) s1 (length avs + 0)"
    using s1 F assms(2) by (auto simp: pt_owned_def)
  then obtain s2 where s2: "update_all (pagetableLookup pt) pt_store avs s1 = Some s2" "pt_owned pt A (set F) s2 0"
    using ptm.update_all_entries by blast
  then obtain F2 where i: "pt_inv s2 pt" "frames_inv s2 F2 (A \<union> pt_frames s2 pt)" "pt_frames s2 pt \<inter> A = {}"
      "set F2 \<union> pt_frames s2 pt = set F"
    by (auto simp: pt_owned_def)
  moreover have "A \<union> pt_frames s2 pt - pt_frames s2 pt = A"
    using i(3) by auto
  ultimately show ?thesis
    using pagetableFree_spec [OF i(1,2)] s1(1) s2(1) by auto
qed

theorem page_table_frames_returned_witness:
  "\<exists>pt s1 s2 s3 F3. pagetable_init pt_example = Some (pt, s1) \<and>
    update_all (pagetableLookup pt) pt_store [(0x5000, 7), (0x80000000, 9)] s1 = Some s2 \<and>
    pagetableFree pt s2 = Some s3 \<and> frames_inv s3 F3 {0x1000} \<and> set F3 = {0x2000, 0x3000, 0x4000}"
  using page_table_frames_returned [OF pt_example_inv(2), of "[(0x5000, 7), (0x80000000, 9)]"]
  by (simp del: update_all.simps)

end
