(* ===== verification/Lists.thy ===== *)
theory Lists
  imports FreeList
begin

text \<open>
  The linked lists of \<^verbatim>\<open>src/sos/list.c\<close>, on an explicit heap of nodes: addresses are words, 0 is
  the null pointer, following an address that holds no node fails, and \<^verbatim>\<open>free\<close> takes the node
  out of the heap, so that a use after free fails too. A list that grows is given the address
  \<^verbatim>\<open>malloc\<close> returns. The abstraction reads the list of contents off the heap, and every
  operation is shown to be the one on lists; the other components use the list operations.
\<close>

section \<open>Nodes and lists\<close>

record 'v Node =
  contents :: 'v
  nnext :: u32

record List =
  list_head :: u32
  list_last :: u32

type_synonym 'v node_heap = "u32 \<rightharpoonup> 'v Node"
type_synonym 'v lists = "'v node_heap \<times> List"

definition nodeAlloc :: "u32 \<Rightarrow> 'v \<Rightarrow> 'v node_heap \<Rightarrow> 'v node_heap option" where
  "nodeAlloc a c h = do {
     c_assert (a \<noteq> 0);
     Some (h(a \<mapsto> \<lparr>contents = c, nnext = 0\<rparr>)) }"

definition list_empty :: List where
  "list_empty = \<lparr>list_head = 0, list_last = 0\<rparr>"

definition list_null :: "'v lists \<Rightarrow> bool option" where
  "list_null s = (case s of (h, l) \<Rightarrow>
     if list_head l = 0 then do { c_assert (list_last l = 0); Some True } else Some False)"

definition list_peek :: "'v lists \<Rightarrow> 'v option" where
  "list_peek s = (case s of (h, l) \<Rightarrow> do { n \<leftarrow> h (list_head l); Some (contents n) })"

definition list_shift :: "u32 \<Rightarrow> 'v \<Rightarrow> 'v lists \<Rightarrow> 'v lists option" where
  "list_shift a c s = (case s of (h, l) \<Rightarrow> do {
     h \<leftarrow> nodeAlloc a c h;
     n \<leftarrow> h a;
     let h = h(a \<mapsto> n\<lparr>nnext := list_head l\<rparr>);
     let l = l\<lparr>list_head := a\<rparr>;
     Some (h, if list_last l = 0 then l\<lparr>list_last := list_head l\<rparr> else l) })"

definition list_unshift :: "'v lists \<Rightarrow> ('v \<times> 'v lists) option" where
  "list_unshift s = (case s of (h, l) \<Rightarrow> do {
     c_assert (list_head l \<noteq> 0);
     let tmp = list_head l;
     n \<leftarrow> h tmp;
     let l = l\<lparr>list_head := nnext n\<rparr>;
     let l = (if list_head l = 0 then l\<lparr>list_last := 0\<rparr> else l);
     Some (contents n, h(tmp := None), l) })"

definition list_push :: "u32 \<Rightarrow> 'v \<Rightarrow> 'v lists \<Rightarrow> 'v lists option" where
  "list_push a c s = (case s of (h, l) \<Rightarrow> do {
     h \<leftarrow> nodeAlloc a c h;
     if list_head l = 0 then do {
       c_assert (list_last l = 0);
       Some (h, l\<lparr>list_last := a, list_head := a\<rparr>) }
     else do {
       n \<leftarrow> h (list_last l);
       c_assert (nnext n = 0);
       Some (h(list_last l \<mapsto> n\<lparr>nnext := a\<rparr>), l\<lparr>list_last := a\<rparr>) } })"

partial_function (option) pop_loop :: "'v node_heap \<Rightarrow> u32 \<Rightarrow> u32 \<Rightarrow> u32 \<Rightarrow> u32 option" where
  "pop_loop h end tmp prev =
     (if tmp = end then Some prev
      else do { n \<leftarrow> h tmp; pop_loop h end (nnext n) tmp })"

definition list_pop :: "'v lists \<Rightarrow> ('v \<times> 'v lists) option" where
  "list_pop s = (case s of (h, l) \<Rightarrow> do {
     c_assert (list_last l \<noteq> 0);
     n \<leftarrow> h (list_last l);
     prev \<leftarrow> pop_loop h (list_last l) (list_head l) 0;
     if prev = 0
     then Some (contents n, h(list_head l := None), \<lparr>list_head = 0, list_last = 0\<rparr>)
     else do {
       p \<leftarrow> h prev;
       Some (contents n, h(prev \<mapsto> p\<lparr>nnext := 0\<rparr>, list_last l := None), l\<lparr>list_last := prev\<rparr>) } })"

partial_function (option) find_loop :: "('v \<Rightarrow> bool) \<Rightarrow> 'v node_heap \<Rightarrow> u32 \<Rightarrow> 'v option option" where
  "find_loop f h cur =
     (if cur = 0 then Some None
      else do { n \<leftarrow> h cur; if f (contents n) then Some (Some (contents n)) else find_loop f h (nnext n) })"

text \<open>The result \<open>Some None\<close> is the null pointer.\<close>

definition list_find :: "('v \<Rightarrow> bool) \<Rightarrow> 'v lists \<Rightarrow> 'v option option" where
  "list_find f s = (case s of (h, l) \<Rightarrow> find_loop f h (list_head l))"

text \<open>
  \<^verbatim>\<open>list_delete_n\<close>: the callback changes the state \<open>d\<close> its data pointer reaches and may fail; the
  loop carries the head of the list, which it changes, and the last node kept. The count \<open>n\<close> of
  nodes to delete, negative for all of them, is an \<^verbatim>\<open>int\<close> that goes down by one with each; it could only
  wrap around after 2^31 deletions, more than there are nodes in a 32-bit memory, so it is an integer here.
\<close>

partial_function (option) delete_loop :: "('v \<Rightarrow> 's \<Rightarrow> (bool \<times> 's) option) \<Rightarrow> 'v node_heap \<Rightarrow>
    u32 \<Rightarrow> u32 \<Rightarrow> u32 \<Rightarrow> int \<Rightarrow> 's \<Rightarrow> ('v node_heap \<times> u32 \<times> u32 \<times> 's) option" where
  "delete_loop f h hd0 prev cur n d =
     (if cur = 0 then Some (h, hd0, prev, d)
      else do {
        node \<leftarrow> h cur;
        (del, d) \<leftarrow> (if n \<noteq> 0 then f (contents node) d else Some (False, d));
        if del then do {
          (h, hd0) \<leftarrow> (if prev = 0 then Some (h, nnext node)
             else do { p \<leftarrow> h prev; Some (h(prev \<mapsto> p\<lparr>nnext := nnext node\<rparr>), hd0) });
          delete_loop f (h(cur := None)) hd0 prev (nnext node) (n - 1) d }
        else delete_loop f h hd0 cur (nnext node) n d })"

definition list_delete_n :: "('v \<Rightarrow> 's \<Rightarrow> (bool \<times> 's) option) \<Rightarrow> int \<Rightarrow> 'v lists \<Rightarrow> 's \<Rightarrow>
    ('v lists \<times> 's) option" where
  "list_delete_n f n s d = (case s of (h, l) \<Rightarrow> do {
     (h, hd0, prev, d) \<leftarrow> delete_loop f h (list_head l) 0 (list_head l) n d;
     let l = l\<lparr>list_head := hd0\<rparr>;
     if hd0 = 0 then Some ((h, l\<lparr>list_last := 0\<rparr>), d)
     else do {
       p \<leftarrow> h prev;
       Some ((h, if nnext p = 0 then l\<lparr>list_last := prev\<rparr> else l), d) } })"

definition list_delete :: "('v \<Rightarrow> 's \<Rightarrow> (bool \<times> 's) option) \<Rightarrow> 'v lists \<Rightarrow> 's \<Rightarrow> ('v lists \<times> 's) option" where
  "list_delete f = list_delete_n f (-1)"

definition list_delete_first :: "('v \<Rightarrow> 's \<Rightarrow> (bool \<times> 's) option) \<Rightarrow> 'v lists \<Rightarrow> 's \<Rightarrow>
    ('v lists \<times> 's) option" where
  "list_delete_first f = list_delete_n f 1"

definition deleteWithCount :: "'v \<Rightarrow> int \<Rightarrow> (bool \<times> int) option" where
  "deleteWithCount c count = Some (True, count + 1)"

definition list_destroy :: "'v lists \<Rightarrow> (int \<times> 'v node_heap) option" where
  "list_destroy s = do {
     ((h, l), count) \<leftarrow> list_delete deleteWithCount s 0;
     Some (count, h) }"

partial_function (option) reduce_loop :: "('v \<Rightarrow> 'd \<Rightarrow> 'd option) \<Rightarrow> 'v node_heap \<Rightarrow> u32 \<Rightarrow> 'd \<Rightarrow> 'd option" where
  "reduce_loop f h cur d =
     (if cur = 0 then Some d
      else do { n \<leftarrow> h cur; d \<leftarrow> f (contents n) d; reduce_loop f h (nnext n) d })"

definition list_reduce :: "('v \<Rightarrow> 'd \<Rightarrow> 'd option) \<Rightarrow> 'v lists \<Rightarrow> 'd \<Rightarrow> 'd option" where
  "list_reduce f s d = (case s of (h, l) \<Rightarrow> reduce_loop f h (list_head l) d)"

definition list_iterate :: "('v \<Rightarrow> 's \<Rightarrow> 's option) \<Rightarrow> 'v lists \<Rightarrow> 's \<Rightarrow> 's option" where
  "list_iterate f s d = (case s of (h, l) \<Rightarrow> reduce_loop f h (list_head l) d)"

section \<open>Abstraction\<close>

definition nx :: "'v node_heap \<Rightarrow> u32 \<Rightarrow> u32" where
  "nx h a = nnext (the (h a))"

definition ct :: "'v node_heap \<Rightarrow> u32 \<Rightarrow> 'v" where
  "ct h a = contents (the (h a))"

text \<open>\<open>is_list h l as xs\<close>: the list at \<open>l\<close> has its nodes at \<open>as\<close> and the contents \<open>xs\<close>.\<close>

definition is_list :: "'v node_heap \<Rightarrow> List \<Rightarrow> u32 list \<Rightarrow> 'v list \<Rightarrow> bool" where
  "is_list h l as xs \<longleftrightarrow> chain (nx h) (list_head l) as 0 \<and> set as \<subseteq> dom h \<and> xs = map (ct h) as \<and>
     list_last l = (if as = [] then 0 else last as)"

lemma nx_upd [simp]: "nx (h(a \<mapsto> n)) = (nx h)(a := nnext n)"
  by (auto simp: nx_def)

lemma chain_nx_cong: "\<forall>a\<in>set as. h' a = h a \<Longrightarrow> chain (nx h') x as y = chain (nx h) x as y"
  by (rule chain_cong) (simp add: nx_def)

lemma chain_nonzero: "chain nxt x as y \<Longrightarrow> y \<notin> set as"
  by (induction as arbitrary: x) auto

lemma map_ct_cong: "\<forall>a\<in>set as. h' a = h a \<Longrightarrow> map (ct h') as = map (ct h) as"
  by (simp add: ct_def)

lemma heap_node: "h a = Some n \<Longrightarrow> nx h a = nnext n \<and> ct h a = contents n"
  by (simp add: nx_def ct_def)

lemma is_list_distinct: "is_list h l as xs \<Longrightarrow> distinct as \<and> 0 \<notin> set as"
  by (auto simp: is_list_def dest: chain_distinct chain_nonzero)

lemma is_list_null: "is_list h l as xs \<Longrightarrow> list_null (h, l) = Some (xs = [])"
  by (cases as) (auto simp: is_list_def list_null_def)

lemma is_list_empty: "is_list h list_empty [] []"
  by (simp add: is_list_def list_empty_def)

lemma is_list_peek: "is_list h l as (x # xs) \<Longrightarrow> list_peek (h, l) = Some x"
  by (cases as) (auto simp: is_list_def list_peek_def ct_def)

text \<open>
  The operations that change a list. Each also leaves alone every node that is not one of its own,
  so lists with different nodes do not disturb each other.
\<close>

lemma list_shift_spec:
  assumes "is_list h l as xs" and "a \<noteq> 0" and "h a = None"
  shows "\<exists>h' l'. list_shift a c (h, l) = Some (h', l') \<and> is_list h' l' (a # as) (c # xs) \<and>
    dom h' = insert a (dom h) \<and> (\<forall>b. b \<noteq> a \<longrightarrow> h' b = h b)"
proof -
  let ?h = "h(a \<mapsto> \<lparr>contents = c, nnext = list_head l\<rparr>)"
  let ?l = "l\<lparr>list_head := a, list_last := last (a # as)\<rparr>"
  have a: "a \<notin> set as" and ch: "chain (nx h) (list_head l) as 0"
    using assms by (auto simp: is_list_def)
  have "as \<noteq> [] \<Longrightarrow> last as \<noteq> 0"
    using is_list_distinct [OF assms(1)] last_in_set by metis
  then have r: "list_shift a c (h, l) = Some (?h, if as = [] then ?l else l\<lparr>list_head := a\<rparr>)"
    using assms by (auto simp: list_shift_def nodeAlloc_def Let_def is_list_def)
  have "chain (nx ?h) (list_head l) as 0"
    using ch a by (subst chain_nx_cong [of _ _ h]) auto
  moreover have "map (ct ?h) as = xs"
    using assms(1) a map_ct_cong [of as ?h h] by (auto simp: is_list_def)
  ultimately have "is_list ?h (if as = [] then ?l else l\<lparr>list_head := a\<rparr>) (a # as) (c # xs)"
    using assms by (auto simp: is_list_def ct_def nx_def)
  with r show ?thesis by auto
qed

lemma list_unshift_spec:
  assumes "is_list h l as (x # xs)"
  shows "\<exists>a as' h' l'. as = a # as' \<and> list_unshift (h, l) = Some (x, h', l') \<and> is_list h' l' as' xs \<and>
    h' = h(a := None)"
proof -
  obtain a as' where as: "as = a # as'"
    using assms by (cases as) (auto simp: is_list_def)
  obtain n where n: "h a = Some n" "contents n = x"
    using assms as by (auto simp: is_list_def ct_def)
  have "a \<notin> set as'" "0 \<notin> set as"
    using is_list_distinct [OF assms] as by auto
  moreover have ch: "chain (nx h) (nnext n) as' 0" "list_head l = a" "a \<noteq> 0"
    using assms as n by (auto simp: is_list_def nx_def)
  moreover have "chain (nx (h(a := None))) (nnext n) as' 0"
    using ch \<open>a \<notin> set as'\<close> by (subst chain_nx_cong [of _ _ h]) auto
  moreover have "as' = [] \<longleftrightarrow> nnext n = 0"
    using ch(1) by (cases as') auto
  ultimately show ?thesis
    using assms as n
    by (auto simp: list_unshift_def Let_def is_list_def ct_def)
qed

lemma list_push_spec:
  assumes "is_list h l as xs" and "a \<noteq> 0" and "h a = None"
  shows "\<exists>h' l'. list_push a c (h, l) = Some (h', l') \<and> is_list h' l' (as @ [a]) (xs @ [c]) \<and>
    dom h' = insert a (dom h) \<and> (\<forall>b. b \<notin> insert a (set as) \<longrightarrow> h' b = h b)"
proof (cases "as = []")
  case True
  with assms show ?thesis
    by (auto simp: list_push_def nodeAlloc_def is_list_def ct_def)
next
  case False
  let ?z = "last as"
  have a: "a \<notin> set as" and z: "?z \<in> set as"
    using assms False by (auto simp: is_list_def)
  then have za: "?z \<noteq> a" by metis
  obtain n where n: "h ?z = Some n"
    using assms z by (auto simp: is_list_def)
  have ch: "chain (nx h) (list_head l) as 0"
    using assms by (simp add: is_list_def)
  have "chain (nx h) ?z [?z] 0"
    using chain_suffix [of "nx h" "list_head l" "butlast as" ?z "[]" 0] ch False by simp
  then have nz: "nnext n = 0"
    using n by (simp add: nx_def)
  have "list_head l \<noteq> 0"
    using ch False by (cases as) auto
  then have r: "list_push a c (h, l) = Some (h(a \<mapsto> \<lparr>contents = c, nnext = 0\<rparr>, ?z \<mapsto> n\<lparr>nnext := a\<rparr>),
      l\<lparr>list_last := a\<rparr>)"
    using assms False n nz za by (auto simp: list_push_def nodeAlloc_def is_list_def)
  have "chain ((nx h)(?z := a, a := 0)) (list_head l) (as @ [a]) 0"
    by (rule chain_snoc) (use ch False a assms in auto)
  moreover have "(nx h)(?z := a, a := 0) = (nx h)(a := 0, ?z := a)"
    using za by (simp add: fun_upd_twist)
  moreover have "map (ct (h(a \<mapsto> \<lparr>contents = c, nnext = 0\<rparr>, ?z \<mapsto> n\<lparr>nnext := a\<rparr>))) (as @ [a]) = xs @ [c]"
    using assms a n za by (auto simp: is_list_def ct_def)
  ultimately show ?thesis
    using r assms z n by (auto simp: is_list_def simp del: fun_upd_apply) (auto simp: domIff)
qed

lemma pop_loop_run:
  "chain (nx h) x (bs @ [z]) 0 \<Longrightarrow> set bs \<subseteq> dom h \<Longrightarrow>
   pop_loop h z x prev = Some (if bs = [] then prev else last bs)"
proof (induction bs arbitrary: x prev)
  case Nil
  then show ?case by (subst pop_loop.simps) simp
next
  case (Cons b bs)
  have "distinct (b # bs @ [z])"
    using chain_distinct [OF Cons.prems(1)] by simp
  moreover obtain n where "h b = Some n"
    using Cons.prems(2) by auto
  ultimately show ?case
    using Cons.IH [of "nx h b" b] Cons.prems
    by (subst pop_loop.simps) (auto simp: heap_node)
qed

lemma list_pop_spec:
  assumes "is_list h l as (xs @ [x])"
  shows "\<exists>bs z h' l'. as = bs @ [z] \<and> list_pop (h, l) = Some (x, h', l') \<and> is_list h' l' bs xs \<and>
    dom h' = dom h - {z} \<and> (\<forall>b. b \<notin> set as \<longrightarrow> h' b = h b)"
proof -
  obtain bs z where as: "as = bs @ [z]"
    using assms by (cases as rule: rev_cases) (auto simp: is_list_def)
  have d: "distinct as" "0 \<notin> set as"
    using is_list_distinct [OF assms] by auto
  have i: "chain (nx h) (list_head l) (bs @ [z]) 0" "set bs \<subseteq> dom h" "list_last l = z" "z \<noteq> 0"
      "xs = map (ct h) bs"
    using assms as d by (auto simp: is_list_def)
  obtain n where n: "h z = Some n" "contents n = x"
    using assms as by (auto simp: is_list_def ct_def)
  note lp = pop_loop_run [OF i(1,2), of 0]
  show ?thesis
  proof (cases "bs = []")
    case True
    then show ?thesis
      using i n lp as by (auto simp: list_pop_def is_list_def)
  next
    case False
    let ?p = "last bs"
    obtain p where p: "h ?p = Some p"
      using False i(2) by (metis domD last_in_set subsetD)
    have pz: "?p \<noteq> 0" "?p \<noteq> z" "z \<notin> set bs"
      using False d as by (auto dest: last_in_set)
    let ?h = "h(?p \<mapsto> p\<lparr>nnext := 0\<rparr>, z := None)"
    have r: "list_pop (h, l) = Some (x, ?h, l\<lparr>list_last := ?p\<rparr>)"
      using i n lp p pz False by (simp add: list_pop_def)
    have "chain (nx h) z [z] 0"
      using chain_suffix [of "nx h" "list_head l" bs z "[]" 0] i(1) by simp
    then have "chain ((nx h)(?p := 0)) (list_head l) bs 0"
      using chain_unlink [OF i(1) False] by simp
    then have "chain (nx ?h) (list_head l) bs 0"
      using pz by (subst chain_nx_cong [of _ _ "h(?p \<mapsto> p\<lparr>nnext := 0\<rparr>)"]) auto
    moreover have "map (ct ?h) bs = xs"
      using i(5) p pz by (auto simp: ct_def)
    ultimately have "is_list ?h (l\<lparr>list_last := ?p\<rparr>) bs xs"
      using False i pz by (auto simp: is_list_def)
    with r as pz p last_in_set [OF False] show ?thesis by auto
  qed
qed

lemma find_loop_run:
  "chain (nx h) x as 0 \<Longrightarrow> set as \<subseteq> dom h \<Longrightarrow> find_loop f h x = Some (find f (map (ct h) as))"
proof (induction as arbitrary: x)
  case Nil
  then show ?case by (subst find_loop.simps) simp
next
  case (Cons a as)
  then obtain n where "h a = Some n" by auto
  with Cons show ?case
    by (subst find_loop.simps) (auto simp: heap_node)
qed

lemma list_find_spec: "is_list h l as xs \<Longrightarrow> list_find f (h, l) = Some (find f xs)"
  by (simp add: list_find_def is_list_def find_loop_run)

text \<open>A fold over a list with a function that can fail.\<close>

fun fold_opt :: "('v \<Rightarrow> 's \<Rightarrow> 's option) \<Rightarrow> 'v list \<Rightarrow> 's \<Rightarrow> 's option" where
  "fold_opt f [] s = Some s"
| "fold_opt f (x # xs) s = do { s \<leftarrow> f x s; fold_opt f xs s }"

lemma fold_opt_append: "fold_opt f (xs @ ys) s = Option.bind (fold_opt f xs s) (fold_opt f ys)"
  by (induction xs arbitrary: s) (auto split: bind_splits)

lemma reduce_loop_run:
  "chain (nx h) x as 0 \<Longrightarrow> set as \<subseteq> dom h \<Longrightarrow> reduce_loop f h x d = fold_opt f (map (ct h) as) d"
proof (induction as arbitrary: x d)
  case Nil
  then show ?case by (subst reduce_loop.simps) simp
next
  case (Cons a as)
  then obtain n where "h a = Some n" by auto
  with Cons show ?case
    by (subst reduce_loop.simps) (cases "f (contents n) d"; auto simp: heap_node)
qed

lemma list_reduce_spec: "is_list h l as xs \<Longrightarrow> list_reduce f (h, l) d = fold_opt f xs d"
  by (simp add: list_reduce_def is_list_def reduce_loop_run)

lemma list_iterate_spec: "is_list h l as xs \<Longrightarrow> list_iterate f (h, l) d = fold_opt f xs d"
  by (simp add: list_iterate_def is_list_def reduce_loop_run)

section \<open>Deletion\<close>

text \<open>Deleting from a list the first \<open>n\<close> elements the callback selects (all, for a negative \<open>n\<close>).\<close>

fun delete_n :: "('v \<Rightarrow> 's \<Rightarrow> (bool \<times> 's) option) \<Rightarrow> int \<Rightarrow> 'v list \<Rightarrow> 's \<Rightarrow> ('v list \<times> 's) option" where
  "delete_n f n [] d = Some ([], d)"
| "delete_n f n (x # xs) d = do {
     (del, d) \<leftarrow> (if n \<noteq> 0 then f x d else Some (False, d));
     if del then delete_n f (n - 1) xs d
     else do { (ys, d) \<leftarrow> delete_n f n xs d; Some (x # ys, d) } }"

lemma chain_nx_delete:
  assumes "chain (nx h) x (ks @ c # cs) 0" and "set (ks @ c # cs) \<subseteq> dom h" and "ks \<noteq> []" and "h (last ks) = Some p"
  shows "chain (nx (h(last ks \<mapsto> p\<lparr>nnext := nx h c\<rparr>, c := None))) x (ks @ cs) 0"
proof -
  have "c \<notin> set (ks @ cs)"
    using chain_distinct [OF assms(1)] by auto
  then show ?thesis
    using chain_unlink [OF assms(1,3)]
    by (subst chain_nx_cong [of _ _ "h(last ks \<mapsto> p\<lparr>nnext := nx h c\<rparr>)"]) auto
qed

text \<open>
  The state of the deletion loop: \<open>ks\<close> are the nodes kept so far and \<open>cs\<close> those still to visit.
\<close>

definition delete_inv :: "'v node_heap \<Rightarrow> u32 \<Rightarrow> u32 \<Rightarrow> u32 \<Rightarrow> u32 list \<Rightarrow> u32 list \<Rightarrow> bool" where
  "delete_inv h hd0 prev cur ks cs \<longleftrightarrow> chain (nx h) hd0 (ks @ cs) 0 \<and> set (ks @ cs) \<subseteq> dom h \<and>
     prev = (if ks = [] then 0 else last ks) \<and> cur = (if cs = [] then 0 else List.hd cs)"

lemma delete_inv_keep:
  assumes "delete_inv h hd0 prev cur ks (c # cs)"
  shows "delete_inv h hd0 cur (nx h c) (ks @ [c]) cs"
proof -
  have "chain (nx h) c (c # cs) 0"
    using assms chain_suffix [of "nx h" hd0 ks c cs 0] by (simp add: delete_inv_def)
  then have "nx h c = (if cs = [] then 0 else List.hd cs)"
    by (cases cs) auto
  with assms show ?thesis
    by (simp add: delete_inv_def)
qed

lemma delete_inv_drop:
  assumes i: "delete_inv h hd0 prev cur ks (c # cs)"
  shows "\<exists>h' hd1. (if prev = 0 then Some (h, nx h c)
       else do { p \<leftarrow> h prev; Some (h(prev \<mapsto> p\<lparr>nnext := nx h c\<rparr>), hd0) }) = Some (h', hd1) \<and>
     delete_inv (h'(c := None)) hd1 prev (nx h c) ks cs \<and>
     (\<forall>a. a \<noteq> c \<longrightarrow> ct (h'(c := None)) a = ct h a) \<and> dom (h'(c := None)) = dom h - {c} \<and>
     (\<forall>a. a \<notin> set (ks @ c # cs) \<longrightarrow> h' a = h a)"
proof -
  have ch: "chain (nx h) hd0 (ks @ c # cs) 0" and dm: "set (ks @ c # cs) \<subseteq> dom h"
    using i by (auto simp: delete_inv_def)
  have d: "distinct (ks @ c # cs)" and z: "0 \<notin> set (ks @ c # cs)"
    using chain_distinct [OF ch] chain_nonzero [OF ch] by auto
  have "chain (nx h) c (c # cs) 0"
    using ch chain_suffix [of "nx h" hd0 ks c cs 0] by simp
  then have cs: "chain (nx h) (nx h c) cs 0" "nx h c = (if cs = [] then 0 else List.hd cs)"
    by (auto, cases cs, auto)
  show ?thesis
  proof (cases "ks = []")
    case True
    have "chain (nx (h(c := None))) (nx h c) cs 0"
      using cs d by (subst chain_nx_cong [of _ _ h]) auto
    then show ?thesis
      using True i cs d dm by (auto simp: delete_inv_def ct_def)
  next
    case False
    then have pr: "prev = last ks" "prev \<in> set ks"
      using i by (auto simp: delete_inv_def)
    then have p0: "prev \<noteq> 0"
      using z by (metis UnI1 set_append)
    obtain p where p: "h prev = Some p"
      using pr dm by auto
    have "chain (nx (h(last ks \<mapsto> p\<lparr>nnext := nx h c\<rparr>, c := None))) hd0 (ks @ cs) 0"
      using chain_nx_delete [OF ch dm False] p pr by simp
    moreover have "prev \<noteq> c"
      using pr d by auto
    ultimately show ?thesis
      using False i cs d dm p pr p0
      by (intro exI [of _ "h(prev \<mapsto> p\<lparr>nnext := nx h c\<rparr>)"] exI [of _ hd0])
        (auto simp: delete_inv_def ct_def simp del: fun_upd_apply, auto)
  qed
qed

definition delete_post :: "'v node_heap \<Rightarrow> u32 list \<Rightarrow> u32 list \<Rightarrow> 'v list \<Rightarrow> 's \<Rightarrow>
    ('v node_heap \<times> u32 \<times> u32 \<times> 's) option \<Rightarrow> bool" where
  "delete_post h ks cs ys d r \<longleftrightarrow> (\<exists>h' hd1 prev ks'. r = Some (h', hd1, prev, d) \<and>
     delete_inv h' hd1 prev 0 (ks @ ks') [] \<and> map (ct h') (ks @ ks') = map (ct h) ks @ ys \<and>
     set ks' \<subseteq> set cs \<and> dom h' = dom h - (set cs - set ks') \<and>
     (\<forall>a. a \<notin> set (ks @ cs) \<longrightarrow> h' a = h a))"

lemma delete_post_keep:
  assumes "delete_post h (ks @ [c]) cs ys d r" and "c \<notin> set cs"
  shows "delete_post h ks (c # cs) (ct h c # ys) d r"
proof -
  obtain h' hd1 prev ks' where "r = Some (h', hd1, prev, d)"
      "delete_inv h' hd1 prev 0 (ks @ c # ks') []"
      "map (ct h') (ks @ c # ks') = map (ct h) ks @ ct h c # ys"
      "set ks' \<subseteq> set cs" "dom h' = dom h - (set cs - set ks')"
      "\<forall>a. a \<notin> set (ks @ c # cs) \<longrightarrow> h' a = h a"
    using assms(1) unfolding delete_post_def by auto
  moreover from this(4,5) assms(2) have "dom h' = dom h - (set (c # cs) - set (c # ks'))"
    by auto
  moreover have "set (c # ks') \<subseteq> set (c # cs)"
    using calculation(4) by auto
  ultimately show ?thesis
    unfolding delete_post_def by blast
qed

lemma delete_post_drop:
  assumes "delete_post h1 ks cs ys d r" and "dom h1 = dom h - {c}" and "map (ct h1) ks = map (ct h) ks"
    and "\<forall>a. a \<notin> set (ks @ c # cs) \<longrightarrow> h1 a = h a" and "c \<notin> set cs"
  shows "delete_post h ks (c # cs) ys d r"
proof -
  obtain h' hd1 prev ks' where "r = Some (h', hd1, prev, d)"
      "delete_inv h' hd1 prev 0 (ks @ ks') []"
      "map (ct h') (ks @ ks') = map (ct h1) ks @ ys"
      "set ks' \<subseteq> set cs" "dom h' = dom h1 - (set cs - set ks')"
      "\<forall>a. a \<notin> set (ks @ cs) \<longrightarrow> h' a = h1 a"
    using assms(1) unfolding delete_post_def by auto
  moreover from this(4,5) assms(2,5) have "dom h' = dom h - (set (c # cs) - set ks')"
    by auto
  moreover have "\<forall>a. a \<notin> set (ks @ c # cs) \<longrightarrow> h' a = h a"
    using calculation(6) assms(4) by auto
  moreover have "set ks' \<subseteq> set (c # cs)"
    using calculation(4) by auto
  ultimately show ?thesis
    using assms(3) unfolding delete_post_def
    by (intro exI [of _ h'] exI [of _ hd1] exI [of _ prev] exI [of _ ks']) simp
qed

lemma delete_loop_run:
  assumes "delete_inv h hd0 prev cur ks cs"
  shows "case delete_n f n (map (ct h) cs) d of
      None \<Rightarrow> delete_loop f h hd0 prev cur n d = None
    | Some (ys, d') \<Rightarrow> delete_post h ks cs ys d' (delete_loop f h hd0 prev cur n d)"
  using assms
proof (induction cs arbitrary: h hd0 prev cur ks n d)
  case Nil
  then have "delete_loop f h hd0 prev cur n d = Some (h, hd0, prev, d)"
    by (subst delete_loop.simps) (simp add: delete_inv_def)
  moreover have "delete_inv h hd0 prev 0 (ks @ []) []"
    using Nil by (simp add: delete_inv_def)
  ultimately have "delete_post h ks [] [] d (delete_loop f h hd0 prev cur n d)"
    unfolding delete_post_def
    by (intro exI [of _ h] exI [of _ hd0] exI [of _ prev] exI [of _ "[]"]) simp
  then show ?case by simp
next
  case (Cons c cs)
  have c: "cur = c" "c \<noteq> 0" "c \<in> dom h" "c \<notin> set ks" "c \<notin> set cs"
    using Cons.prems chain_distinct [of "nx h" hd0 "ks @ c # cs" 0] chain_nonzero [of "nx h" hd0 "ks @ c # cs" 0]
    by (auto simp: delete_inv_def)
  then obtain node where node: "h c = Some node" "contents node = ct h c" "nnext node = nx h c"
    by (auto simp: ct_def nx_def)
  let ?q = "if n \<noteq> 0 then f (ct h c) d else Some (False, d)"
  show ?case
  proof (cases ?q)
    case None
    then show ?thesis
      using c node by (subst delete_loop.simps) (simp split: if_splits)
  next
    case (Some dd)
    obtain del d1 where dd: "dd = (del, d1)" by (cases dd)
    show ?thesis
    proof (cases del)
      case False
      have eq: "delete_loop f h hd0 prev cur n d = delete_loop f h hd0 cur (nx h c) n d1"
        using Some dd False c node by (subst delete_loop.simps) (simp split: if_splits)
      have dn: "delete_n f n (map (ct h) (c # cs)) d =
          map_option (map_prod (Cons (ct h c)) id) (delete_n f n (map (ct h) cs) d1)"
        using Some dd False by (cases "delete_n f n (map (ct h) cs) d1") auto
      show ?thesis
        using Cons.IH [OF delete_inv_keep [OF Cons.prems], of n d1] delete_post_keep [OF _ c(5)]
        unfolding eq dn by (cases "delete_n f n (map (ct h) cs) d1") auto
    next
      case True
      obtain h' hd1 where h': "(if prev = 0 then Some (h, nx h c)
           else do { p \<leftarrow> h prev; Some (h(prev \<mapsto> p\<lparr>nnext := nx h c\<rparr>), hd0) }) = Some (h', hd1)"
          "delete_inv (h'(c := None)) hd1 prev (nx h c) ks cs"
          "\<forall>a. a \<noteq> c \<longrightarrow> ct (h'(c := None)) a = ct h a" "dom (h'(c := None)) = dom h - {c}"
          "\<forall>a. a \<notin> set (ks @ c # cs) \<longrightarrow> h' a = h a"
        using delete_inv_drop [OF Cons.prems] by (elim exE conjE) (rule that; assumption)
      define H where "H = h'(c := None)"
      have H: "delete_inv H hd1 prev (nx h c) ks cs" "\<forall>a. a \<noteq> c \<longrightarrow> ct H a = ct h a" "dom H = dom h - {c}"
          "\<forall>a. a \<notin> set (ks @ c # cs) \<longrightarrow> H a = h a"
        using h'(2-5) by (auto simp: H_def)
      have ct: "map (ct H) cs = map (ct h) cs" "map (ct H) ks = map (ct h) ks"
        using H(2) c by auto
      have eq: "delete_loop f h hd0 prev cur n d = delete_loop f H hd1 prev (nx h c) (n - 1) d1"
        using Some dd True c node h'(1) unfolding H_def
        by (subst delete_loop.simps) (auto split: if_splits bind_splits simp del: fun_upd_apply)
      have dn: "delete_n f n (map (ct h) (c # cs)) d = delete_n f (n - 1) (map (ct H) cs) d1"
        using Some dd True unfolding ct by simp
      show ?thesis
        using Cons.IH [OF H(1), of "n - 1" d1] delete_post_drop [OF _ H(3) ct(2) H(4) c(5)]
        unfolding eq dn by (cases "delete_n f (n - 1) (map (ct H) cs) d1") auto
    qed
  qed
qed

text \<open>
  Deletion on the heap is deletion on the list: the same callbacks in the same order, the same
  elements kept, the deleted nodes freed and no other node touched; and it fails only when a
  callback fails.
\<close>

lemma list_delete_n_spec:
  assumes "is_list h l as xs" and "delete_n f n xs d = Some (ys, d')"
  shows "\<exists>h' l' as'. list_delete_n f n (h, l) d = Some ((h', l'), d') \<and> is_list h' l' as' ys \<and>
    set as' \<subseteq> set as \<and> dom h' = dom h - (set as - set as') \<and> (\<forall>a. a \<notin> set as \<longrightarrow> h' a = h a)"
proof -
  have "delete_inv h (list_head l) 0 (list_head l) [] as"
    using assms(1) by (cases as) (auto simp: is_list_def delete_inv_def)
  from delete_loop_run [OF this, of f n d]
  obtain h' hd1 prev as' where r: "delete_loop f h (list_head l) 0 (list_head l) n d = Some (h', hd1, prev, d')"
      "delete_inv h' hd1 prev 0 as' []" "map (ct h') as' = ys" "set as' \<subseteq> set as"
      "dom h' = dom h - (set as - set as')" "\<forall>a. a \<notin> set as \<longrightarrow> h' a = h a"
    using assms by (simp add: is_list_def delete_post_def) blast
  have "\<exists>l'. list_delete_n f n (h, l) d = Some ((h', l'), d') \<and> is_list h' l' as' ys"
  proof (cases "as' = []")
    case True
    then have "hd1 = 0"
      using r(2) by (simp add: delete_inv_def)
    with True show ?thesis
      using r(1,3) by (simp add: list_delete_n_def is_list_def)
  next
    case False
    then have pr: "prev = last as'" "chain (nx h') hd1 as' 0" "set as' \<subseteq> dom h'"
      using r(2) by (simp_all add: delete_inv_def)
    have hd: "hd1 \<noteq> 0"
      using pr(2) False by (cases as') auto
    have "prev \<in> dom h'"
      using pr last_in_set [OF False] by blast
    then obtain p where p: "h' prev = Some p"
      by blast
    have "chain (nx h') prev [prev] 0"
      using chain_suffix [of "nx h'" hd1 "butlast as'" "last as'" "[]" 0] pr False by simp
    then have "nnext p = 0"
      using p by (simp add: nx_def)
    then show ?thesis
      using r(1,3) False pr hd p by (simp add: list_delete_n_def is_list_def)
  qed
  with r(4,5,6) show ?thesis by blast
qed

lemma list_delete_n_fails:
  assumes "is_list h l as xs" and "delete_n f n xs d = None"
  shows "list_delete_n f n (h, l) d = None"
proof -
  have "delete_inv h (list_head l) 0 (list_head l) [] as"
    using assms(1) by (cases as) (auto simp: is_list_def delete_inv_def)
  from delete_loop_run [OF this, of f n d] assms show ?thesis
    by (simp add: is_list_def list_delete_n_def)
qed

lemma delete_n_filter:
  assumes "\<And>x d. f x d = Some (P x, g x d)"
  shows "n < 0 \<Longrightarrow> delete_n f n xs d = Some (filter (\<lambda>x. \<not> P x) xs, fold g xs d)"
  by (induction xs arbitrary: n d) (simp_all add: assms)

section \<open>The queue interface\<close>

text \<open>
  What a client of the lists relies on: the state represents a list, \<open>push\<close> adds at the end,
  \<open>unshift\<close> takes from the front. The nodes come from addresses that are \<open>fresh\<close>.
\<close>

fun push_all :: "('a \<Rightarrow> 'v \<Rightarrow> 's \<Rightarrow> 's option) \<Rightarrow> ('a \<times> 'v) list \<Rightarrow> 's \<Rightarrow> 's option" where
  "push_all push [] s = Some s"
| "push_all push ((a, v) # avs) s = do { s \<leftarrow> push a v s; push_all push avs s }"

fun unshift_n :: "('s \<Rightarrow> ('v \<times> 's) option) \<Rightarrow> nat \<Rightarrow> 's \<Rightarrow> ('v list \<times> 's) option" where
  "unshift_n unshift 0 s = Some ([], s)"
| "unshift_n unshift (Suc n) s = do {
     (x, s) \<leftarrow> unshift s; (xs, s) \<leftarrow> unshift_n unshift n s; Some (x # xs, s) }"

locale list_queue =
  fixes rep :: "'s \<Rightarrow> 'v list \<Rightarrow> bool"
    and fresh :: "'s \<Rightarrow> 'a \<Rightarrow> bool"
    and nul :: "'s \<Rightarrow> bool option"
    and push :: "'a \<Rightarrow> 'v \<Rightarrow> 's \<Rightarrow> 's option"
    and unshift :: "'s \<Rightarrow> ('v \<times> 's) option"
  assumes nul_law: "rep s xs \<Longrightarrow> nul s = Some (xs = [])"
    and push_law: "rep s xs \<Longrightarrow> fresh s a \<Longrightarrow>
      \<exists>s'. push a v s = Some s' \<and> rep s' (xs @ [v]) \<and> (\<forall>b. b \<noteq> a \<longrightarrow> fresh s b \<longrightarrow> fresh s' b)"
    and unshift_law: "rep s (x # xs) \<Longrightarrow> \<exists>s'. unshift s = Some (x, s') \<and> rep s' xs"
begin

lemma push_all_rep:
  "rep s xs \<Longrightarrow> distinct (map fst avs) \<Longrightarrow> \<forall>a\<in>fst ` set avs. fresh s a \<Longrightarrow>
   \<exists>s'. push_all push avs s = Some s' \<and> rep s' (xs @ map snd avs)"
proof (induction avs arbitrary: s xs)
  case (Cons av avs)
  obtain a v where av: "av = (a, v)" by (cases av)
  obtain s' where s': "push a v s = Some s'" "rep s' (xs @ [v])" "\<forall>b. b \<noteq> a \<longrightarrow> fresh s b \<longrightarrow> fresh s' b"
    using push_law [OF Cons.prems(1), of a v] Cons.prems(3) av by auto
  have "\<forall>b\<in>fst ` set avs. fresh s' b"
    using s'(3) Cons.prems(2,3) av by auto
  then show ?case
    using Cons.IH [OF s'(2)] Cons.prems(2) s'(1) av by auto
qed simp

lemma unshift_n_rep:
  "rep s (xs @ ys) \<Longrightarrow> \<exists>s'. unshift_n unshift (length xs) s = Some (xs, s') \<and> rep s' ys"
proof (induction xs arbitrary: s)
  case (Cons x xs)
  then obtain s' where "unshift s = Some (x, s')" "rep s' (xs @ ys)"
    using unshift_law [of s x "xs @ ys"] by auto
  with Cons.IH [of s'] show ?case by auto
qed simp

text \<open>First in, first out: what was in the queue leaves first, then what was pushed, in order.\<close>

lemma fifo:
  assumes "rep s xs" and "distinct (map fst avs)" and "\<forall>a\<in>fst ` set avs. fresh s a"
  shows "\<exists>s' s''. push_all push avs s = Some s' \<and>
    unshift_n unshift (length xs + length avs) s' = Some (xs @ map snd avs, s'') \<and> nul s'' = Some True"
proof -
  obtain s' where s': "push_all push avs s = Some s'" "rep s' (xs @ map snd avs)"
    using push_all_rep [OF assms] by blast
  then obtain s'' where "unshift_n unshift (length (xs @ map snd avs)) s' = Some (xs @ map snd avs, s'')" "rep s'' []"
    using unshift_n_rep [of s' "xs @ map snd avs" "[]"] by auto
  with s' nul_law [of s'' "[]"] show ?thesis by auto
qed

end

definition heap_rep :: "'v lists \<Rightarrow> 'v list \<Rightarrow> bool" where
  "heap_rep s xs \<longleftrightarrow> (\<exists>as. is_list (fst s) (snd s) as xs)"

definition heap_fresh :: "'v lists \<Rightarrow> u32 \<Rightarrow> bool" where
  "heap_fresh s a \<longleftrightarrow> a \<noteq> 0 \<and> fst s a = None"

interpretation lq: list_queue heap_rep heap_fresh list_null list_push list_unshift
proof (unfold_locales, goal_cases)
  case (1 s xs)
  then show ?case by (cases s) (auto simp: heap_rep_def is_list_null)
next
  case (2 s xs a v)
  obtain h l as where s: "s = (h, l)" "is_list h l as xs"
    using 2 by (cases s) (auto simp: heap_rep_def)
  then obtain h' l' where p: "list_push a v (h, l) = Some (h', l')" "is_list h' l' (as @ [a]) (xs @ [v])"
      "dom h' = insert a (dom h)"
    using list_push_spec [of h l as xs a v] 2(2) by (auto simp: heap_fresh_def)
  have "h' b = None" if "b \<noteq> a" "h b = None" for b
    using p(3) that by (metis domIff insertE)
  with s p show ?case
    by (auto simp: heap_rep_def heap_fresh_def)
next
  case (3 s x xs)
  then obtain as where "is_list (fst s) (snd s) as (x # xs)"
    by (auto simp: heap_rep_def)
  from list_unshift_spec [OF this] show ?case
    by (auto simp: heap_rep_def)
qed

section \<open>Properties\<close>

text \<open>
  C18. \<^verbatim>\<open>list_delete_n\<close> on a linked list deletes exactly what the same deletion on the list of
  contents deletes: the callback sees the same elements in the same order and threads the same
  data, the list that remains holds the elements kept in their order with correct head and last
  pointers, exactly the deleted nodes are freed, nodes of other lists are not touched, and the
  function fails only if a callback does.
\<close>

theorem list_delete_n_refines:
  assumes "is_list h l as xs"
  shows "case delete_n f n xs d of
      None \<Rightarrow> list_delete_n f n (h, l) d = None
    | Some (ys, d') \<Rightarrow> \<exists>h' l' as'. list_delete_n f n (h, l) d = Some ((h', l'), d') \<and> is_list h' l' as' ys \<and>
        set as' \<subseteq> set as \<and> dom h' = dom h - (set as - set as') \<and> (\<forall>a. a \<notin> set as \<longrightarrow> h' a = h a)"
  using list_delete_n_fails [OF assms, of f n d] list_delete_n_spec [OF assms, of f n d]
  by (cases "delete_n f n xs d") auto

definition three_nodes :: "int node_heap" where
  "three_nodes = [4 \<mapsto> \<lparr>contents = 10, nnext = 8\<rparr>, 8 \<mapsto> \<lparr>contents = 11, nnext = 12\<rparr>,
     12 \<mapsto> \<lparr>contents = 12, nnext = 0\<rparr>]"

lemma three_nodes_list: "is_list three_nodes \<lparr>list_head = 4, list_last = 12\<rparr> [4, 8, 12] [10, 11, 12]"
  by (simp add: is_list_def three_nodes_def nx_def ct_def)

theorem list_delete_n_refines_witness:
  "is_list three_nodes \<lparr>list_head = 4, list_last = 12\<rparr> [4, 8, 12] [10, 11, 12] \<and>
   (\<exists>h' l' as'. list_delete_n (\<lambda>x (k :: nat). Some (even x, Suc k)) 1 (three_nodes, \<lparr>list_head = 4, list_last = 12\<rparr>) 0 =
       Some ((h', l'), 1) \<and> is_list h' l' as' [11, 12])"
  using list_delete_n_refines [OF three_nodes_list, of "\<lambda>x (k :: nat). Some (even x, Suc k)" 1 0] three_nodes_list
  by auto

text \<open>
  C25. A list used as a queue is first in, first out: pushing any elements at fresh addresses and
  then taking off as many as there are returns what the list held before, followed by the new
  elements, each in order, and leaves the list empty; no assertion of the list code fails.
\<close>

theorem list_queue_fifo:
  assumes "is_list h l as xs" and "distinct (map fst avs)" and "\<forall>a\<in>fst ` set avs. a \<noteq> 0 \<and> h a = None"
  shows "\<exists>s s'. push_all list_push avs (h, l) = Some s \<and>
    unshift_n list_unshift (length xs + length avs) s = Some (xs @ map snd avs, s') \<and> list_null s' = Some True"
  using lq.fifo [of "(h, l)" xs avs] assms by (auto simp: heap_rep_def heap_fresh_def)

theorem list_queue_fifo_witness:
  "\<exists>s s'. push_all list_push [(16, 13), (20, 14)] (three_nodes, \<lparr>list_head = 4, list_last = 12\<rparr>) = Some s \<and>
    unshift_n list_unshift 5 s = Some ([10, 11, 12, 13, 14], s') \<and> list_null s' = Some True"
proof -
  have d: "distinct (map fst [(16 :: u32, 13 :: int), (20, 14)])"
    and f: "\<forall>a\<in>fst ` set [(16 :: u32, 13 :: int), (20, 14)]. a \<noteq> 0 \<and> three_nodes a = None"
    by (simp_all add: three_nodes_def)
  have n: "length [10 :: int, 11, 12] + length [(16 :: u32, 13 :: int), (20, 14)] = 5"
    by simp
  show ?thesis
    using list_queue_fifo [OF three_nodes_list d f, unfolded n]
    by (simp only: list.map append.simps snd_conv)
qed

text \<open>\<^verbatim>\<open>list_destroy\<close> counts and frees every node.\<close>

lemma list_destroy_spec:
  assumes "is_list h l as xs"
  shows "\<exists>h'. list_destroy (h, l) = Some (int (length xs), h') \<and> dom h' = dom h - set as"
proof -
  have fold: "fold (\<lambda>c n. n + 1) ys k = k + int (length ys)" for ys :: "'b list" and k
    by (induction ys arbitrary: k) auto
  have "delete_n deleteWithCount (-1) xs 0 = Some ([], int (length xs))"
    using delete_n_filter [of deleteWithCount "\<lambda>_. True" "\<lambda>_ n. n + 1" "-1" xs 0]
    by (simp add: deleteWithCount_def fold)
  from list_delete_n_spec [OF assms this] show ?thesis
    by (auto simp: list_destroy_def list_delete_def is_list_def)
qed

end
