(* ===== verification/Process.thy ===== *)
theory Process
  imports Region PageTable Lists
begin

text \<open>
  Processes: \<^verbatim>\<open>src/sos/process.c\<close>, the thread-number allocator of \<^verbatim>\<open>src/sos/libsos.c\<close>, and the
  reply path of \<^verbatim>\<open>src/sos/syscall.c\<close>. The table of PCBs holds them by value; a slot is empty,
  holds the placeholder of a reserved pid, or holds a PCB. Following the placeholder or indexing
  the table out of range fails.
\<close>

section \<open>Data\<close>

datatype process_state_t = PS_STATE_START | PS_STATE_ALIVE | PS_STATE_WAIT | PS_STATE_SLEEP | PS_STATE_ZOMBIE

datatype process_type_t = PS_TYPE_PROCESS | PS_TYPE_ROOTTHREAD

datatype process_ipcfilt_t = PS_IPC_NONBLOCKING | PS_IPC_BLOCKING | PS_IPC_ALL | PS_IPC_NONE

record process_t =
  ps_pid :: int
  ps_size :: u32
  ps_stime :: u32
  ps_ctime :: u32
  ps_command :: string
  ps_state :: process_state_t
  ps_type :: process_type_t
  ipc_accept :: process_ipcfilt_t

text \<open>An open file of a process: its vnode (by address, 0 when the slot is free) and position.\<close>

record VFile =
  vf_vnode :: u32
  vf_fmode :: u8
  vf_fp :: u32
  vf_ref :: u32

record Process =
  info :: process_t
  pagetable :: u32
  regions :: "Region list"
  sp :: u32
  ip :: u32
  startedAt :: u64
  fds :: "int list"
  files :: "VFile list"
  waitingOn :: int
  fin :: "string option"

datatype procslot = PNull | PPlaceholder | PProc Process

definition NIL_PID :: int where
  [simp]: "NIL_PID = -1"
definition WAIT_ANYBODY :: int where
  [simp]: "WAIT_ANYBODY = -1"
definition WAIT_NOBODY :: int where
  [simp]: "WAIT_NOBODY = -2"

record proc_st = kernel_st +
  sosProcs :: "procslot list"
  nextPid :: int
  tidOffset :: int
  last_thread_s :: int
  last_thread_disabled_s :: bool

section \<open>Thread numbers\<close>

definition sos_get_new_tid :: "'z proc_st_scheme \<Rightarrow> L4_ThreadId_t \<times> 'z proc_st_scheme" where
  "sos_get_new_tid s =
     (if \<not> last_thread_disabled_s s
      then (L4_GlobalId (last_thread_s s + 1) 1, s\<lparr>last_thread_s := last_thread_s s + 1\<rparr>)
      else (L4_nilthread, s))"

definition sos_get_new_tid_disable :: "'z proc_st_scheme \<Rightarrow> 'z proc_st_scheme" where
  "sos_get_new_tid_disable s = s\<lparr>last_thread_disabled_s := True\<rparr>"

definition sos_peek_new_tid :: "'z proc_st_scheme \<Rightarrow> L4_ThreadId_t" where
  "sos_peek_new_tid s = L4_GlobalId (last_thread_s s + 1) 1"

section \<open>The table\<close>

text \<open>\<^verbatim>\<open>process_lookup\<close> prints a message for a pid out of range and indexes the table all the same.\<close>

definition process_lookup :: "int \<Rightarrow> 'z proc_st_scheme \<Rightarrow> procslot option" where
  "process_lookup key s = (if key < 0 then None else arr_get (sosProcs s) (nat key))"

text \<open>Following a process pointer.\<close>

fun deref :: "procslot \<Rightarrow> Process option" where
  "deref (PProc p) = Some p"
| "deref PPlaceholder = None"
| "deref PNull = None"

definition set_slot :: "int \<Rightarrow> procslot \<Rightarrow> 'z proc_st_scheme \<Rightarrow> 'z proc_st_scheme option" where
  "set_slot pid sl s = do {
     c_assert (0 \<le> pid);
     t \<leftarrow> arr_set (sosProcs s) (nat pid) sl;
     Some (s\<lparr>sosProcs := t\<rparr>) }"

text \<open>Changing a PCB that is in the table.\<close>

definition upd_proc :: "int \<Rightarrow> (Process \<Rightarrow> Process) \<Rightarrow> 'z proc_st_scheme \<Rightarrow> 'z proc_st_scheme option" where
  "upd_proc pid f s = do {
     sl \<leftarrow> process_lookup pid s;
     p \<leftarrow> deref sl;
     set_slot pid (PProc (f p)) s }"

definition processExists :: "int \<Rightarrow> 'z proc_st_scheme \<Rightarrow> bool option" where
  "processExists pid s = do {
     c_assert (tidOffset s \<le> pid \<and> pid < MAX_ADDRSPACES);
     sl \<leftarrow> process_lookup pid s;
     Some (\<not> (sl = PNull \<or> sl = PPlaceholder)) }"

section \<open>Getters\<close>

definition process_get_pid :: "procslot \<Rightarrow> int option" where
  "process_get_pid sl = (if sl = PNull then Some NIL_PID else do { p \<leftarrow> deref sl; Some (ps_pid (info p)) })"

definition process_get_tid :: "procslot \<Rightarrow> L4_ThreadId_t option" where
  "process_get_tid sl =
     (if sl = PNull then Some L4_nilthread else do { p \<leftarrow> deref sl; Some (L4_GlobalId (ps_pid (info p)) 1) })"

definition L4_nilspace :: int where
  "L4_nilspace = 0xFFFFFFFF"

definition process_get_sid :: "procslot \<Rightarrow> int option" where
  "process_get_sid sl = (if sl = PNull then Some L4_nilspace else process_get_pid sl)"

definition process_get_pagetable :: "procslot \<Rightarrow> u32 option" where
  "process_get_pagetable sl = (if sl = PNull then Some 0 else do { p \<leftarrow> deref sl; Some (pagetable p) })"

text \<open>A null list of regions is only ever passed on to the list functions, which follow it.\<close>

definition process_get_regions :: "procslot \<Rightarrow> Region list option" where
  "process_get_regions sl = do { p \<leftarrow> deref sl; Some (regions p) }"

definition process_get_state :: "Process \<Rightarrow> process_state_t" where
  "process_get_state p = ps_state (info p)"

definition process_get_ipcfilt :: "Process \<Rightarrow> process_ipcfilt_t" where
  "process_get_ipcfilt p = ipc_accept (info p)"

definition process_get_stdin :: "Process \<Rightarrow> string option" where
  "process_get_stdin p = fin p"

text \<open>\<^verbatim>\<open>process_get_info\<close> also brings the run time of the process up to date.\<close>

definition process_get_info :: "u64 \<Rightarrow> Process \<Rightarrow> Process" where
  "process_get_info t p = p\<lparr>info := (info p)\<lparr>ps_stime := ucast (t - startedAt p)\<rparr>\<rparr>"

section \<open>Setters\<close>

definition process_add_region :: "Region \<Rightarrow> Process \<Rightarrow> Process" where
  "process_add_region r p = p\<lparr>regions := regions p @ [r]\<rparr>"

definition process_set_ip :: "u32 \<Rightarrow> Process \<Rightarrow> Process" where
  "process_set_ip a p = p\<lparr>ip := a\<rparr>"

definition process_set_sp :: "u32 \<Rightarrow> Process \<Rightarrow> Process" where
  "process_set_sp a p = p\<lparr>sp := a\<rparr>"

definition process_set_name :: "string \<Rightarrow> Process \<Rightarrow> Process" where
  "process_set_name name p = p\<lparr>info := (info p)\<lparr>ps_command := strncpy_field MAX_FILE_NAME name\<rparr>\<rparr>"

definition process_set_state :: "process_state_t \<Rightarrow> Process \<Rightarrow> Process" where
  "process_set_state st p = p\<lparr>info := (info p)\<lparr>ps_state := st\<rparr>\<rparr>"

definition process_set_ipcfilt :: "process_ipcfilt_t \<Rightarrow> Process \<Rightarrow> process_ipcfilt_t \<times> Process" where
  "process_set_ipcfilt f p = (ipc_accept (info p), p\<lparr>info := (info p)\<lparr>ipc_accept := f\<rparr>\<rparr>)"

definition process_set_stdin :: "string \<Rightarrow> bool \<Rightarrow> Process \<Rightarrow> Process" where
  "process_set_stdin str ok p =
     (if fin p = None \<and> \<not> ok then p else p\<lparr>fin := Some (strncpy_field MAX_FILE_NAME str)\<rparr>)"

section \<open>Replies\<close>

text \<open>
  \<^verbatim>\<open>syscall_reply_v\<close>: nothing is sent to a thread without a process, to the root server, to a
  process that accepts no message, or to one that has not started or is a zombie.
\<close>

definition syscall_reply_v :: "L4_ThreadId_t \<Rightarrow> u32 list \<Rightarrow> 'z proc_st_scheme \<Rightarrow> 'z proc_st_scheme option" where
  "syscall_reply_v tid ws s = do {
     sl \<leftarrow> process_lookup (L4_ThreadNo tid) s;
     if sl = PNull then Some s
     else if tid = L4_rootserver \<or> tid = L4_nilthread then Some s
     else do {
       p \<leftarrow> deref sl;
       if process_get_ipcfilt p = PS_IPC_NONE then Some s
       else do {
         let s = l4_do CacheFlushAll s;
         if process_get_state p = PS_STATE_ZOMBIE \<or> process_get_state p = PS_STATE_START then Some s
         else if process_get_ipcfilt p = PS_IPC_BLOCKING
         then Some (ipc_send tid SOS_REPLY SOS_IPC_SEND ws s)
         else Some (ipc_send tid SOS_REPLY SOS_IPC_REPLY ws s) } } }"

definition syscall_reply :: "L4_ThreadId_t \<Rightarrow> u32 \<Rightarrow> 'z proc_st_scheme \<Rightarrow> 'z proc_st_scheme option" where
  "syscall_reply tid rval = syscall_reply_v tid [rval]"

section \<open>Creation\<close>

text \<open>\<^verbatim>\<open>vfiles_init\<close> of \<^verbatim>\<open>vfs.c\<close>: no descriptor in use, no file open.\<close>

definition vfiles_init :: "int list \<times> VFile list" where
  "vfiles_init = (replicate PROCESS_MAX_FDS VFS_NIL_FILE,
     replicate PROCESS_MAX_FILES \<lparr>vf_vnode = 0, vf_fmode = 0, vf_fp = 0, vf_ref = 1\<rparr>)"

definition processAlloc :: "'z proc_st_scheme \<Rightarrow> (Process \<times> 'z proc_st_scheme) option" where
  "processAlloc s = do {
     (pt, s) \<leftarrow> pagetable_init s;
     Some (\<lparr>info = \<lparr>ps_pid = NIL_PID, ps_size = 0, ps_stime = 0, ps_ctime = 0, ps_command = [],
         ps_state = PS_STATE_START, ps_type = PS_TYPE_PROCESS, ipc_accept = PS_IPC_ALL\<rparr>,
       pagetable = pt, regions = [], sp = 0, ip = 0, startedAt = 0,
       fds = fst vfiles_init, files = snd vfiles_init, waitingOn = WAIT_NOBODY, fin = None\<rparr>, s) }"

definition process_init :: "process_type_t \<Rightarrow> 'z proc_st_scheme \<Rightarrow> (Process \<times> 'z proc_st_scheme) option" where
  "process_init ty s = do {
     let s = (if tidOffset s = 0
       then let s = sos_get_new_tid_disable (s\<lparr>tidOffset := L4_ThreadNo (sos_peek_new_tid s)\<rparr>)
            in s\<lparr>nextPid := tidOffset s\<rparr>
       else s);
     (p, s) \<leftarrow> processAlloc s;
     Some (p\<lparr>info := (info p)\<lparr>ps_type := ty\<rparr>\<rparr>, s) }"

text \<open>The heap goes above the highest region, the stack at the middle of the address space.\<close>

definition STACK_TOP :: u32 where
  "STACK_TOP = drop_bit 1 (- 1) AND PAGEALIGN"

definition addBuiltinRegions :: "Process \<Rightarrow> Process" where
  "addBuiltinRegions p = (let base = (word_of_int (fold regionFindHighest (regions p) 0) :: u32) in
     if base = 0 then p
     else let
         base = round_up base PAGESIZE;
         p = process_add_region (region_alloc REGION_HEAP base 0 (REGION_READ OR REGION_WRITE) False) p;
         base = STACK_TOP;
         p = process_add_region (region_alloc REGION_STACK (base - ONE_MEG) ONE_MEG
               (REGION_READ OR REGION_WRITE) False) p
       in p\<lparr>sp := base - 3 * 4\<rparr>)"

definition process_append_region :: "u32 \<Rightarrow> u32 \<Rightarrow> Process \<Rightarrow> u32 \<times> Process" where
  "process_append_region sz rights p = (let
       base = (word_of_int (fold regionFindHighest (regions p) 0) :: u32);
       base = round_up base PAGESIZE in
     (base, process_add_region (region_alloc REGION_OTHER base sz rights False) p))"

section \<open>Process numbers\<close>

partial_function (option) nextPid_loop :: "procslot list \<Rightarrow> int \<Rightarrow> int \<Rightarrow> int \<Rightarrow> bool \<Rightarrow> int option" where
  "nextPid_loop procs off oldPid nxt firstIteration = do {
     c_assert (0 \<le> nxt);
     sl \<leftarrow> arr_get procs (nat nxt);
     if sl = PNull then Some nxt
     else if \<not> firstIteration \<and> oldPid = nxt then Some nxt
     else nextPid_loop procs off oldPid
            (if nxt + 1 \<ge> MAX_ADDRSPACES then off else nxt + 1) False }"

definition getNextPid :: "'z proc_st_scheme \<Rightarrow> (int \<times> 'z proc_st_scheme) option" where
  "getNextPid s = do {
     nxt \<leftarrow> nextPid_loop (sosProcs s) (tidOffset s) (nextPid s) (nextPid s) True;
     let s = s\<lparr>nextPid := nxt\<rparr>;
     sl \<leftarrow> process_lookup nxt s;
     Some (if sl \<noteq> PNull then NIL_PID else nxt, s) }"

definition reserve_pid :: "'z proc_st_scheme \<Rightarrow> (int \<times> 'z proc_st_scheme) option" where
  "reserve_pid s = do {
     (pid, s) \<leftarrow> getNextPid s;
     if pid \<noteq> NIL_PID then do {
       ex \<leftarrow> processExists pid s;
       c_assert (\<not> ex);
       s \<leftarrow> set_slot pid PPlaceholder s;
       Some (pid, s) }
     else Some (pid, s) }"

section \<open>Starting processes\<close>

definition STDOUT_FN :: string where
  [simp]: "STDOUT_FN = ''console''"
definition STDIN_FN :: string where
  [simp]: "STDIN_FN = ''console''"

definition stdout_fd :: int where
  [simp]: "stdout_fd = 0"
definition stderr_fd :: int where
  [simp]: "stderr_fd = 1"

definition openStdFd :: "int \<Rightarrow> string option \<Rightarrow> string \<Rightarrow> u8 \<Rightarrow> 'z proc_st_scheme \<Rightarrow> 'z proc_st_scheme" where
  "openStdFd pid file stdfile mode s = (let
       f = (case file of None \<Rightarrow> stdfile | Some f \<Rightarrow> f);
       s = s\<lparr>copyInOutBuffer :=
         buf_strncpy (pager_buffer (L4_GlobalId pid 1)) f MAX_FILE_NAME (copyInOutBuffer s)\<rparr> in
     ipc_send L4_rootserver PSOS_OPEN SOS_IPC_SEND
       [ucast mode, FM_UNLIMITED_RW, FM_UNLIMITED_RW, word_of_int pid] s)"

text \<open>
  \<^verbatim>\<open>process_prepare2\<close> registers a PCB, and for a user process sets up its address space and asks
  the root server to open its standard files. Comparing the two file names follows both pointers.
\<close>

definition process_prepare2 :: "Process \<Rightarrow> string option \<Rightarrow> string option \<Rightarrow> string option \<Rightarrow>
    'z proc_st_scheme \<Rightarrow> (Process \<times> 'z proc_st_scheme) option" where
  "process_prepare2 p fdout fderr fdin s = do {
     (pid, s) \<leftarrow> (if ps_pid (info p) = NIL_PID then getNextPid s else Some (ps_pid (info p), s));
     let p = p\<lparr>info := (info p)\<lparr>ps_pid := pid\<rparr>\<rparr>;
     c_assert (pid \<noteq> NIL_PID);
     ex \<leftarrow> processExists pid s;
     c_assert (\<not> ex);
     if ps_type (info p) \<noteq> PS_TYPE_ROOTTHREAD then do {
       let p = addBuiltinRegions p;
       let s = openStdFd pid fdout STDOUT_FN FM_WRITE s;
       same \<leftarrow> (if fdout = None \<and> fderr = None then Some True
         else do { a \<leftarrow> fdout; b \<leftarrow> fderr; Some (a = b) });
       let s = (if same
         then ipc_send L4_rootserver PSOS_DUP SOS_IPC_SEND
                [word_of_int stdout_fd, word_of_int stderr_fd, word_of_int pid] s
         else openStdFd pid fderr STDOUT_FN FM_WRITE s);
       let p = (case fdin of None \<Rightarrow> p | Some f \<Rightarrow> process_set_stdin f (heapOk s) p);
       s \<leftarrow> set_slot pid (PProc p) s;
       Some (p, s) }
     else do {
       s \<leftarrow> set_slot pid (PProc p) s;
       Some (p, s) } }"

definition process_prepare :: "Process \<Rightarrow> 'z proc_st_scheme \<Rightarrow> (Process \<times> 'z proc_st_scheme) option" where
  "process_prepare p = process_prepare2 p None None None"

text \<open>Starting the thread of a PCB that is in the table; the microkernel call is recorded.\<close>

definition sos_thread_new_priority :: "L4_ThreadId_t \<Rightarrow> int \<Rightarrow> u32 \<Rightarrow> u32 \<Rightarrow> 'z proc_st_scheme \<Rightarrow>
    L4_ThreadId_t \<times> 'z proc_st_scheme" where
  "sos_thread_new_priority tid prio entry stack s = (let
       (tid, s) = (if tid = L4_nilthread then sos_get_new_tid s else (tid, s)) in
     (tid, l4_do (ThreadNew tid prio entry stack) s))"

definition sos_task_new :: "int \<Rightarrow> L4_ThreadId_t \<Rightarrow> u32 \<Rightarrow> u32 \<Rightarrow> 'z proc_st_scheme \<Rightarrow>
    (L4_ThreadId_t \<times> 'z proc_st_scheme) option" where
  "sos_task_new task pgr entry stack s = do {
     c_assert (pager_is_active s);
     Some (L4_GlobalId task 1, l4_do (TaskNew task pgr entry stack) s) }"

definition processRunPriority :: "int \<Rightarrow> bool \<Rightarrow> int \<Rightarrow> 'z proc_st_scheme \<Rightarrow>
    (L4_ThreadId_t \<times> 'z proc_st_scheme) option" where
  "processRunPriority pid timestamp prio s = do {
     s \<leftarrow> (if timestamp then upd_proc pid (\<lambda>p. p\<lparr>startedAt := now s\<rparr>) s else Some s);
     sl \<leftarrow> process_lookup pid s;
     p \<leftarrow> deref sl;
     (tid, s) \<leftarrow> (if ps_type (info p) = PS_TYPE_ROOTTHREAD
       then Some (sos_thread_new_priority (L4_GlobalId (ps_pid (info p)) 1) prio (ip p) (sp p) s)
       else do {
         c_assert (pager_is_active s);
         c_assert (0 \<le> ps_pid (info p));
         c_assert (ps_pid (info p) < MAX_THREADS);
         sos_task_new (ps_pid (info p)) (pager_get_tid s) (ip p) (sp p) s });
     c_assert (L4_ThreadNo tid = ps_pid (info p));
     s \<leftarrow> upd_proc pid (process_set_state PS_STATE_ALIVE) s;
     Some (tid, s) }"

definition process_run :: "int \<Rightarrow> bool \<Rightarrow> 'z proc_st_scheme \<Rightarrow> (L4_ThreadId_t \<times> 'z proc_st_scheme) option" where
  "process_run pid timestamp = processRunPriority pid timestamp 0"

definition process_run_rootthread :: "string \<Rightarrow> u32 \<Rightarrow> bool \<Rightarrow> int \<Rightarrow> 'z proc_st_scheme \<Rightarrow>
    (int \<times> 'z proc_st_scheme) option" where
  "process_run_rootthread name entry ts prio s = do {
     (p, s) \<leftarrow> process_init PS_TYPE_ROOTTHREAD s;
     (p, s) \<leftarrow> process_prepare p s;
     let pid = ps_pid (info p);
     s \<leftarrow> upd_proc pid (process_set_name name) s;
     s \<leftarrow> upd_proc pid (process_set_ip entry) s;
     let (stack, s) = frame_alloc FA_STACK s;
     s \<leftarrow> upd_proc pid (process_set_sp (stack + PAGESIZE - 4)) s;
     (tid, s) \<leftarrow> processRunPriority pid ts prio s;
     Some (pid, s) }"

definition process_add_rootserver :: "'z proc_st_scheme \<Rightarrow> 'z proc_st_scheme option" where
  "process_add_rootserver s = do {
     (p, s) \<leftarrow> processAlloc s;
     let p = p\<lparr>startedAt := now s\<rparr>;
     let p = process_get_info (now s) p;
     let p = p\<lparr>info := (info p)\<lparr>ps_pid := L4_rootserverno\<rparr>\<rparr>;
     let p = process_set_name ''sos'' p;
     let p = process_set_state PS_STATE_ALIVE p;
     set_slot L4_rootserverno (PProc p) s }"

section \<open>Waiting and dying\<close>

definition process_wait_any :: "int \<Rightarrow> 'z proc_st_scheme \<Rightarrow> 'z proc_st_scheme option" where
  "process_wait_any waiter =
     upd_proc waiter (\<lambda>p. process_set_state PS_STATE_WAIT (p\<lparr>waitingOn := WAIT_ANYBODY\<rparr>))"

text \<open>The process waited for is a pointer that may be null; its pid is then \<^verbatim>\<open>NIL_PID\<close>.\<close>

definition process_wait_for :: "procslot \<Rightarrow> int \<Rightarrow> 'z proc_st_scheme \<Rightarrow> 'z proc_st_scheme option" where
  "process_wait_for waitFor waiter s = do {
     pid \<leftarrow> process_get_pid waitFor;
     upd_proc waiter (\<lambda>p. process_set_state PS_STATE_WAIT (p\<lparr>waitingOn := pid\<rparr>)) s }"

definition wake_one :: "int \<Rightarrow> int \<Rightarrow> int \<Rightarrow> 'z proc_st_scheme \<Rightarrow> 'z proc_st_scheme option" where
  "wake_one wakeFor wakeFrom i s = do {
     ex \<leftarrow> processExists i s;
     if ex then do {
       sl \<leftarrow> process_lookup i s;
       p \<leftarrow> deref sl;
       if waitingOn p = wakeFor then do {
         s \<leftarrow> upd_proc i (\<lambda>p. process_set_state PS_STATE_ALIVE (p\<lparr>waitingOn := WAIT_NOBODY\<rparr>)) s;
         syscall_reply (L4_GlobalId (ps_pid (info p)) 1) (word_of_int wakeFrom) s }
       else Some s }
     else Some s }"

definition wakeAll :: "int \<Rightarrow> int \<Rightarrow> 'z proc_st_scheme \<Rightarrow> 'z proc_st_scheme option" where
  "wakeAll wakeFor wakeFrom s =
     fold_opt (wake_one wakeFor wakeFrom) [tidOffset s..MAX_ADDRSPACES - 1] s"

definition process_wake_all :: "int \<Rightarrow> 'z proc_st_scheme \<Rightarrow> 'z proc_st_scheme option" where
  "process_wake_all pid s = do {
     s \<leftarrow> wakeAll pid pid s;
     wakeAll WAIT_ANYBODY pid s }"

definition thread_kill :: "L4_ThreadId_t \<Rightarrow> 'z proc_st_scheme \<Rightarrow> 'z proc_st_scheme" where
  "thread_kill tid = l4_do (ThreadDelete tid)"

definition process_kill :: "procslot \<Rightarrow> 'z proc_st_scheme \<Rightarrow> (int \<times> 'z proc_st_scheme) option" where
  "process_kill sl s = do {
     c_assert (sl \<noteq> PNull);
     p \<leftarrow> deref sl;
     let pid = ps_pid (info p);
     if pid > tidOffset s \<and> ps_type (info p) \<noteq> PS_TYPE_ROOTTHREAD then do {
       let s = thread_kill (L4_GlobalId pid 1) s;
       let s = l4_do (SpaceDelete pid) s;
       Some (0, if pid < nextPid s then s\<lparr>nextPid := pid\<rparr> else s) }
     else Some (-1, s) }"

definition process_remove :: "int \<Rightarrow> 'z proc_st_scheme \<Rightarrow> 'z proc_st_scheme option" where
  "process_remove pid = set_slot pid PNull"

text \<open>
  \<^verbatim>\<open>process_write_status\<close> returns the descriptors it writes to the buffer. The bound is the smaller,
  as unsigned numbers, of the one asked for and what the buffer holds (60 bytes each).
\<close>

definition sizeof_process_t :: nat where
  "sizeof_process_t = 60"

fun write_status_loop :: "int list \<Rightarrow> nat \<Rightarrow> 'z proc_st_scheme \<Rightarrow> (process_t list \<times> 'z proc_st_scheme) option" where
  "write_status_loop [] n s = Some ([], s)"
| "write_status_loop (i # is) 0 s = Some ([], s)"
| "write_status_loop (i # is) (Suc n) s = do {
     ex \<leftarrow> processExists i s;
     sl \<leftarrow> process_lookup i s;
     if \<not> ex then write_status_loop is (Suc n) s
     else do {
       p \<leftarrow> deref sl;
       if ps_type (info p) = PS_TYPE_ROOTTHREAD then write_status_loop is (Suc n) s
       else do {
         let p = process_get_info (now s) p;
         s \<leftarrow> set_slot i (PProc p) s;
         (rest, s) \<leftarrow> write_status_loop is n s;
         Some (info p # rest, s) } } }"

definition process_write_status :: "u32 \<Rightarrow> 'z proc_st_scheme \<Rightarrow> (process_t list \<times> 'z proc_st_scheme) option" where
  "process_write_status n s =
     write_status_loop [tidOffset s..MAX_ADDRSPACES - 1]
       (min (unat n) (unat COPY_BUFSIZ div sizeof_process_t)) s"

end
