(* ===== verification/ProcessProps.thy ===== *)
theory ProcessProps
  imports Process
begin

text \<open>
  Properties of the process table: the search for a free pid always ends and finds the next free
  one, reserved pids are never handed out twice, exactly the waiting processes are woken, and the
  address space of a new process is laid out without overlap.
\<close>

section \<open>Well-formed tables\<close>

definition slot :: "'z proc_st_scheme \<Rightarrow> int \<Rightarrow> procslot" where
  "slot s i = sosProcs s ! nat i"

definition procs_wf :: "'z proc_st_scheme \<Rightarrow> bool" where
  "procs_wf s \<longleftrightarrow> length (sosProcs s) = 256 \<and> 0 \<le> tidOffset s \<and> tidOffset s \<le> nextPid s \<and> nextPid s < 256"

lemma process_lookup_in: "length (sosProcs s) = 256 \<Longrightarrow> 0 \<le> i \<Longrightarrow> i < 256 \<Longrightarrow> process_lookup i s = Some (slot s i)"
  by (simp add: process_lookup_def slot_def nat_less_iff)

lemma set_slot_in:
  "length (sosProcs s) = 256 \<Longrightarrow> 0 \<le> i \<Longrightarrow> i < 256 \<Longrightarrow>
   set_slot i sl s = Some (s\<lparr>sosProcs := (sosProcs s)[nat i := sl]\<rparr>)"
  by (simp add: set_slot_def nat_less_iff)

lemma slot_upd:
  "length (sosProcs s) = 256 \<Longrightarrow> 0 \<le> i \<Longrightarrow> i < 256 \<Longrightarrow> 0 \<le> j \<Longrightarrow>
   slot (s\<lparr>sosProcs := (sosProcs s)[nat i := sl]\<rparr>) j = (if j = i then sl else slot s j)"
  by (auto simp: slot_def nth_list_update nat_eq_iff nat_less_iff)

section \<open>The search for a free pid\<close>

lemma nextPid_step:
  assumes "length procs = 256" and "0 \<le> nxt" and "nxt < 256" and "procs ! nat nxt \<noteq> PNull" and "first \<or> old \<noteq> nxt"
  shows "nextPid_loop procs off old nxt first = nextPid_loop procs off old (if nxt + 1 \<ge> 256 then off else nxt + 1) False"
  using assms by (subst nextPid_loop.simps) (auto simp: nat_less_iff)

lemma nextPid_stop:
  assumes "length procs = 256" and "0 \<le> nxt" and "nxt < 256" and "procs ! nat nxt = PNull \<or> \<not> first \<and> old = nxt"
  shows "nextPid_loop procs off old nxt first = Some nxt"
  using assms by (subst nextPid_loop.simps) (auto simp: nat_less_iff)

lemma ball_int_Cons:
  assumes "P i" and "\<forall>j\<in>{i + 1..<r}. P j"
  shows "\<forall>j\<in>{i..<r :: int}. P j"
proof
  fix j assume "j \<in> {i..<r}"
  then show "P j"
    using assms by (cases "j = i") auto
qed

text \<open>After wrapping around: up from the offset to where the search began.\<close>

definition pid_second :: "procslot list \<Rightarrow> int \<Rightarrow> int \<Rightarrow> int \<Rightarrow> bool" where
  "pid_second procs old nxt r \<longleftrightarrow> nxt \<le> r \<and> r \<le> old \<and> (\<forall>j\<in>{nxt..<r}. procs ! nat j \<noteq> PNull) \<and>
     (procs ! nat r = PNull \<or> r = old)"

lemma pid_second_skip:
  assumes "pid_second procs old (nxt + 1) r" and "procs ! nat nxt \<noteq> PNull"
  shows "pid_second procs old nxt r"
  using assms ball_int_Cons [of "\<lambda>j. procs ! nat j \<noteq> PNull" nxt r]
  unfolding pid_second_def by simp

lemma nextPid_second:
  assumes "length procs = 256" and "old < 256"
  shows "0 \<le> nxt \<Longrightarrow> nxt \<le> old \<Longrightarrow> \<exists>r. nextPid_loop procs off old nxt False = Some r \<and> pid_second procs old nxt r"
proof (induction "nat (old - nxt)" arbitrary: nxt)
  case 0
  then have "nextPid_loop procs off old nxt False = Some nxt" and "nxt = old"
    using nextPid_stop [of procs nxt False old off] assms by simp_all
  then show ?case
    by (simp add: pid_second_def)
next
  case (Suc k)
  show ?case
  proof (cases "procs ! nat nxt = PNull")
    case True
    then have "nextPid_loop procs off old nxt False = Some nxt"
      using nextPid_stop [of procs nxt False old off] Suc.prems assms by simp
    with True Suc.prems show ?thesis
      by (simp add: pid_second_def)
  next
    case False
    have k: "k = nat (old - (nxt + 1))" and b: "0 \<le> nxt + 1" "nxt + 1 \<le> old"
      using Suc.hyps(2) Suc.prems by simp_all
    have "nextPid_loop procs off old nxt False = nextPid_loop procs off old (nxt + 1) False"
      using nextPid_step [of procs nxt False old off] False b Suc.prems assms by simp
    with Suc.hyps(1) [OF k b] False show ?thesis
      using pid_second_skip by auto
  qed
qed

text \<open>What the whole search finds, starting at \<open>nxt\<close> with the search begun at \<open>old\<close>.\<close>

definition pid_found :: "procslot list \<Rightarrow> int \<Rightarrow> int \<Rightarrow> int \<Rightarrow> int \<Rightarrow> bool" where
  "pid_found procs off old nxt r \<longleftrightarrow>
     (nxt \<le> r \<and> r < 256 \<and> procs ! nat r = PNull \<and> (\<forall>j\<in>{nxt..<r}. procs ! nat j \<noteq> PNull)) \<or>
     ((\<forall>j\<in>{nxt..<256}. procs ! nat j \<noteq> PNull) \<and> pid_second procs old off r)"

lemma pid_found_skip:
  assumes "pid_found procs off old (nxt + 1) r" and "procs ! nat nxt \<noteq> PNull"
  shows "pid_found procs off old nxt r"
  using assms(1) unfolding pid_found_def
proof (elim disjE conjE)
  assume a: "nxt + 1 \<le> r" "r < 256" "procs ! nat r = PNull" "\<forall>j\<in>{nxt + 1..<r}. procs ! nat j \<noteq> PNull"
  have "\<forall>j\<in>{nxt..<r}. procs ! nat j \<noteq> PNull"
    by (rule ball_int_Cons) (use a assms in auto)
  with a show "nxt \<le> r \<and> r < 256 \<and> procs ! nat r = PNull \<and> (\<forall>j\<in>{nxt..<r}. procs ! nat j \<noteq> PNull) \<or>
      (\<forall>j\<in>{nxt..<256}. procs ! nat j \<noteq> PNull) \<and> pid_second procs old off r"
    by simp
next
  assume a: "\<forall>j\<in>{nxt + 1..<256}. procs ! nat j \<noteq> PNull" "pid_second procs old off r"
  have "\<forall>j\<in>{nxt..<256}. procs ! nat j \<noteq> PNull"
    by (rule ball_int_Cons) (use a assms in auto)
  with a show "nxt \<le> r \<and> r < 256 \<and> procs ! nat r = PNull \<and> (\<forall>j\<in>{nxt..<r}. procs ! nat j \<noteq> PNull) \<or>
      (\<forall>j\<in>{nxt..<256}. procs ! nat j \<noteq> PNull) \<and> pid_second procs old off r"
    by blast
qed

lemma nextPid_first:
  assumes "length procs = 256" and "0 \<le> off" and "off \<le> old" and "old \<le> nxt" and "nxt < 256" and "first \<or> old \<noteq> nxt"
  shows "\<exists>r. nextPid_loop procs off old nxt first = Some r \<and> pid_found procs off old nxt r"
  using assms(4-6)
proof (induction "nat (256 - nxt)" arbitrary: nxt first)
  case (Suc k)
  show ?case
  proof (cases "procs ! nat nxt = PNull")
    case True
    then have "nextPid_loop procs off old nxt first = Some nxt"
      using nextPid_stop [of procs nxt first old off] Suc.prems assms by simp
    with True Suc.prems show ?thesis
      by (simp add: pid_found_def)
  next
    case False
    note step = nextPid_step [of procs nxt first old off, OF assms(1) _ _ False Suc.prems(3)]
    show ?thesis
    proof (cases "nxt = 255")
      case True
      then have "nextPid_loop procs off old nxt first = nextPid_loop procs off old off False"
        using step by simp
      moreover obtain r where "nextPid_loop procs off old off False = Some r" "pid_second procs old off r"
        using nextPid_second [of procs old off off] assms Suc.prems by auto
      moreover have "{nxt..<256} = {255}"
        using True by auto
      ultimately show ?thesis
        using False True by (auto simp: pid_found_def)
    next
      case ne: False
      have k: "k = nat (256 - (nxt + 1))"
        using Suc.hyps(2) by simp
      obtain r where "nextPid_loop procs off old (nxt + 1) False = Some r" "pid_found procs off old (nxt + 1) r"
        using Suc.hyps(1) [OF k, of False] ne Suc.prems by auto
      moreover have "nextPid_loop procs off old nxt first = nextPid_loop procs off old (nxt + 1) False"
        using step ne Suc.prems assms by simp
      ultimately show ?thesis
        using pid_found_skip False by metis
    qed
  qed
qed simp

lemma getNextPid_run:
  assumes "procs_wf s"
  shows "\<exists>r. getNextPid s = Some (if slot s r = PNull then r else NIL_PID, s\<lparr>nextPid := r\<rparr>) \<and>
    pid_found (sosProcs s) (tidOffset s) (nextPid s) (nextPid s) r \<and> tidOffset s \<le> r \<and> r < 256"
proof -
  have w: "length (sosProcs s) = 256" "0 \<le> tidOffset s" "tidOffset s \<le> nextPid s" "nextPid s < 256"
    using assms by (auto simp: procs_wf_def)
  then obtain r where r: "nextPid_loop (sosProcs s) (tidOffset s) (nextPid s) (nextPid s) True = Some r"
      "pid_found (sosProcs s) (tidOffset s) (nextPid s) (nextPid s) r"
    using nextPid_first [of "sosProcs s" "tidOffset s" "nextPid s" "nextPid s" True] by auto
  then have b: "tidOffset s \<le> r" "r < 256"
    using w by (auto simp: pid_found_def pid_second_def)
  then have "process_lookup r (s\<lparr>nextPid := r\<rparr>) = Some (slot s r)"
    using process_lookup_in [of "s\<lparr>nextPid := r\<rparr>" r] w by (simp add: slot_def)
  with r b show ?thesis
    by (auto simp: getNextPid_def)
qed

lemma pid_found_free:
  assumes "pid_found procs off old old r" and "procs ! nat r \<noteq> PNull"
  shows "r = old \<and> (\<forall>j\<in>{off..<256}. procs ! nat j \<noteq> PNull)"
proof -
  have r: "r = old" "\<forall>j\<in>{old..<256}. procs ! nat j \<noteq> PNull" "\<forall>j\<in>{off..<old}. procs ! nat j \<noteq> PNull"
    using assms by (auto simp: pid_found_def pid_second_def)
  have "procs ! nat j \<noteq> PNull" if "j \<in> {off..<256}" for j
    using that r(2,3) by (cases "j < old") auto
  with r(1) show ?thesis by blast
qed

text \<open>
  C21. \<^verbatim>\<open>getNextPid\<close> always returns, whatever the table holds. If some pid from the offset up is
  free it returns a free one, the first in circular order from where the last search stopped;
  otherwise it returns \<^verbatim>\<open>NIL_PID\<close>. It changes nothing but the position of the next search.
\<close>

theorem getNextPid_correct:
  assumes "procs_wf s"
  shows "\<exists>pid r. getNextPid s = Some (pid, s\<lparr>nextPid := r\<rparr>) \<and> procs_wf (s\<lparr>nextPid := r\<rparr>) \<and>
    (if \<exists>i\<in>{tidOffset s..<256}. slot s i = PNull
     then pid = r \<and> slot s pid = PNull \<and> tidOffset s \<le> pid \<and>
       (if nextPid s \<le> pid then \<forall>j\<in>{nextPid s..<pid}. slot s j \<noteq> PNull
        else \<forall>j\<in>{nextPid s..<256} \<union> {tidOffset s..<pid}. slot s j \<noteq> PNull)
     else pid = NIL_PID \<and> r = nextPid s)"
proof -
  obtain r where r: "getNextPid s = Some (if slot s r = PNull then r else NIL_PID, s\<lparr>nextPid := r\<rparr>)"
      "pid_found (sosProcs s) (tidOffset s) (nextPid s) (nextPid s) r" "tidOffset s \<le> r" "r < 256"
    using getNextPid_run [OF assms] by blast
  have wf: "procs_wf (s\<lparr>nextPid := r\<rparr>)"
    using assms r(3,4) by (simp add: procs_wf_def)
  show ?thesis
  proof (cases "slot s r = PNull")
    case True
    then have "\<exists>i\<in>{tidOffset s..<256}. slot s i = PNull"
      using r(3,4) by auto
    moreover have "if nextPid s \<le> r then \<forall>j\<in>{nextPid s..<r}. slot s j \<noteq> PNull
        else \<forall>j\<in>{nextPid s..<256} \<union> {tidOffset s..<r}. slot s j \<noteq> PNull"
      using r(2) True unfolding pid_found_def pid_second_def slot_def by auto
    ultimately show ?thesis
      using r True wf by (intro exI [of _ r]) simp
  next
    case False
    then have "r = nextPid s" "\<forall>j\<in>{tidOffset s..<256}. slot s j \<noteq> PNull"
      using pid_found_free [OF r(2)] by (auto simp: slot_def)
    then show ?thesis
      using r(1) False wf by (intro exI [of _ NIL_PID] exI [of _ r]) simp
  qed
qed

definition procs_example :: proc_st where
  "procs_example = \<lparr>mem = \<lambda>_. 0, l4 = [], totalFrames = 0, firstFree = 0, totalInUse = 0,
     copyInOutBuffer = \<lambda>_. NUL, virtualPager = (4, 1), now = 0, heapOk = True,
     sosProcs = replicate 256 PNull, nextPid = 10, tidOffset = 4, last_thread_s = 3,
     last_thread_disabled_s = True\<rparr>"

theorem getNextPid_correct_witness:
  "procs_wf procs_example \<and> (\<exists>r. getNextPid procs_example = Some (r, procs_example\<lparr>nextPid := r\<rparr>) \<and> slot procs_example r = PNull)"
proof -
  have w: "procs_wf procs_example"
    by (simp add: procs_wf_def procs_example_def)
  have "\<exists>i\<in>{tidOffset procs_example..<256}. slot procs_example i = PNull"
    by (rule bexI [of _ 10]) (simp_all add: slot_def procs_example_def)
  with w getNextPid_correct [OF w] show ?thesis by auto
qed

section \<open>Reserving pids\<close>

text \<open>Reserving \<open>n\<close> pids in a row.\<close>

fun reserve_n :: "nat \<Rightarrow> 'z proc_st_scheme \<Rightarrow> (int list \<times> 'z proc_st_scheme) option" where
  "reserve_n 0 s = Some ([], s)"
| "reserve_n (Suc n) s = do { (pid, s) \<leftarrow> reserve_pid s; (pids, s) \<leftarrow> reserve_n n s; Some (pid # pids, s) }"

definition free_pids :: "'z proc_st_scheme \<Rightarrow> int set" where
  "free_pids s = {i. tidOffset s \<le> i \<and> i < 256 \<and> slot s i = PNull}"

lemma reserve_pid_spec:
  assumes "procs_wf s"
  shows "\<exists>pid s'. reserve_pid s = Some (pid, s') \<and> procs_wf s' \<and> tidOffset s' = tidOffset s \<and>
    (if free_pids s = {} then pid = NIL_PID \<and> free_pids s' = {}
     else pid \<in> free_pids s \<and> free_pids s' = free_pids s - {pid})"
proof -
  obtain r where r: "getNextPid s = Some (if slot s r = PNull then r else NIL_PID, s\<lparr>nextPid := r\<rparr>)"
      "pid_found (sosProcs s) (tidOffset s) (nextPid s) (nextPid s) r" "tidOffset s \<le> r" "r < 256"
    using getNextPid_run [OF assms] by blast
  have w: "length (sosProcs s) = 256" "0 \<le> tidOffset s"
    using assms by (auto simp: procs_wf_def)
  let ?s = "s\<lparr>nextPid := r\<rparr>"
  show ?thesis
  proof (cases "slot s r = PNull")
    case True
    have "processExists r ?s = Some False"
      using r w True process_lookup_in [of ?s r] by (simp add: processExists_def slot_def)
    moreover have "set_slot r PPlaceholder ?s = Some (?s\<lparr>sosProcs := (sosProcs s)[nat r := PPlaceholder]\<rparr>)"
      using set_slot_in [of ?s r PPlaceholder] r w by simp
    ultimately have "reserve_pid s = Some (r, ?s\<lparr>sosProcs := (sosProcs s)[nat r := PPlaceholder]\<rparr>)"
      using r True w by (simp add: reserve_pid_def)
    moreover have "free_pids (?s\<lparr>sosProcs := (sosProcs s)[nat r := PPlaceholder]\<rparr>) = free_pids s - {r}"
    proof -
      have sl: "slot (?s\<lparr>sosProcs := (sosProcs s)[nat r := PPlaceholder]\<rparr>) j =
          (if j = r then PPlaceholder else slot s j)" if "tidOffset s \<le> j" for j
        using slot_upd [of ?s r j PPlaceholder] that r w by (simp add: slot_def)
      show ?thesis
        by (auto simp: free_pids_def sl split: if_splits)
    qed
    moreover have "r \<in> free_pids s"
      using True r by (simp add: free_pids_def)
    ultimately show ?thesis
      using assms r by (auto simp: procs_wf_def)
  next
    case False
    then have "free_pids s = {}" "free_pids ?s = {}"
      using pid_found_free [OF r(2)] by (auto simp: free_pids_def slot_def)
    then show ?thesis
      using r False assms by (simp add: reserve_pid_def procs_wf_def)
  qed
qed

text \<open>
  C19. Reserving pids one after the other never fails, never hands out a pid twice, hands out only
  pids that were free, and gives \<^verbatim>\<open>NIL_PID\<close> exactly when all free ones have been handed out.
\<close>

theorem reserve_pids_distinct:
  assumes "procs_wf s"
  shows "\<exists>pids s'. reserve_n n s = Some (pids, s') \<and>
    (let got = filter (\<lambda>p. p \<noteq> NIL_PID) pids in
       distinct got \<and> set got \<subseteq> free_pids s \<and> length got = min n (card (free_pids s)) \<and>
       free_pids s' = free_pids s - set got)"
  using assms
proof (induction n arbitrary: s)
  case 0
  then show ?case by simp
next
  case (Suc n)
  have fin: "finite (free_pids s)"
    by (rule finite_subset [of _ "{tidOffset s..<256}"]) (auto simp: free_pids_def)
  obtain pid s1 where p: "reserve_pid s = Some (pid, s1)" "procs_wf s1"
      "if free_pids s = {} then pid = NIL_PID \<and> free_pids s1 = {}
       else pid \<in> free_pids s \<and> free_pids s1 = free_pids s - {pid}"
    using reserve_pid_spec [OF Suc.prems] by blast
  obtain pids s2 where q: "reserve_n n s1 = Some (pids, s2)"
      "distinct (filter (\<lambda>p. p \<noteq> NIL_PID) pids)" "set (filter (\<lambda>p. p \<noteq> NIL_PID) pids) \<subseteq> free_pids s1"
      "length (filter (\<lambda>p. p \<noteq> NIL_PID) pids) = min n (card (free_pids s1))"
      "free_pids s2 = free_pids s1 - set (filter (\<lambda>p. p \<noteq> NIL_PID) pids)"
    using Suc.IH [OF p(2)] unfolding Let_def by blast
  have "pid \<noteq> NIL_PID" if "pid \<in> free_pids s"
    using that Suc.prems by (auto simp: free_pids_def procs_wf_def)
  moreover have "card (free_pids s) = Suc (card (free_pids s - {pid}))" if "pid \<in> free_pids s"
    using that fin by (metis card_Suc_Diff1)
  ultimately show ?case
    using p q by (cases "free_pids s = {}") (auto simp: Let_def)
qed

theorem reserve_pids_distinct_witness:
  "procs_wf procs_example \<and> (\<exists>pids s'. reserve_n 3 procs_example = Some (pids, s') \<and>
    distinct (filter (\<lambda>p. p \<noteq> NIL_PID) pids) \<and> set (filter (\<lambda>p. p \<noteq> NIL_PID) pids) \<subseteq> free_pids procs_example)"
proof -
  have w: "procs_wf procs_example"
    by (simp add: procs_wf_def procs_example_def)
  from w reserve_pids_distinct [OF w, of 3] show ?thesis
    unfolding Let_def by blast
qed

section \<open>Replies\<close>

text \<open>What \<^verbatim>\<open>syscall_reply_v\<close> asks of the microkernel for a process that exists.\<close>

definition reply_trace :: "L4_ThreadId_t \<Rightarrow> u32 list \<Rightarrow> Process \<Rightarrow> l4_call list" where
  "reply_trace tid ws p = (if ipc_accept (info p) = PS_IPC_NONE then []
     else CacheFlushAll #
       (if ps_state (info p) \<in> {PS_STATE_ZOMBIE, PS_STATE_START} then []
        else [Ipc tid (if ipc_accept (info p) = PS_IPC_BLOCKING then SOS_IPC_SEND else SOS_IPC_REPLY)
                (syscall_word SOS_REPLY) ws]))"

lemma syscall_reply_v_run:
  assumes "process_lookup (fst tid) s = Some (PProc p)" and "tid \<noteq> (0, 1)" and "tid \<noteq> (0, 0)"
  shows "syscall_reply_v tid ws s = Some (s\<lparr>l4 := l4 s @ reply_trace tid ws p\<rparr>)"
  using assms
  by (auto simp: syscall_reply_v_def reply_trace_def process_get_ipcfilt_def process_get_state_def send_defs Let_def)

lemma syscall_reply_v_gone:
  "process_lookup (fst tid) s = Some PNull \<Longrightarrow> syscall_reply_v tid ws s = Some s"
  by (simp add: syscall_reply_v_def)

section \<open>Waking\<close>

definition woken :: "Process \<Rightarrow> Process" where
  "woken p = process_set_state PS_STATE_ALIVE (p\<lparr>waitingOn := WAIT_NOBODY\<rparr>)"

definition wakes :: "int \<Rightarrow> procslot \<Rightarrow> bool" where
  "wakes wakeFor sl \<longleftrightarrow> (case sl of PProc p \<Rightarrow> waitingOn p = wakeFor | _ \<Rightarrow> False)"

definition wake_slot :: "int \<Rightarrow> procslot \<Rightarrow> procslot" where
  "wake_slot wakeFor sl = (case sl of PProc p \<Rightarrow> if waitingOn p = wakeFor then PProc (woken p) else sl | _ \<Rightarrow> sl)"

definition wake_reply :: "int \<Rightarrow> int \<Rightarrow> int \<Rightarrow> procslot \<Rightarrow> l4_call list" where
  "wake_reply wakeFor wakeFrom i sl = (case sl of
     PProc p \<Rightarrow> if waitingOn p = wakeFor then reply_trace (i, 1) [word_of_int wakeFrom] (woken p) else []
   | _ \<Rightarrow> [])"

text \<open>Every PCB is at the index of its pid.\<close>

definition pids_wf :: "'z proc_st_scheme \<Rightarrow> bool" where
  "pids_wf s \<longleftrightarrow> length (sosProcs s) = 256 \<and> 0 < tidOffset s \<and>
     (\<forall>i p. tidOffset s \<le> i \<longrightarrow> i < 256 \<longrightarrow> slot s i = PProc p \<longrightarrow> ps_pid (info p) = i)"

lemma wake_one_run:
  assumes "pids_wf s" and "tidOffset s \<le> i" and "i < 256"
  shows "wake_one wakeFor wakeFrom i s =
    Some (s\<lparr>sosProcs := (sosProcs s)[nat i := wake_slot wakeFor (slot s i)],
            l4 := l4 s @ wake_reply wakeFor wakeFrom i (slot s i)\<rparr>)"
proof -
  have w: "length (sosProcs s) = 256" "0 < i"
    using assms by (auto simp: pids_wf_def)
  have lk: "process_lookup i s = Some (slot s i)"
    using process_lookup_in [of s i] w assms by simp
  have id: "(sosProcs s)[nat i := slot s i] = sosProcs s"
    by (simp add: slot_def)
  show ?thesis
  proof (cases "wakes wakeFor (slot s i)")
    case False
    then show ?thesis
      using lk assms id
      by (cases "slot s i") (auto simp: wake_one_def processExists_def wakes_def wake_slot_def wake_reply_def)
  next
    case True
    then obtain p where p: "slot s i = PProc p" "waitingOn p = wakeFor"
      by (cases "slot s i") (auto simp: wakes_def)
    let ?s = "s\<lparr>sosProcs := (sosProcs s)[nat i := PProc (woken p)]\<rparr>"
    have up: "upd_proc i (\<lambda>p. process_set_state PS_STATE_ALIVE (p\<lparr>waitingOn := WAIT_NOBODY\<rparr>)) s = Some ?s"
      using lk p set_slot_in [of s i "PProc (woken p)"] w assms by (simp add: upd_proc_def woken_def)
    have "process_lookup i ?s = Some (PProc (woken p))"
      using process_lookup_in [of ?s i] slot_upd [of s i i "PProc (woken p)"] w assms by simp
    then have "syscall_reply (i, 1) (word_of_int wakeFrom) ?s =
        Some (?s\<lparr>l4 := l4 s @ reply_trace (i, 1) [word_of_int wakeFrom] (woken p)\<rparr>)"
      using w syscall_reply_v_run [of "(i, 1)" ?s "woken p"] by (simp add: syscall_reply_def)
    moreover have "ps_pid (info p) = i"
      using assms p by (auto simp: pids_wf_def)
    ultimately show ?thesis
      using lk p up assms by (simp add: wake_one_def processExists_def wake_slot_def wake_reply_def)
  qed
qed

lemma woken_pid [simp]: "ps_pid (info (woken p)) = ps_pid (info p)"
  by (simp add: woken_def process_set_state_def)

lemma wake_slot_cases: "wake_slot w sl = PProc q \<Longrightarrow> \<exists>p. sl = PProc p \<and> ps_pid (info q) = ps_pid (info p)"
  by (cases sl) (auto simp: wake_slot_def split: if_splits)

lemma wake_pids_wf:
  assumes "pids_wf s" and "tidOffset s \<le> i" and "i < 256"
  shows "pids_wf (s\<lparr>sosProcs := (sosProcs s)[nat i := wake_slot w (slot s i)], l4 := tr\<rparr>)"
proof -
  have "slot (s\<lparr>sosProcs := (sosProcs s)[nat i := wake_slot w (slot s i)], l4 := tr\<rparr>) j =
      (if j = i then wake_slot w (slot s i) else slot s j)" if "0 \<le> j" for j
    using slot_upd [of s i j "wake_slot w (slot s i)"] assms that by (simp add: slot_def pids_wf_def)
  then show ?thesis
    using assms by (auto simp: pids_wf_def dest!: wake_slot_cases)
qed

lemma wake_fold:
  "pids_wf s \<Longrightarrow> distinct is \<Longrightarrow> set is \<subseteq> {tidOffset s..<256} \<Longrightarrow>
   \<exists>t. fold_opt (wake_one wakeFor wakeFrom) is s = Some (s\<lparr>sosProcs := t,
       l4 := l4 s @ concat (map (\<lambda>i. wake_reply wakeFor wakeFrom i (slot s i)) is)\<rparr>) \<and> length t = 256 \<and>
     (\<forall>j\<ge>0. t ! nat j = (if j \<in> set is then wake_slot wakeFor (slot s j) else slot s j))"
proof (induction "is" arbitrary: s)
  case Nil
  then show ?case
    by (intro exI [of _ "sosProcs s"]) (simp add: slot_def pids_wf_def)
next
  case (Cons i "is")
  let ?s = "s\<lparr>sosProcs := (sosProcs s)[nat i := wake_slot wakeFor (slot s i)],
            l4 := l4 s @ wake_reply wakeFor wakeFrom i (slot s i)\<rparr>"
  have i: "tidOffset s \<le> i" "i < 256" "0 \<le> i" "length (sosProcs s) = 256"
    using Cons.prems by (auto simp: pids_wf_def)
  have sl: "slot ?s j = (if j = i then wake_slot wakeFor (slot s i) else slot s j)" if "0 \<le> j" for j
    using slot_upd [of s i j "wake_slot wakeFor (slot s i)"] i that by (simp add: slot_def)
  have mp: "map (\<lambda>j. wake_reply wakeFor wakeFrom j (slot ?s j)) is = map (\<lambda>j. wake_reply wakeFor wakeFrom j (slot s j)) is"
  proof (rule map_cong [OF refl])
    fix j assume "j \<in> set is"
    moreover then have "0 \<le> j"
      using Cons.prems(1,3) by (auto simp: pids_wf_def)
    ultimately show "wake_reply wakeFor wakeFrom j (slot ?s j) = wake_reply wakeFor wakeFrom j (slot s j)"
      using Cons.prems(2) sl [of j] by auto
  qed
  have dis: "distinct is" and rng: "set is \<subseteq> {tidOffset ?s..<256}"
    using Cons.prems(2,3) by auto
  obtain t where t: "fold_opt (wake_one wakeFor wakeFrom) is ?s = Some (?s\<lparr>sosProcs := t,
      l4 := l4 ?s @ concat (map (\<lambda>j. wake_reply wakeFor wakeFrom j (slot ?s j)) is)\<rparr>)" "length t = 256"
      "\<forall>j\<ge>0. t ! nat j = (if j \<in> set is then wake_slot wakeFor (slot ?s j) else slot ?s j)"
    using Cons.IH [OF wake_pids_wf [OF Cons.prems(1) i(1,2), of "l4 s @ wake_reply wakeFor wakeFrom i (slot s i)" wakeFor] dis rng]
    by (elim exE conjE) (rule that; assumption)
  have "\<forall>j\<ge>0. t ! nat j = (if j \<in> set (i # is) then wake_slot wakeFor (slot s j) else slot s j)"
    using t(3) sl Cons.prems(2) by auto
  then show ?case
    using wake_one_run [OF Cons.prems(1) i(1,2), of wakeFor wakeFrom] t(1,2) unfolding mp
    by (intro exI [of _ t]) simp
qed

text \<open>
  C20. \<^verbatim>\<open>wakeAll\<close> always succeeds, and wakes exactly the processes that wait for the given pid: their
  state becomes alive and they wait for nobody, every other slot of the table is as before, and
  the messages sent are one reply to each of them, in pid order, carrying the pid that woke them.
\<close>

theorem wakeAll_wakes_waiters:
  assumes "pids_wf s"
  shows "\<exists>t. wakeAll wakeFor wakeFrom s = Some (s\<lparr>sosProcs := t,
      l4 := l4 s @ concat (map (\<lambda>i. wake_reply wakeFor wakeFrom i (slot s i)) [tidOffset s..255])\<rparr>) \<and>
    length t = 256 \<and>
    (\<forall>i\<in>{0..<256}. t ! nat i = (if tidOffset s \<le> i then wake_slot wakeFor (slot s i) else slot s i))"
proof -
  have rng: "set [tidOffset s..255] \<subseteq> {tidOffset s..<256}"
    by auto
  obtain t where t: "fold_opt (wake_one wakeFor wakeFrom) [tidOffset s..255] s = Some (s\<lparr>sosProcs := t,
       l4 := l4 s @ concat (map (\<lambda>i. wake_reply wakeFor wakeFrom i (slot s i)) [tidOffset s..255])\<rparr>)"
      "length t = 256"
      "\<forall>j\<ge>0. t ! nat j = (if j \<in> set [tidOffset s..255] then wake_slot wakeFor (slot s j) else slot s j)"
    using wake_fold [OF assms distinct_upto rng, of wakeFor wakeFrom]
    by (elim exE conjE) (rule that; assumption)
  have "t ! nat i = (if tidOffset s \<le> i then wake_slot wakeFor (slot s i) else slot s i)" if "i \<in> {0..<256}" for i
    using t(3) that by auto
  then show ?thesis
    using t(1,2) by (intro exI [of _ t]) (simp add: wakeAll_def)
qed

text \<open>A table in which process 10 waits for process 12, and 11 waits for anybody.\<close>

definition proc_example :: "int \<Rightarrow> int \<Rightarrow> Process" where
  "proc_example pid w = \<lparr>info = \<lparr>ps_pid = pid, ps_size = 0, ps_stime = 0, ps_ctime = 0, ps_command = [],
     ps_state = (if w = WAIT_NOBODY then PS_STATE_ALIVE else PS_STATE_WAIT), ps_type = PS_TYPE_PROCESS,
     ipc_accept = PS_IPC_ALL\<rparr>, pagetable = 0, regions = [], sp = 0, ip = 0, startedAt = 0,
     fds = fst vfiles_init, files = snd vfiles_init, waitingOn = w, fin = None\<rparr>"

definition procs_waiting :: proc_st where
  "procs_waiting = procs_example\<lparr>sosProcs :=
     (replicate 256 PNull)[10 := PProc (proc_example 10 12), 11 := PProc (proc_example 11 (-1))]\<rparr>"

lemma procs_waiting_slot:
  "0 \<le> i \<Longrightarrow> i < 256 \<Longrightarrow> slot procs_waiting i = (if i = 10 then PProc (proc_example 10 12)
     else if i = 11 then PProc (proc_example 11 (-1)) else PNull)"
  by (auto simp: slot_def procs_waiting_def nth_list_update nat_eq_iff)

lemma procs_waiting_wf: "pids_wf procs_waiting"
  unfolding pids_wf_def
proof (intro conjI allI impI)
  fix i p
  assume "tidOffset procs_waiting \<le> i" "i < 256" "slot procs_waiting i = PProc p"
  then show "ps_pid (info p) = i"
    using procs_waiting_slot [of i]
    by (auto simp: procs_waiting_def procs_example_def proc_example_def split: if_splits)
qed (simp_all add: procs_waiting_def procs_example_def)

theorem wakeAll_wakes_waiters_witness:
  "\<exists>t. wakeAll 12 12 procs_waiting = Some (procs_waiting\<lparr>sosProcs := t,
      l4 := [CacheFlushAll, Ipc (10, 1) SOS_IPC_REPLY (syscall_word SOS_REPLY) [12]]\<rparr>) \<and>
    t ! 10 = PProc (woken (proc_example 10 12)) \<and> t ! 11 = PProc (proc_example 11 (-1))"
proof -
  obtain t where t: "wakeAll 12 12 procs_waiting = Some (procs_waiting\<lparr>sosProcs := t,
      l4 := l4 procs_waiting @ concat (map (\<lambda>i. wake_reply 12 12 i (slot procs_waiting i)) [tidOffset procs_waiting..255])\<rparr>)"
    "\<forall>i\<in>{0..<256}. t ! nat i =
       (if tidOffset procs_waiting \<le> i then wake_slot 12 (slot procs_waiting i) else slot procs_waiting i)"
    using wakeAll_wakes_waiters [OF procs_waiting_wf, of 12 12] by (elim exE conjE) (rule that; assumption)
  have off: "tidOffset procs_waiting = 4" "l4 procs_waiting = []"
    by (simp_all add: procs_waiting_def procs_example_def)
  have "[4..255::int] = [4..9] @ 10 # [11..255]"
    by (simp add: upto_rec1 upto_split1)
  moreover have "concat (map (\<lambda>i. wake_reply 12 12 i (slot procs_waiting i)) [4..9]) = []"
    "concat (map (\<lambda>i. wake_reply 12 12 i (slot procs_waiting i)) [11..255]) = []"
    by (auto simp: procs_waiting_slot wake_reply_def proc_example_def)
  ultimately have "concat (map (\<lambda>i. wake_reply 12 12 i (slot procs_waiting i)) [4..255]) =
      wake_reply 12 12 10 (slot procs_waiting 10)"
    by simp
  moreover have "wake_reply 12 12 10 (slot procs_waiting 10) =
      [CacheFlushAll, Ipc (10, 1) SOS_IPC_REPLY (syscall_word SOS_REPLY) [12]]"
    by (simp add: procs_waiting_slot wake_reply_def proc_example_def woken_def process_set_state_def reply_trace_def)
  moreover have "t ! nat 10 = PProc (woken (proc_example 10 12))" "t ! nat 11 = PProc (proc_example 11 (-1))"
    using bspec [OF t(2), of 10] bspec [OF t(2), of 11] off
    by (simp_all add: procs_waiting_slot wake_slot_def proc_example_def)
  ultimately show ?thesis
    using t(1) off by (intro exI [of _ t]) simp
qed

section \<open>The layout of an address space\<close>

lemma regionFindHighest_bounded:
  "d \<le> b \<Longrightarrow> \<forall>r\<in>set rs. sint (region_get_base r + region_get_size r) \<le> b \<Longrightarrow>
   fold regionFindHighest rs d \<le> b"
  by (induction rs arbitrary: d) (simp_all add: regionFindHighest_def Let_def)

text \<open>The top of a region, and regions that stay below the stack.\<close>

definition rg_top :: "Region \<Rightarrow> nat" where
  "rg_top r = unat (rg_base r) + unat (rg_size r)"

definition below_stack :: "Region list \<Rightarrow> bool" where
  "below_stack rs \<longleftrightarrow> list_all (\<lambda>r. rg_top r \<le> 0x7FEFF000) rs"

lemma below_stack_top:
  assumes "below_stack rs" and "r \<in> set rs"
  shows "sint (region_get_base r + region_get_size r) = int (rg_top r)"
proof -
  have "rg_top r \<le> 0x7FEFF000"
    using assms by (auto simp: below_stack_def list_all_iff)
  then have "unat (rg_base r + rg_size r) = rg_top r"
    by (simp add: rg_top_def unat_word_ariths)
  then show ?thesis
    using \<open>rg_top r \<le> 0x7FEFF000\<close> by (simp add: region_defs sint_small)
qed

lemma round_up_page:
  fixes a :: u32
  assumes "unat a \<le> 0x7FEFF000"
  shows "unat (round_up a PAGESIZE) = (unat a + 4095) div 4096 * 4096"
proof -
  have "NOT (PAGESIZE - 1) = 0xFFFFF000"
    by (simp add: not_eq_complement)
  moreover have "unat (a + 4095) = unat a + 4095"
    using assms by (simp add: unat_word_ariths)
  ultimately show ?thesis
    using page_div [of "a + 4095"] by (simp add: round_up_def del: PAGESIZE_def) simp
qed

lemma highest_region:
  fixes rs
  defines "h \<equiv> fold regionFindHighest rs 0"
  assumes "below_stack rs" and "\<exists>r\<in>set rs. 0 < rg_top r"
  shows "0 < h" and "unat (word_of_int h :: u32) = nat h" and "nat h \<le> 0x7FEFF000"
    and "\<forall>r\<in>set rs. int (rg_top r) \<le> h" and "\<exists>r\<in>set rs. int (rg_top r) = h"
proof -
  have top: "sint (region_get_base r + region_get_size r) = int (rg_top r)" if "r \<in> set rs" for r
    using below_stack_top [OF assms(2) that] .
  have ub: "\<forall>r\<in>set rs. int (rg_top r) \<le> h"
    using regionFindHighest_upper [of 0 rs] top by (simp add: h_def)
  have "h \<le> 0x7FEFF000"
    unfolding h_def
    by (rule regionFindHighest_bounded) (use assms(2) top in \<open>auto simp: below_stack_def list_all_iff\<close>)
  moreover have pos: "0 < h"
  proof -
    obtain r where "r \<in> set rs" "0 < rg_top r"
      using assms(3) by blast
    with ub have "0 < int (rg_top r)" "int (rg_top r) \<le> h"
      by simp_all
    then show ?thesis
      by (rule less_le_trans)
  qed
  ultimately have b: "unat (word_of_int h :: u32) = nat h" "nat h \<le> 0x7FEFF000"
    using unat_of_int_range [of h] by (simp_all add: nat_le_iff)
  have attained: "\<exists>r\<in>set rs. int (rg_top r) = h"
    using regionFindHighest_attained [of rs 0] pos top unfolding h_def [symmetric]
    by (metis less_irrefl)
  show "0 < h" and "unat (word_of_int h :: u32) = nat h" and "nat h \<le> 0x7FEFF000"
    and "\<forall>r\<in>set rs. int (rg_top r) \<le> h" and "\<exists>r\<in>set rs. int (rg_top r) = h"
    by (fact pos b ub attained)+
qed

text \<open>
  C23. The layout of a new address space. Let every region of the image end at or below the base of the
  stack, 0x7FEFF000, and let one of them end above 0; neither the loader nor \<^verbatim>\<open>addBuiltinRegions\<close> checks
  this of an ELF file. Then \<^verbatim>\<open>addBuiltinRegions\<close> keeps the regions and adds an empty heap and a 1MB stack:
  the heap starts on a page boundary, at or above the top of every image region and less than a page
  above the highest, and at or below the stack; the initial stack pointer is in the stack.
\<close>

theorem addBuiltinRegions_layout:
  assumes "below_stack (regions p)" and "\<exists>r\<in>set (regions p). 0 < rg_top r"
  shows "\<exists>heap stack. regions (addBuiltinRegions p) = regions p @ [heap, stack] \<and>
    rg_type heap = REGION_HEAP \<and> rg_size heap = 0 \<and> unat (rg_base heap) mod 4096 = 0 \<and>
    (\<forall>r\<in>set (regions p). rg_top r \<le> unat (rg_base heap)) \<and>
    (\<exists>r\<in>set (regions p). unat (rg_base heap) < rg_top r + 4096) \<and>
    rg_type stack = REGION_STACK \<and> unat (rg_base heap) \<le> unat (rg_base stack) \<and>
    rg_top stack = 0x7FFFF000 \<and> rg_size stack = ONE_MEG \<and>
    findRegion (sp (addBuiltinRegions p)) stack"
proof -
  define h where "h = fold regionFindHighest (regions p) 0"
  note hf = highest_region [OF assms, folded h_def]
  note pos = hf(1) and b = hf(2,3) and ub = hf(4) and attained = hf(5)
  let ?heap = "region_alloc REGION_HEAP (round_up (word_of_int h) PAGESIZE) 0 (REGION_READ OR REGION_WRITE) False"
  let ?stack = "region_alloc REGION_STACK (STACK_TOP - ONE_MEG) ONE_MEG (REGION_READ OR REGION_WRITE) False"
  have ne: "(word_of_int h :: u32) \<noteq> 0"
  proof
    assume "(word_of_int h :: u32) = 0"
    then have "nat h = 0"
      using b(1) by simp
    with pos show False by simp
  qed
  then have res: "addBuiltinRegions p = p\<lparr>regions := regions p @ [?heap, ?stack], sp := STACK_TOP - 3 * 4\<rparr>"
    by (simp add: addBuiltinRegions_def h_def [symmetric] Let_def process_add_region_def)
  have hb: "unat (rg_base ?heap) = (nat h + 4095) div 4096 * 4096"
    using round_up_page [of "word_of_int h"] b by (simp add: region_alloc_def)
  have st: "STACK_TOP = 0x7FFFF000"
    by (simp add: STACK_TOP_def mask_eq_exp_minus_1)
  have hp: "unat (rg_base ?heap) mod 4096 = 0" "nat h \<le> unat (rg_base ?heap)"
    "unat (rg_base ?heap) < nat h + 4096" "unat (rg_base ?heap) \<le> 0x7FEFF000"
    unfolding hb using b(2) by simp_all
  have "\<forall>r\<in>set (regions p). rg_top r \<le> unat (rg_base ?heap)"
  proof
    fix r
    assume "r \<in> set (regions p)"
    with ub have "int (rg_top r) \<le> h"
      by simp
    then have "rg_top r \<le> nat h"
      by simp
    with hp(2) show "rg_top r \<le> unat (rg_base ?heap)"
      by (rule order_trans [rotated])
  qed
  moreover have "\<exists>r\<in>set (regions p). unat (rg_base ?heap) < rg_top r + 4096"
    using attained hp(3) by (metis nat_int)
  moreover have "unat (rg_base ?stack) = 0x7FEFF000" "rg_top ?stack = 0x7FFFF000"
    "findRegion (STACK_TOP - 3 * 4) ?stack"
    by (simp_all add: region_alloc_def rg_top_def st findRegion_def region_defs)
  moreover have "rg_type ?heap = REGION_HEAP" "rg_size ?heap = 0" "rg_type ?stack = REGION_STACK" "rg_size ?stack = ONE_MEG"
    by (simp_all add: region_alloc_def)
  ultimately show ?thesis
    using hp(1,4) unfolding res
    by (intro exI [of _ ?heap] exI [of _ ?stack]) simp
qed

theorem addBuiltinRegions_layout_witness:
  "\<exists>heap stack. regions (addBuiltinRegions ((proc_example 10 (-2))\<lparr>regions := [region_alloc REGION_OTHER 0x01000000 0x1234 5 False]\<rparr>)) =
    [region_alloc REGION_OTHER 0x01000000 0x1234 5 False, heap, stack] \<and>
    0x01001234 \<le> unat (rg_base heap) \<and> rg_top stack = 0x7FFFF000"
  using addBuiltinRegions_layout [of "(proc_example 10 (-2))\<lparr>regions := [region_alloc REGION_OTHER 0x01000000 0x1234 5 False]\<rparr>"]
  by (fastforce simp: below_stack_def rg_top_def region_alloc_def)

lemma sint_upper_half:
  fixes w :: u32
  assumes "2 ^ 31 \<le> unat w"
  shows "sint w \<le> 0"
proof (rule ccontr)
  assume "\<not> sint w \<le> 0"
  moreover have "sint w < 2 ^ 31"
    using sint_lt [of w] by simp
  ultimately have "take_bit 32 (sint w) = sint w"
    by (intro take_bit_int_eq_self) simp_all
  then have "uint w < 2 ^ 31"
    using uint_sint [of w] \<open>sint w < 2 ^ 31\<close> by simp
  moreover have "int (2 ^ 31) \<le> int (unat w)"
    using assms by (simp only: of_nat_le_iff)
  ultimately show False
    by simp
qed

lemma high_top_negative:
  assumes "2 ^ 31 \<le> rg_top r" and "rg_top r < 2 ^ 32"
  shows "sint (region_get_base r + region_get_size r) \<le> 0"
proof -
  have "unat (rg_base r + rg_size r) = rg_top r"
    using assms(2) by (simp add: rg_top_def unat_word_ariths)
  then show ?thesis
    using assms(1) sint_upper_half [of "rg_base r + rg_size r"] by (simp add: region_defs)
qed

text \<open>
  C28. The search for the top of the image compares addresses as signed numbers. When every region of the
  image ends in the upper half of the address space, it finds none, \<^verbatim>\<open>addBuiltinRegions\<close> takes the process
  for one without an image, and the process gets neither a heap nor a stack nor a stack pointer.
\<close>

theorem high_image_no_stack:
  assumes "\<forall>r\<in>set (regions p). 2 ^ 31 \<le> rg_top r \<and> rg_top r < 2 ^ 32"
  shows "addBuiltinRegions p = p"
proof -
  have "fold regionFindHighest (regions p) 0 \<le> 0"
    using assms high_top_negative by (intro regionFindHighest_bounded) auto
  moreover have "0 \<le> fold regionFindHighest (regions p) 0"
    using regionFindHighest_upper by blast
  ultimately have "fold regionFindHighest (regions p) 0 = 0"
    by simp
  then show ?thesis
    by (simp add: addBuiltinRegions_def)
qed

theorem high_image_no_stack_witness:
  "regions (addBuiltinRegions ((proc_example 10 (-2))\<lparr>regions := [region_alloc REGION_OTHER 0x80000000 0x1000 5 False]\<rparr>)) =
    [region_alloc REGION_OTHER 0x80000000 0x1000 5 False]"
  using high_image_no_stack [of "(proc_example 10 (-2))\<lparr>regions := [region_alloc REGION_OTHER 0x80000000 0x1000 5 False]\<rparr>"]
  by (simp add: rg_top_def region_alloc_def)

end
