(* ===== verification/Vnodes.thy ===== *)
theory Vnodes
  imports ProcessProps
begin

text \<open>
  The data of the virtual file system and the part of \<^verbatim>\<open>src/sos/vfs.c\<close> below the file systems:
  the list of open vnodes, their reference counts, the descriptor tables of the processes, and
  the callbacks that finish an open, close, read or write. Vnodes live in a heap and point to
  each other; following a null pointer or one that has been freed fails.
\<close>

section \<open>Data\<close>

definition ST_SPECIAL :: u32 where
  [simp]: "ST_SPECIAL = 0"
definition ST_FILE :: u32 where
  [simp]: "ST_FILE = 1"
definition ST_DIR :: u32 where
  [simp]: "ST_DIR = 2"

record stat_t =
  st_type :: u32
  st_fmode :: u8
  st_size :: u32
  st_ctime :: u32
  st_atime :: u32
  st2_ctime :: u64
  st2_atime :: u64

type_synonym cookie = "char list"

text \<open>
  \<open>extra\<close> points to the static \<^verbatim>\<open>Console_File\<close>, or to an \<^verbatim>\<open>NFS_File\<close>, held here by value; its
  file handle is unset until the server has answered. The eight function pointers of a vnode are
  always set together: they are all null, the console's, or those of the NFS file system.
\<close>

datatype vextra = ExNull | ExConsole | ExNfs "cookie option"

datatype vops = OpsNull | OpsConsole | OpsNfs

record VNode =
  vpath :: string
  vstat :: stat_t
  Max_Readers :: u32
  Max_Writers :: u32
  readers :: u32
  writers :: u32
  extra :: vextra
  previous :: u32
  vnext :: u32
  vops :: vops

text \<open>
  The state of the file system. \<open>vnode_addr\<close> is what \<^verbatim>\<open>malloc\<close> returns for the next vnode (0 when
  it fails) and \<open>vnode_stat\<close> what that memory holds: both are set by the environment. The
  \<^verbatim>\<open>stat_t\<close> values written to the copy buffers are kept by the offset they are written at.
\<close>

record vfs_st = proc_st +
  vnodes :: "u32 \<rightharpoonup> VNode"
  GlobalVNodes :: u32
  vnode_addr :: u32
  vnode_stat :: stat_t
  statBuffer :: "nat \<Rightarrow> stat_t"

definition upd_vnode :: "u32 \<Rightarrow> (VNode \<Rightarrow> VNode) \<Rightarrow> 'z vfs_st_scheme \<Rightarrow> 'z vfs_st_scheme option" where
  "upd_vnode a f s = do { v \<leftarrow> vnodes s a; Some (s\<lparr>vnodes := (vnodes s)(a \<mapsto> f v)\<rparr>) }"

text \<open>\<^verbatim>\<open>syscall_reply(PS_GET_TID(pid), status)\<close>.\<close>

definition reply_pid :: "int \<Rightarrow> int \<Rightarrow> 'z proc_st_scheme \<Rightarrow> 'z proc_st_scheme option" where
  "reply_pid pid status s = do {
     sl \<leftarrow> process_lookup pid s;
     tid \<leftarrow> process_get_tid sl;
     syscall_reply tid (word_of_int status) s }"

section \<open>Descriptors\<close>

text \<open>
  \<^verbatim>\<open>findNextFd\<close> with two different result variables: the first free descriptor and the first
  free file, \<^verbatim>\<open>VFS_NIL_FILE\<close> where there is none, and whether both were found.
\<close>

definition first_index :: "('a \<Rightarrow> bool) \<Rightarrow> 'a list \<Rightarrow> int" where
  "first_index P xs = (case find (\<lambda>i. P (xs ! i)) [0..<length xs] of None \<Rightarrow> VFS_NIL_FILE | Some i \<Rightarrow> int i)"

definition findNextFd :: "Process \<Rightarrow> bool \<times> int \<times> int" where
  "findNextFd p = (let
       fds1 = first_index (\<lambda>f. f = VFS_NIL_FILE) (fds p);
       fds2 = first_index (\<lambda>vf. vf_vnode vf = 0) (files p) in
     (\<not> (fds1 = VFS_NIL_FILE \<or> fds2 = VFS_NIL_FILE), fds1, fds2))"

text \<open>With one variable for both results, as \<^verbatim>\<open>vfs_open\<close> calls it, the second search only
  overwrites the result of the first when it finds a file.\<close>

definition findNextFd_alias :: "Process \<Rightarrow> bool" where
  "findNextFd_alias p = (let
       d = first_index (\<lambda>f. f = VFS_NIL_FILE) (fds p);
       fds2 = first_index (\<lambda>vf. vf_vnode vf = 0) (files p);
       d = (if fds2 = VFS_NIL_FILE then d else fds2) in
     d \<noteq> VFS_NIL_FILE)"

text \<open>
  \<^verbatim>\<open>get_vfile\<close> returns the index of a file in the table of the process, and replies on an error
  when it is asked to.
\<close>

definition get_vfile :: "int \<Rightarrow> int \<Rightarrow> bool \<Rightarrow> 'z proc_st_scheme \<Rightarrow> (nat option \<times> 'z proc_st_scheme) option" where
  "get_vfile pid file ipc s = do {
     sl \<leftarrow> process_lookup pid s;
     if sl = PNull then Some (None, s)
     else do {
       p \<leftarrow> deref sl;
       tid \<leftarrow> process_get_tid sl;
       let err = (if ipc then do { s \<leftarrow> syscall_reply tid (word_of_int SOS_VFS_NOFILE) s; Some (None, s) }
                  else Some (None, s));
       if file < 0 \<or> file \<ge> int PROCESS_MAX_FDS then err
       else do {
         i \<leftarrow> arr_get (fds p) (nat file);
         if i < 0 \<or> i \<ge> int PROCESS_MAX_FILES then err
         else do {
           vf \<leftarrow> arr_get (files p) (nat i);
           if vf_vnode vf = 0 then err else Some (Some (nat i), s) } } } }"

definition vfs_isopen :: "int \<Rightarrow> int \<Rightarrow> 'z proc_st_scheme \<Rightarrow> bool option" where
  "vfs_isopen pid fd s = do { (vf, s) \<leftarrow> get_vfile pid fd False s; Some (vf \<noteq> None) }"

text \<open>The file at an index, and changing it in the table of the process.\<close>

definition vfile_at :: "int \<Rightarrow> nat \<Rightarrow> 'z proc_st_scheme \<Rightarrow> VFile option" where
  "vfile_at pid i s = do { sl \<leftarrow> process_lookup pid s; p \<leftarrow> deref sl; arr_get (files p) i }"

definition upd_vfile :: "int \<Rightarrow> nat \<Rightarrow> (VFile \<Rightarrow> VFile) \<Rightarrow> 'z proc_st_scheme \<Rightarrow> 'z proc_st_scheme option" where
  "upd_vfile pid i f s = do {
     vf \<leftarrow> vfile_at pid i s;
     upd_proc pid (\<lambda>p. p\<lparr>files := (files p)[i := f vf]\<rparr>) s }"

definition set_fd :: "int \<Rightarrow> int \<Rightarrow> int \<Rightarrow> 'z proc_st_scheme \<Rightarrow> 'z proc_st_scheme option" where
  "set_fd pid file v s = do {
     sl \<leftarrow> process_lookup pid s;
     p \<leftarrow> deref sl;
     c_assert (0 \<le> file);
     t \<leftarrow> arr_set (fds p) (nat file) v;
     upd_proc pid (\<lambda>p. p\<lparr>fds := t\<rparr>) s }"

text \<open>
  \<^verbatim>\<open>process_close_files\<close> of \<^verbatim>\<open>process.c\<close>: the root server is asked to flush and close every open
  descriptor below \<^verbatim>\<open>PROCESS_MAX_FILES\<close>.
\<close>

definition close_one :: "int \<Rightarrow> int \<Rightarrow> 'z proc_st_scheme \<Rightarrow> 'z proc_st_scheme option" where
  "close_one pid fd s = do {
     op \<leftarrow> vfs_isopen pid fd s;
     if op then Some (ipc_send L4_rootserver PSOS_CLOSE SOS_IPC_SENDNONBLOCKING [word_of_int fd, word_of_int pid]
       (ipc_send L4_rootserver PSOS_FLUSH SOS_IPC_SENDNONBLOCKING [word_of_int fd, word_of_int pid] s))
     else Some s }"

definition process_close_files :: "procslot \<Rightarrow> 'z proc_st_scheme \<Rightarrow> 'z proc_st_scheme option" where
  "process_close_files sl s = do {
     pid \<leftarrow> process_get_pid sl;
     fold_opt (close_one pid) [0..int PROCESS_MAX_FILES - 1] s }"

section \<open>The list of vnodes\<close>

definition add_vnode :: "u32 \<Rightarrow> 'z vfs_st_scheme \<Rightarrow> 'z vfs_st_scheme option" where
  "add_vnode a s = do {
     s \<leftarrow> upd_vnode a (\<lambda>v. v\<lparr>vnext := 0, previous := 0\<rparr>) s;
     s \<leftarrow> (if GlobalVNodes s \<noteq> 0 then do {
         s \<leftarrow> upd_vnode a (\<lambda>v. v\<lparr>vnext := GlobalVNodes s\<rparr>) s;
         upd_vnode (GlobalVNodes s) (\<lambda>v. v\<lparr>previous := a\<rparr>) s }
       else Some s);
     Some (s\<lparr>GlobalVNodes := a\<rparr>) }"

definition remove_vnode :: "u32 \<Rightarrow> 'z vfs_st_scheme \<Rightarrow> 'z vfs_st_scheme option" where
  "remove_vnode a s = do {
     v \<leftarrow> vnodes s a;
     let vp = previous v;
     let vn = vnext v;
     s \<leftarrow> (if vp = 0 \<and> vn = 0 then Some (s\<lparr>GlobalVNodes := 0\<rparr>)
       else if vn = 0 then upd_vnode vp (\<lambda>v. v\<lparr>vnext := 0\<rparr>) s
       else if vp = 0 then upd_vnode vn (\<lambda>v. v\<lparr>previous := 0\<rparr>) (s\<lparr>GlobalVNodes := vn\<rparr>)
       else do {
         s \<leftarrow> upd_vnode vp (\<lambda>v. v\<lparr>vnext := vn\<rparr>) s;
         upd_vnode vn (\<lambda>v. v\<lparr>previous := vp\<rparr>) s });
     upd_vnode a (\<lambda>v. v\<lparr>vnext := 0, previous := 0\<rparr>) s }"

partial_function (option) find_vnode_loop :: "(u32 \<rightharpoonup> VNode) \<Rightarrow> string \<Rightarrow> u32 \<Rightarrow> u32 option" where
  "find_vnode_loop h path a =
     (if a = 0 then Some 0
      else do {
        v \<leftarrow> h a;
        if vpath v = path then Some a else find_vnode_loop h path (vnext v) })"

definition find_vnode :: "string \<Rightarrow> 'z vfs_st_scheme \<Rightarrow> u32 option" where
  "find_vnode path s = find_vnode_loop (vnodes s) path (GlobalVNodes s)"

definition new_vnode :: "'z vfs_st_scheme \<Rightarrow> u32 \<times> 'z vfs_st_scheme" where
  "new_vnode s = (if vnode_addr s = 0 then (0, s)
     else (vnode_addr s, s\<lparr>vnodes := (vnodes s)(vnode_addr s \<mapsto>
       \<lparr>vpath = [], vstat = vnode_stat s, Max_Readers = FM_UNLIMITED_RW, Max_Writers = FM_UNLIMITED_RW,
        readers = 0, writers = 0, extra = ExNull, previous = 0, vnext = 0, vops = OpsNull\<rparr>)\<rparr>))"

text \<open>Freeing a vnode frees its extra data, which must not be the static one of the console.\<close>

definition free_vnode :: "u32 \<Rightarrow> 'z vfs_st_scheme \<Rightarrow> 'z vfs_st_scheme option" where
  "free_vnode a s = (if a = 0 then Some s
     else do {
       v \<leftarrow> vnodes s a;
       c_assert (extra v \<noteq> ExConsole);
       Some (s\<lparr>vnodes := (vnodes s)(a := None)\<rparr>) })"

section \<open>Reference counts\<close>

definition increase_refs :: "VNode \<Rightarrow> u8 \<Rightarrow> int \<times> VNode" where
  "increase_refs v mode =
     (if mode AND FM_READ \<noteq> 0 \<and> readers v \<ge> Max_Readers v \<and> Max_Readers v \<noteq> FM_UNLIMITED_RW
      then (SOS_VFS_READFULL, v)
      else let v' = (if mode AND FM_READ \<noteq> 0 then v\<lparr>readers := readers v + 1\<rparr> else v) in
        if mode AND FM_WRITE \<noteq> 0 \<and> writers v' \<ge> Max_Writers v' \<and> Max_Writers v' \<noteq> FM_UNLIMITED_RW
        then (SOS_VFS_WRITEFULL, if mode AND FM_READ \<noteq> 0 then v'\<lparr>readers := readers v' - 1\<rparr> else v')
        else (SOS_VFS_OK, if mode AND FM_WRITE \<noteq> 0 then v'\<lparr>writers := writers v' + 1\<rparr> else v'))"

text \<open>The counts are unsigned, so the test that they are negative never succeeds.\<close>

definition decrease_refs :: "VNode \<Rightarrow> u8 \<Rightarrow> int \<times> VNode" where
  "decrease_refs v mode = (let
       v = (if mode AND FM_READ \<noteq> 0 then v\<lparr>readers := readers v - 1\<rparr> else v);
       v = (if mode AND FM_WRITE \<noteq> 0 then v\<lparr>writers := writers v - 1\<rparr> else v) in
     if readers v < 0 \<or> writers v < 0 then (SOS_VFS_CORVNODE, v) else (SOS_VFS_OK, v))"

section \<open>Finishing an operation\<close>

definition vfs_open_err :: "u32 \<Rightarrow> 'z vfs_st_scheme \<Rightarrow> 'z vfs_st_scheme option" where
  "vfs_open_err self s = (if self = 0 then Some s
     else do {
       v \<leftarrow> vnodes s self;
       if readers v \<le> 0 \<and> writers v \<le> 0
       then do { s \<leftarrow> remove_vnode self s; free_vnode self s }
       else Some s })"

definition vfs_open_done :: "int \<Rightarrow> u32 \<Rightarrow> u8 \<Rightarrow> int \<Rightarrow> 'z vfs_st_scheme \<Rightarrow> 'z vfs_st_scheme option" where
  "vfs_open_done pid self mode status s = do {
     sl \<leftarrow> process_lookup pid s;
     if sl = PNull then vfs_open_err self s
     else if status \<noteq> SOS_VFS_OK \<or> self = 0 then do {
       s \<leftarrow> vfs_open_err self s;
       reply_pid pid status s }
     else do {
       v \<leftarrow> vnodes s self;
       let (rval, v) = increase_refs v mode;
       let s = s\<lparr>vnodes := (vnodes s)(self \<mapsto> v)\<rparr>;
       if rval \<noteq> SOS_VFS_OK then do {
         s \<leftarrow> vfs_open_err self s;
         reply_pid pid rval s }
       else do {
         p \<leftarrow> deref sl;
         let (ok, fd1, fd2) = findNextFd p;
         if \<not> ok then do {
           s \<leftarrow> upd_vnode self (\<lambda>v. snd (decrease_refs v mode)) s;
           s \<leftarrow> vfs_open_err self s;
           reply_pid pid SOS_VFS_NOMORE s }
         else do {
           s \<leftarrow> upd_vfile pid (nat fd2)
                 (\<lambda>vf. vf\<lparr>vf_vnode := self, vf_fmode := mode, vf_fp := 0, vf_ref := 1\<rparr>) s;
           s \<leftarrow> set_fd pid fd1 fd2 s;
           reply_pid pid fd1 s } } } }"

definition vfs_close_done :: "int \<Rightarrow> u32 \<Rightarrow> int \<Rightarrow> u8 \<Rightarrow> int \<Rightarrow> 'z vfs_st_scheme \<Rightarrow> 'z vfs_st_scheme option" where
  "vfs_close_done pid self file mode status s = do {
     s \<leftarrow> (if status = SOS_VFS_OK then do { s \<leftarrow> remove_vnode self s; free_vnode self s } else Some s);
     reply_pid pid status s }"

definition vfs_read_done :: "int \<Rightarrow> u32 \<Rightarrow> int \<Rightarrow> u32 \<Rightarrow> nat \<Rightarrow> u32 \<Rightarrow> int \<Rightarrow>
    'z vfs_st_scheme \<Rightarrow> 'z vfs_st_scheme option" where
  "vfs_read_done pid self file pos buf nbyte status s = do {
     (vf, s) \<leftarrow> get_vfile pid file True s;
     case vf of None \<Rightarrow> Some s
     | Some i \<Rightarrow>
         if status < 0 then reply_pid pid status s
         else do {
           s \<leftarrow> upd_vfile pid i (\<lambda>vf. vf\<lparr>vf_fp := vf_fp vf + nbyte\<rparr>) s;
           reply_pid pid (if status = 0 then SOS_VFS_EOF else status) s } }"

definition vfs_write_done :: "int \<Rightarrow> u32 \<Rightarrow> int \<Rightarrow> u32 \<Rightarrow> nat \<Rightarrow> u32 \<Rightarrow> int \<Rightarrow>
    'z vfs_st_scheme \<Rightarrow> 'z vfs_st_scheme option" where
  "vfs_write_done pid self file offset buf nbyte status s =
     (if status < 0 then reply_pid pid status s
      else do {
        (vf, s) \<leftarrow> get_vfile pid file True s;
        case vf of None \<Rightarrow> Some s
        | Some i \<Rightarrow> do {
            s \<leftarrow> upd_vfile pid i (\<lambda>vf. vf\<lparr>vf_fp := vf_fp vf + nbyte\<rparr>) s;
            sl \<leftarrow> process_lookup pid s;
            tid \<leftarrow> process_get_tid sl;
            syscall_reply_v tid [word_of_int status, syscall_word SOS_WRITE] s } })"

section \<open>The list is a list\<close>

text \<open>
  \<open>vlist h g as\<close>: the vnodes at \<open>as\<close> are linked in both directions, starting from \<open>g\<close>.
\<close>

fun prev_ok :: "(u32 \<rightharpoonup> VNode) \<Rightarrow> u32 \<Rightarrow> u32 list \<Rightarrow> bool" where
  "prev_ok h p [] = True"
| "prev_ok h p (a # as) = (previous (the (h a)) = p \<and> prev_ok h a as)"

definition vnx :: "(u32 \<rightharpoonup> VNode) \<Rightarrow> u32 \<Rightarrow> u32" where
  "vnx h a = vnext (the (h a))"

definition vlist :: "(u32 \<rightharpoonup> VNode) \<Rightarrow> u32 \<Rightarrow> u32 list \<Rightarrow> bool" where
  "vlist h g as \<longleftrightarrow> chain (vnx h) g as 0 \<and> set as \<subseteq> dom h \<and> prev_ok h 0 as"

text \<open>A vnode without its links.\<close>

definition payload :: "VNode \<Rightarrow> VNode" where
  "payload v = v\<lparr>previous := 0, vnext := 0\<rparr>"

definition same_payload :: "(u32 \<rightharpoonup> VNode) \<Rightarrow> (u32 \<rightharpoonup> VNode) \<Rightarrow> bool" where
  "same_payload h h' \<longleftrightarrow> (\<forall>a. map_option payload (h' a) = map_option payload (h a))"

lemma payload_upd [simp]:
  "payload (v\<lparr>previous := x\<rparr>) = payload v" "payload (v\<lparr>vnext := x\<rparr>) = payload v"
  by (simp_all add: payload_def)

lemma payload_fields:
  assumes "payload v = payload w"
  shows "vpath v = vpath w" and "vstat v = vstat w" and "Max_Readers v = Max_Readers w"
    and "Max_Writers v = Max_Writers w" and "readers v = readers w" and "writers v = writers w"
    and "extra v = extra w" and "vops v = vops w"
  using arg_cong [OF assms, of vpath] arg_cong [OF assms, of vstat] arg_cong [OF assms, of Max_Readers]
    arg_cong [OF assms, of Max_Writers] arg_cong [OF assms, of readers] arg_cong [OF assms, of writers]
    arg_cong [OF assms, of extra] arg_cong [OF assms, of vops]
  by (simp_all add: payload_def)

lemma same_payload_refl [simp]: "same_payload h h"
  by (simp add: same_payload_def)

lemma same_payload_trans [trans]: "same_payload h h' \<Longrightarrow> same_payload h' h'' \<Longrightarrow> same_payload h h''"
  by (simp add: same_payload_def)

lemma same_payload_upd:
  "h a = Some v \<Longrightarrow> payload w = payload v \<Longrightarrow> same_payload h (h(a \<mapsto> w))"
  by (simp add: same_payload_def)

lemma same_payload_dom: "same_payload h h' \<Longrightarrow> dom h' = dom h"
  by (auto simp: same_payload_def dom_def) (metis option.map_disc_iff option.exhaust)+

lemma prev_ok_cong:
  "(\<And>a. a \<in> set as \<Longrightarrow> previous (the (h' a)) = previous (the (h a))) \<Longrightarrow> prev_ok h' p as = prev_ok h p as"
  by (induction as arbitrary: p) auto

lemma prev_ok_append:
  "prev_ok h p (as @ bs) \<longleftrightarrow> prev_ok h p as \<and> prev_ok h (if as = [] then p else last as) bs"
  by (induction as arbitrary: p) auto

lemma vlist_distinct: "vlist h g as \<Longrightarrow> distinct as"
  by (auto simp: vlist_def dest: chain_distinct)

lemma vlist_nonzero: "vlist h g as \<Longrightarrow> a \<in> set as \<Longrightarrow> a \<noteq> 0"
  unfolding vlist_def by (metis chain_stop)

lemma vlist_get: "vlist h g as \<Longrightarrow> a \<in> set as \<Longrightarrow> \<exists>v. h a = Some v"
  by (auto simp: vlist_def)

text \<open>The links of a vnode in the middle of the list.\<close>

lemma vlist_links:
  assumes "vlist h g (xs @ a # ys)"
  shows "vnext (the (h a)) = (if ys = [] then 0 else List.hd ys)"
    and "previous (the (h a)) = (if xs = [] then 0 else List.last xs)"
    and "g = (if xs = [] then a else List.hd xs)"
proof -
  have "chain (vnx h) a (a # ys) 0"
    using assms by (auto simp: vlist_def dest: chain_suffix)
  then show "vnext (the (h a)) = (if ys = [] then 0 else List.hd ys)"
    by (cases ys) (auto simp: vnx_def)
  show "previous (the (h a)) = (if xs = [] then 0 else List.last xs)"
    using assms by (auto simp: vlist_def prev_ok_append)
  show "g = (if xs = [] then a else List.hd xs)"
    using assms by (cases xs) (auto simp: vlist_def)
qed

lemma vlist_cong:
  assumes "vlist h g as"
    and "\<And>a. a \<in> set as \<Longrightarrow> vnx h' a = vnx h a \<and> previous (the (h' a)) = previous (the (h a))"
    and "dom h \<subseteq> dom h'"
  shows "vlist h' g as"
  using assms chain_cong [of as "vnx h'" "vnx h" g 0] prev_ok_cong [of as h' h 0]
  unfolding vlist_def by (meson subset_trans)

lemma add_vnode_spec:
  assumes "vlist (vnodes s) (GlobalVNodes s) as" and "vnodes s a = Some v" and "a \<noteq> 0" and "a \<notin> set as"
  shows "\<exists>h'. add_vnode a s = Some (s\<lparr>vnodes := h', GlobalVNodes := a\<rparr>) \<and> vlist h' a (a # as) \<and>
    same_payload (vnodes s) h'"
proof (cases as)
  case Nil
  let ?h = "(vnodes s)(a \<mapsto> v\<lparr>vnext := 0, previous := 0\<rparr>)"
  have "GlobalVNodes s = 0"
    using assms(1) Nil by (simp add: vlist_def)
  then have "add_vnode a s = Some (s\<lparr>vnodes := ?h, GlobalVNodes := a\<rparr>)"
    using assms(2) by (simp add: add_vnode_def upd_vnode_def)
  moreover have "vlist ?h a [a]"
    using assms(3) by (simp add: vlist_def vnx_def)
  ultimately show ?thesis
    using same_payload_upd [of "vnodes s" a v "v\<lparr>vnext := 0, previous := 0\<rparr>"] assms(2) Nil by auto
next
  case (Cons b bs)
  have g: "GlobalVNodes s = b" and b: "b \<noteq> 0" "b \<noteq> a" "b \<notin> set bs"
    using assms Cons vlist_nonzero [OF assms(1)] vlist_distinct [OF assms(1)] by (auto simp: vlist_def)
  obtain w where w: "vnodes s b = Some w"
    using vlist_get [OF assms(1)] Cons by auto
  let ?v = "v\<lparr>previous := 0, vnext := b\<rparr>" and ?w = "w\<lparr>previous := a\<rparr>"
  let ?h = "(vnodes s)(a \<mapsto> ?v, b \<mapsto> ?w)"
  have "add_vnode a s = Some (s\<lparr>vnodes := ?h, GlobalVNodes := a\<rparr>)"
    using assms(2) w b g by (simp add: add_vnode_def upd_vnode_def)
  moreover have "vlist ?h a (a # as)"
  proof -
    have "chain (vnx ?h) b (b # bs) 0 \<longleftrightarrow> chain (vnx (vnodes s)) b (b # bs) 0"
      by (rule chain_cong) (use assms(4) Cons w in \<open>auto simp: vnx_def\<close>)
    moreover have "prev_ok ?h b bs \<longleftrightarrow> prev_ok (vnodes s) b bs"
      by (rule prev_ok_cong) (use assms(4) Cons b in auto)
    ultimately show ?thesis
      using assms Cons b g by (auto simp: vlist_def vnx_def)
  qed
  moreover have "same_payload (vnodes s) ?h"
    using assms(2) w b by (auto simp: same_payload_def)
  ultimately show ?thesis by blast
qed

text \<open>Unlinking: the links of the neighbours are redirected past the vnode.\<close>

lemma prev_ok_unlink:
  assumes "prev_ok h p (xs @ a # ys)" and "distinct (xs @ a # ys)"
    and "\<And>b. b \<in> set xs \<Longrightarrow> previous (the (h' b)) = previous (the (h b))"
    and "\<And>b. b \<in> set (tl ys) \<Longrightarrow> previous (the (h' b)) = previous (the (h b))"
    and "ys \<noteq> [] \<Longrightarrow> previous (the (h' (List.hd ys))) = (if xs = [] then p else List.last xs)"
  shows "prev_ok h' p (xs @ ys)"
proof -
  have "prev_ok h' p xs"
    using assms(1,3) prev_ok_cong [of xs h' h p] by (simp add: prev_ok_append)
  moreover have "prev_ok h' (if xs = [] then p else List.last xs) ys"
  proof (cases ys)
    case (Cons y zs)
    then have "prev_ok h y zs"
      using assms(1) by (simp add: prev_ok_append)
    then show ?thesis
      using assms(4,5) Cons prev_ok_cong [of zs h' h y] by simp
  qed simp
  ultimately show ?thesis by (simp add: prev_ok_append)
qed

lemma vlist_unlink:
  assumes l: "vlist h g (xs @ a # ys)"
    and "\<And>b. b \<in> set xs \<union> set ys \<Longrightarrow> xs = [] \<or> b \<noteq> List.last xs \<Longrightarrow> vnx h' b = vnx h b"
    and "xs \<noteq> [] \<Longrightarrow> vnx h' (List.last xs) = vnx h a"
    and "\<And>b. b \<in> set xs \<union> set ys \<Longrightarrow> ys = [] \<or> b \<noteq> List.hd ys \<Longrightarrow> previous (the (h' b)) = previous (the (h b))"
    and "ys \<noteq> [] \<Longrightarrow> previous (the (h' (List.hd ys))) = previous (the (h a))"
    and "dom h \<subseteq> dom h'"
  shows "vlist h' (if xs = [] then vnx h a else g) (xs @ ys)"
proof -
  have d: "distinct (xs @ a # ys)"
    using l by (rule vlist_distinct)
  have c: "chain (vnx h) g (xs @ a # ys) 0" and p: "prev_ok h 0 (xs @ a # ys)"
    using l by (auto simp: vlist_def)
  have "chain (vnx h') (if xs = [] then vnx h a else g) (xs @ ys) 0"
  proof (cases "xs = []")
    case True
    then show ?thesis
      using c assms(2) chain_cong [of ys "vnx h'" "vnx h" "vnx h a" 0] by auto
  next
    case False
    have "chain (vnx h') g (xs @ ys) 0 \<longleftrightarrow> chain ((vnx h)(List.last xs := vnx h a)) g (xs @ ys) 0"
      by (rule chain_cong) (use assms(2,3) False in auto)
    then show ?thesis
      using chain_unlink [OF c False] False by simp
  qed
  moreover have "prev_ok h' 0 (xs @ ys)"
  proof (rule prev_ok_unlink [OF p d])
    show "previous (the (h' b)) = previous (the (h b))" if "b \<in> set xs" for b
      using assms(4) [of b] that d by (cases ys) auto
    show "previous (the (h' b)) = previous (the (h b))" if "b \<in> set (tl ys)" for b
      using assms(4) [of b] that d by (cases ys) auto
    show "previous (the (h' (List.hd ys))) = (if xs = [] then 0 else List.last xs)" if "ys \<noteq> []"
      using assms(5) [OF that] vlist_links(2) [OF l] by simp
  qed
  moreover have "set (xs @ ys) \<subseteq> dom h'"
    using l by (intro subset_trans [OF _ assms(6)]) (auto simp: vlist_def)
  ultimately show ?thesis by (simp add: vlist_def)
qed

lemma remove_vnode_spec:
  assumes l: "vlist (vnodes s) (GlobalVNodes s) as" and "a \<in> set as"
  shows "\<exists>h' g'. remove_vnode a s = Some (s\<lparr>vnodes := h', GlobalVNodes := g'\<rparr>) \<and> vlist h' g' (remove1 a as) \<and>
    same_payload (vnodes s) h'"
proof -
  obtain xs ys where as: "as = xs @ a # ys" "a \<notin> set xs"
    using split_list_first [OF assms(2)] by blast
  note l = l [unfolded as(1)]
  have d: "distinct (xs @ a # ys)"
    using l by (rule vlist_distinct)
  have rm: "remove1 a as = xs @ ys"
    using as d by (simp add: remove1_append)
  obtain v where v: "vnodes s a = Some v"
    using vlist_get [OF l] by auto
  note links = vlist_links [OF l]
  have nz: "b \<noteq> 0" if "b \<in> set (xs @ a # ys)" for b
    using vlist_nonzero [OF l that] .
  let ?h = "vnodes s" and ?g = "GlobalVNodes s"
  show ?thesis
  proof (cases "xs = []"; cases "ys = []")
    assume e: "xs = []" "ys = []"
    then have "remove_vnode a s = Some (s\<lparr>vnodes := ?h(a \<mapsto> v\<lparr>vnext := 0, previous := 0\<rparr>), GlobalVNodes := 0\<rparr>)"
      using links v by (simp add: remove_vnode_def upd_vnode_def Let_def)
    then show ?thesis
      using e rm v by (auto simp: vlist_def intro!: same_payload_upd)
  next
    assume e: "xs = []" "ys \<noteq> []"
    let ?y = "List.hd ys"
    obtain w where w: "?h ?y = Some w" "?y \<noteq> a" "?y \<noteq> 0"
      using vlist_get [OF l, of ?y] e nz [of ?y] d by (cases ys) auto
    let ?h' = "?h(?y \<mapsto> w\<lparr>previous := 0\<rparr>, a \<mapsto> v\<lparr>vnext := 0, previous := 0\<rparr>)"
    have "remove_vnode a s = Some (s\<lparr>vnodes := ?h', GlobalVNodes := ?y\<rparr>)"
      using links v e w by (simp add: remove_vnode_def upd_vnode_def Let_def)
    moreover have "vlist ?h' (if xs = [] then vnx ?h a else ?g) (xs @ ys)"
      by (rule vlist_unlink [OF l]) (use e w v d links in \<open>auto simp: vnx_def\<close>)
    moreover have "same_payload ?h ?h'"
      using v w by (auto simp: same_payload_def)
    ultimately show ?thesis
      using e rm links by (auto simp: vnx_def)
  next
    assume e: "xs \<noteq> []" "ys = []"
    let ?x = "List.last xs"
    obtain u where u: "?h ?x = Some u" "?x \<noteq> a" "?x \<noteq> 0"
      using vlist_get [OF l, of ?x] e nz [of ?x] d by (cases xs rule: rev_cases) auto
    let ?h' = "?h(?x \<mapsto> u\<lparr>vnext := 0\<rparr>, a \<mapsto> v\<lparr>vnext := 0, previous := 0\<rparr>)"
    have "remove_vnode a s = Some (s\<lparr>vnodes := ?h', GlobalVNodes := ?g\<rparr>)"
      using links v e u by (simp add: remove_vnode_def upd_vnode_def Let_def)
    moreover have "vlist ?h' (if xs = [] then vnx ?h a else ?g) (xs @ ys)"
      by (rule vlist_unlink [OF l]) (use e u v d links in \<open>auto simp: vnx_def\<close>)
    moreover have "same_payload ?h ?h'"
      using v u by (auto simp: same_payload_def)
    ultimately show ?thesis
      unfolding rm using e by (intro exI [of _ ?h'] exI [of _ ?g]) simp
  next
    assume e: "xs \<noteq> []" "ys \<noteq> []"
    let ?x = "List.last xs" and ?y = "List.hd ys"
    obtain w where w: "?h ?y = Some w" "?y \<noteq> a" "?y \<noteq> 0" "?y \<in> set ys"
      using vlist_get [OF l, of ?y] e nz [of ?y] d by (cases ys) auto
    obtain u where u: "?h ?x = Some u" "?x \<noteq> a" "?x \<noteq> 0" "?x \<in> set xs"
      using vlist_get [OF l, of ?x] e nz [of ?x] d by (cases xs rule: rev_cases) auto
    have xy: "?x \<noteq> ?y"
      using u w d by auto
    let ?h' = "?h(?x \<mapsto> u\<lparr>vnext := ?y\<rparr>, ?y \<mapsto> w\<lparr>previous := ?x\<rparr>, a \<mapsto> v\<lparr>vnext := 0, previous := 0\<rparr>)"
    have "remove_vnode a s = Some (s\<lparr>vnodes := ?h', GlobalVNodes := ?g\<rparr>)"
      using links v e u w xy by (simp add: remove_vnode_def upd_vnode_def Let_def)
    moreover have "vlist ?h' (if xs = [] then vnx ?h a else ?g) (xs @ ys)"
      by (rule vlist_unlink [OF l]) (use e u w v d links xy in \<open>auto simp: vnx_def\<close>)
    moreover have "same_payload ?h ?h'"
      using v u w xy by (auto simp: same_payload_def)
    ultimately show ?thesis
      unfolding rm using e by (intro exI [of _ ?h'] exI [of _ ?g]) simp
  qed
qed

text \<open>The search along the list ends, and finds the first vnode with the path.\<close>

definition opt_ptr :: "u32 option \<Rightarrow> u32" where
  "opt_ptr r = (case r of None \<Rightarrow> 0 | Some a \<Rightarrow> a)"

lemma find_vnode_loop_run:
  "chain (vnx h) g as 0 \<Longrightarrow> set as \<subseteq> dom h \<Longrightarrow>
   find_vnode_loop h path g = Some (opt_ptr (find (\<lambda>a. vpath (the (h a)) = path) as))"
proof (induction as arbitrary: g)
  case Nil
  then show ?case
    by (subst find_vnode_loop.simps) (simp add: opt_ptr_def)
next
  case (Cons a as)
  then obtain v where "h a = Some v" by auto
  with Cons show ?case
    by (subst find_vnode_loop.simps) (auto simp: opt_ptr_def vnx_def)
qed

lemma find_vnode_spec:
  "vlist (vnodes s) (GlobalVNodes s) as \<Longrightarrow>
   find_vnode path s = Some (opt_ptr (find (\<lambda>a. vpath (the (vnodes s a)) = path) as))"
  by (simp add: find_vnode_def vlist_def find_vnode_loop_run)

section \<open>The interface of a registry\<close>

datatype 'a reg_op = RegAdd 'a | RegRemove 'a

fun reg_run :: "('a \<Rightarrow> 's \<Rightarrow> 's option) \<Rightarrow> ('a \<Rightarrow> 's \<Rightarrow> 's option) \<Rightarrow> 'a reg_op list \<Rightarrow> 's \<Rightarrow> 's option" where
  "reg_run add remove [] s = Some s"
| "reg_run add remove (RegAdd a # ops) s = do { s \<leftarrow> add a s; reg_run add remove ops s }"
| "reg_run add remove (RegRemove a # ops) s = do { s \<leftarrow> remove a s; reg_run add remove ops s }"

fun reg_list :: "'a reg_op list \<Rightarrow> 'a list \<Rightarrow> 'a list" where
  "reg_list [] as = as"
| "reg_list (RegAdd a # ops) as = reg_list ops (a # as)"
| "reg_list (RegRemove a # ops) as = reg_list ops (remove1 a as)"

text \<open>Only what exists and is not there is added, and only what is there is removed.\<close>

fun reg_ok :: "('a \<Rightarrow> bool) \<Rightarrow> 'a reg_op list \<Rightarrow> 'a list \<Rightarrow> bool" where
  "reg_ok ok [] as = True"
| "reg_ok ok (RegAdd a # ops) as = (ok a \<and> a \<notin> set as \<and> reg_ok ok ops (a # as))"
| "reg_ok ok (RegRemove a # ops) as = (a \<in> set as \<and> reg_ok ok ops (remove1 a as))"

locale registry =
  fixes rep :: "'s \<Rightarrow> 'a list \<Rightarrow> bool"
    and add :: "'a \<Rightarrow> 's \<Rightarrow> 's option"
    and remove :: "'a \<Rightarrow> 's \<Rightarrow> 's option"
    and ok :: "'a \<Rightarrow> bool"
  assumes reg_add: "rep s as \<Longrightarrow> ok a \<Longrightarrow> a \<notin> set as \<Longrightarrow> \<exists>s'. add a s = Some s' \<and> rep s' (a # as)"
    and reg_remove: "rep s as \<Longrightarrow> a \<in> set as \<Longrightarrow> \<exists>s'. remove a s = Some s' \<and> rep s' (remove1 a as)"
begin

lemma run_refines:
  "rep s as \<Longrightarrow> reg_ok ok ops as \<Longrightarrow> \<exists>s'. reg_run add remove ops s = Some s' \<and> rep s' (reg_list ops as)"
proof (induction ops arbitrary: s as)
  case (Cons opn ops)
  show ?case
  proof (cases opn)
    case (RegAdd a)
    then obtain s' where "add a s = Some s'" "rep s' (a # as)"
      using reg_add [OF Cons.prems(1)] Cons.prems(2) by auto
    then show ?thesis
      using Cons.IH [of s' "a # as"] Cons.prems(2) RegAdd by simp
  next
    case (RegRemove a)
    then obtain s' where "remove a s = Some s'" "rep s' (remove1 a as)"
      using reg_remove [OF Cons.prems(1)] Cons.prems(2) by auto
    then show ?thesis
      using Cons.IH [of s' "remove1 a as"] Cons.prems(2) RegRemove by simp
  qed
qed simp

end

text \<open>The vnode list is a registry of the vnodes of a heap.\<close>

definition vrep :: "(u32 \<rightharpoonup> VNode) \<Rightarrow> 'z vfs_st_scheme \<Rightarrow> u32 list \<Rightarrow> bool" where
  "vrep h0 s as \<longleftrightarrow> vlist (vnodes s) (GlobalVNodes s) as \<and> same_payload h0 (vnodes s)"

definition vnode_in :: "(u32 \<rightharpoonup> VNode) \<Rightarrow> u32 \<Rightarrow> bool" where
  "vnode_in h a \<longleftrightarrow> a \<noteq> 0 \<and> h a \<noteq> None"

interpretation vreg: registry "vrep h0" add_vnode remove_vnode "vnode_in h0" for h0
proof
  fix s :: "'a vfs_st_scheme" and as and a :: u32
  assume r: "vrep h0 s as" and a: "vnode_in h0 a" "a \<notin> set as"
  obtain v where "vnodes s a = Some v"
    using a(1) r same_payload_dom [of h0 "vnodes s"] by (auto simp: vnode_in_def vrep_def)
  then show "\<exists>s'. add_vnode a s = Some s' \<and> vrep h0 s' (a # as)"
    using add_vnode_spec [of s as a v] a r by (auto simp: vrep_def vnode_in_def intro: same_payload_trans)
next
  fix s :: "'a vfs_st_scheme" and as and a :: u32
  assume "vrep h0 s as" "a \<in> set as"
  then show "\<exists>s'. remove_vnode a s = Some s' \<and> vrep h0 s' (remove1 a as)"
    using remove_vnode_spec [of s as a] by (auto simp: vrep_def intro: same_payload_trans)
qed

lemma find_cong_set: "(\<And>x. x \<in> set xs \<Longrightarrow> P x = Q x) \<Longrightarrow> find P xs = find Q xs"
  by (induction xs) auto

lemma same_payload_get:
  assumes "same_payload h h'" and "h' a = Some w"
  obtains v where "h a = Some v" and "payload w = payload v"
proof -
  have "map_option payload (h a) = Some (payload w)"
    using assms by (metis same_payload_def option.simps(9))
  then show ?thesis
    using that by (cases "h a") auto
qed

text \<open>
  C7. The doubly linked list of open vnodes refines a list. Whatever sequence of additions (of
  vnodes that exist and are not in the list) and removals (of vnodes in the list) is made, every
  step succeeds, and a search for a path afterwards ends and finds the vnode with that path that
  was added last and is still in the list, or none when there is none.
\<close>

theorem vnode_list_refines:
  assumes "vlist (vnodes s) (GlobalVNodes s) as" and "reg_ok (vnode_in (vnodes s)) ops as"
  shows "\<exists>s'. reg_run add_vnode remove_vnode ops s = Some s' \<and>
    find_vnode path s' = Some (opt_ptr (find (\<lambda>a. vpath (the (vnodes s a)) = path) (reg_list ops as)))"
proof -
  have "vrep (vnodes s) s as"
    using assms(1) by (simp add: vrep_def)
  from vreg.run_refines [OF this assms(2)] obtain s'
    where r: "reg_run add_vnode remove_vnode ops s = Some s'" and v: "vrep (vnodes s) s' (reg_list ops as)"
    by (elim exE conjE) (rule that)
  have l: "vlist (vnodes s') (GlobalVNodes s') (reg_list ops as)" and p: "same_payload (vnodes s) (vnodes s')"
    using v unfolding vrep_def by (rule conjunct1, rule conjunct2)
  have "vpath (the (vnodes s' a)) = vpath (the (vnodes s a))" if m: "a \<in> set (reg_list ops as)" for a
  proof -
    obtain w where w: "vnodes s' a = Some w"
      using vlist_get [OF l m] by (elim exE) (rule that)
    obtain v where "vnodes s a = Some v" "payload w = payload v"
      by (rule same_payload_get [OF p w])
    then show ?thesis
      using w payload_fields(1) [of w v] by simp
  qed
  then have "find (\<lambda>a. vpath (the (vnodes s' a)) = path) (reg_list ops as) =
      find (\<lambda>a. vpath (the (vnodes s a)) = path) (reg_list ops as)"
    by (intro find_cong_set) simp
  then show ?thesis
    using r find_vnode_spec [OF l, of path] by simp
qed

definition vnode_example :: "string \<Rightarrow> u32 \<Rightarrow> u32 \<Rightarrow> VNode" where
  "vnode_example path prv nxt = \<lparr>vpath = path,
     vstat = \<lparr>st_type = ST_FILE, st_fmode = FM_READ OR FM_WRITE, st_size = 0, st_ctime = 0, st_atime = 0, st2_ctime = 0, st2_atime = 0\<rparr>,
     Max_Readers = FM_UNLIMITED_RW, Max_Writers = FM_UNLIMITED_RW, readers = 0, writers = 0, extra = ExNull,
     previous = prv, vnext = nxt, vops = OpsNull\<rparr>"

text \<open>A file system with one listed vnode and two that are not in the list yet.\<close>

definition vnodes_example :: vfs_st where
  "vnodes_example = proc_st.extend procs_example (vfs_st.fields
     [64 \<mapsto> vnode_example ''console'' 0 0, 128 \<mapsto> vnode_example ''a'' 0 0, 192 \<mapsto> vnode_example ''b'' 0 0] 64 256
     (vstat (vnode_example ''a'' 0 0)) (\<lambda>_. vstat (vnode_example ''a'' 0 0)))"

theorem vnode_list_refines_witness:
  "\<exists>s'. reg_run add_vnode remove_vnode [RegAdd 128, RegAdd 192, RegRemove 128] vnodes_example = Some s' \<and>
    find_vnode ''b'' s' = Some 192 \<and> reg_ok (vnode_in (vnodes vnodes_example)) [RegAdd 128, RegAdd 192, RegRemove 128] [64]"
proof -
  have "vlist (vnodes vnodes_example) (GlobalVNodes vnodes_example) [64]"
    and ok: "reg_ok (vnode_in (vnodes vnodes_example)) [RegAdd 128, RegAdd 192, RegRemove 128] [64]"
    and b: "find (\<lambda>a. vpath (the (vnodes vnodes_example a)) = ''b'') [192, 64] = Some 192"
    by (simp_all add: vnodes_example_def vfs_st.defs proc_st.defs vnode_example_def vlist_def vnx_def vnode_in_def)
  with vnode_list_refines [OF this(1,2), of "''b''"] show ?thesis
    by (simp add: opt_ptr_def)
qed

end
