(* ===== verification/Pipefs.thy ===== *)
theory Pipefs
  imports Vnodes
begin

text \<open>
  The pipe file system, \<^verbatim>\<open>src/sos/pipefs.c\<close>: none of its operations is implemented, and each
  replies so without calling its done-callback.
\<close>

definition pipefs_pipe :: "int \<Rightarrow> u32 \<Rightarrow> 'z vfs_st_scheme \<Rightarrow> 'z vfs_st_scheme option" where
  "pipefs_pipe pid self = reply_pid pid SOS_VFS_NOTIMP"

definition pipefs_open :: "int \<Rightarrow> u32 \<Rightarrow> string \<Rightarrow> u8 \<Rightarrow> 'z vfs_st_scheme \<Rightarrow> 'z vfs_st_scheme option" where
  "pipefs_open pid self path mode = reply_pid pid SOS_VFS_NOTIMP"

definition pipefs_close :: "int \<Rightarrow> u32 \<Rightarrow> int \<Rightarrow> u8 \<Rightarrow> 'z vfs_st_scheme \<Rightarrow> 'z vfs_st_scheme option" where
  "pipefs_close pid self file mode = reply_pid pid SOS_VFS_NOTIMP"

definition pipefs_read :: "int \<Rightarrow> u32 \<Rightarrow> int \<Rightarrow> u32 \<Rightarrow> nat \<Rightarrow> u32 \<Rightarrow> 'z vfs_st_scheme \<Rightarrow> 'z vfs_st_scheme option" where
  "pipefs_read pid self file pos buf nbyte = reply_pid pid SOS_VFS_NOTIMP"

definition pipefs_write :: "int \<Rightarrow> u32 \<Rightarrow> int \<Rightarrow> u32 \<Rightarrow> nat \<Rightarrow> u32 \<Rightarrow> 'z vfs_st_scheme \<Rightarrow> 'z vfs_st_scheme option" where
  "pipefs_write pid self file offset buf nbyte = reply_pid pid SOS_VFS_NOTIMP"

definition pipefs_flush :: "int \<Rightarrow> u32 \<Rightarrow> int \<Rightarrow> 'z vfs_st_scheme \<Rightarrow> 'z vfs_st_scheme option" where
  "pipefs_flush pid self file = reply_pid pid SOS_VFS_NOTIMP"

definition pipefs_getdirent :: "int \<Rightarrow> u32 \<Rightarrow> int \<Rightarrow> nat \<Rightarrow> u32 \<Rightarrow> 'z vfs_st_scheme \<Rightarrow> 'z vfs_st_scheme option" where
  "pipefs_getdirent pid self pos name nbyte = reply_pid pid SOS_VFS_NOTIMP"

definition pipefs_stat :: "int \<Rightarrow> u32 \<Rightarrow> nat \<Rightarrow> nat \<Rightarrow> 'z vfs_st_scheme \<Rightarrow> 'z vfs_st_scheme option" where
  "pipefs_stat pid self path buf = reply_pid pid SOS_VFS_NOTIMP"

definition pipefs_remove :: "int \<Rightarrow> u32 \<Rightarrow> nat \<Rightarrow> 'z vfs_st_scheme \<Rightarrow> 'z vfs_st_scheme option" where
  "pipefs_remove pid self path = reply_pid pid SOS_VFS_NOTIMP"

end
