(* ===== verification/Console.thy ===== *)
theory Console
  imports Vnodes
begin

text \<open>
  The console file system, \<^verbatim>\<open>src/sos/console.c\<close>, and below it the serial line:
  \<^verbatim>\<open>network_sendstring\<close> and \<^verbatim>\<open>network_register_serialhandler\<close> of \<^verbatim>\<open>src/sos/network.c\<close> and
  \<^verbatim>\<open>src/libs/serial/src/serial.c\<close>. The network stack under the serial line is not modelled:
  \<open>udpOk\<close> says whether \<^verbatim>\<open>udp_send\<close> accepts a datagram, and the datagrams are recorded.
  The callbacks that finish a read or a write are arguments of the operations, as in the code;
  the only ones ever passed are those of \<^verbatim>\<open>vfs.c\<close>, so a stored request does not keep them.
\<close>

section \<open>Data\<close>

record Console_ReadRequest =
  rq_pid :: int
  rq_file :: int
  rq_buf :: nat
  rq_nbyte :: u32
  rq_rbyte :: u32

record Console_File =
  cf_vnode :: u32
  reader :: Console_ReadRequest
  cf_buf :: "nat \<Rightarrow> char"
  buf_used :: nat

record console_st = vfs_st +
  console_file :: Console_File
  serial :: bool
  fHandler :: bool
  serialOut :: "char list list"
  udpOk :: bool

definition newline :: char where
  [simp]: "newline = CHR 0x0A"

section \<open>The serial line\<close>

text \<open>
  A datagram of odd length is padded with a zero. The code puts that zero one byte past the length it
  asked \<^verbatim>\<open>pbuf_alloc\<close> for; the memory of packet buffers is part of the network stack, so what that byte
  overwrites is outside the model, and what is modelled is the datagram that goes out.
\<close>

definition serial_pad :: "char list \<Rightarrow> char list" where
  "serial_pad cs = (if odd (length cs) then cs @ [NUL] else cs)"

definition serial_send :: "char list \<Rightarrow> 'z console_st_scheme \<Rightarrow> (int \<times> 'z console_st_scheme) option" where
  "serial_send data s = do {
     c_assert (udpOk s);
     Some (int (length data), s\<lparr>serialOut := serialOut s @ [serial_pad data]\<rparr>) }"

definition network_sendstring :: "char list \<Rightarrow> 'z console_st_scheme \<Rightarrow> (int \<times> 'z console_st_scheme) option" where
  "network_sendstring data s =
     (if length data = 0 then Some (0, s)
      else do { c_assert (serial s); serial_send data s })"

definition network_register_serialhandler :: "'z console_st_scheme \<Rightarrow> int \<times> 'z console_st_scheme" where
  "network_register_serialhandler s = (if \<not> serial s then (-1, s) else (0, s\<lparr>fHandler := True\<rparr>))"

section \<open>Operations\<close>

definition CONSOLE_STAT :: stat_t where
  "CONSOLE_STAT = \<lparr>st_type = ST_SPECIAL, st_fmode = FM_READ OR FM_WRITE, st_size = 0, st_ctime = 0, st_atime = 0,
     st2_ctime = 0, st2_atime = 0\<rparr>"

definition console_init :: "u32 \<Rightarrow> 'z console_st_scheme \<Rightarrow> (u32 \<times> 'z console_st_scheme) option" where
  "console_init sflist s = do {
     let console = vnode_addr s;
     c_assert (console \<noteq> 0);
     let s = s\<lparr>vnodes := (vnodes s)(console \<mapsto>
       \<lparr>vpath = ''console'', vstat = CONSOLE_STAT, Max_Readers = 1, Max_Writers = FM_UNLIMITED_RW,
        readers = 0, writers = 0, extra = ExConsole, previous = 0, vnext = sflist, vops = OpsConsole\<rparr>)\<rparr>;
     let s = s\<lparr>console_file := (console_file s)
       \<lparr>reader := (reader (console_file s))\<lparr>rq_pid := NIL_PID\<rparr>, cf_vnode := console, buf_used := 0\<rparr>\<rparr>;
     s \<leftarrow> (if sflist \<noteq> 0 then upd_vnode sflist (\<lambda>v. v\<lparr>previous := console\<rparr>) s else Some s);
     let (r, s) = network_register_serialhandler s;
     Some (console, s) }"

definition console_open :: "(int \<Rightarrow> u32 \<Rightarrow> u8 \<Rightarrow> int \<Rightarrow> 's \<Rightarrow> 's option) \<Rightarrow>
    int \<Rightarrow> u32 \<Rightarrow> string \<Rightarrow> u8 \<Rightarrow> 's \<Rightarrow> 's option" where
  "console_open open_done pid self path mode = open_done pid self mode SOS_VFS_NOTIMP"

definition console_close :: "(int \<Rightarrow> u32 \<Rightarrow> int \<Rightarrow> u8 \<Rightarrow> int \<Rightarrow> 's \<Rightarrow> 's option) \<Rightarrow>
    int \<Rightarrow> u32 \<Rightarrow> int \<Rightarrow> u8 \<Rightarrow> 's \<Rightarrow> 's option" where
  "console_close close_done pid self file mode = close_done pid self file mode SOS_VFS_NOTIMP"

text \<open>
  The extra data of the vnode: none, the static console, or (never, by the function pointers)
  something else, whose use as a console file is undefined.
\<close>

definition console_of :: "u32 \<Rightarrow> 'z vfs_st_scheme \<Rightarrow> bool option" where
  "console_of self s = do {
     v \<leftarrow> vnodes s self;
     case extra v of ExNull \<Rightarrow> Some False | ExConsole \<Rightarrow> Some True | ExNfs _ \<Rightarrow> None }"

definition console_read :: "(int \<Rightarrow> u32 \<Rightarrow> int \<Rightarrow> u32 \<Rightarrow> nat \<Rightarrow> u32 \<Rightarrow> int \<Rightarrow>
      'z console_st_scheme \<Rightarrow> 'z console_st_scheme option) \<Rightarrow>
    int \<Rightarrow> u32 \<Rightarrow> int \<Rightarrow> u32 \<Rightarrow> nat \<Rightarrow> u32 \<Rightarrow> 'z console_st_scheme \<Rightarrow> 'z console_st_scheme option" where
  "console_read read_done pid self file pos buf nbyte s =
     (if self = 0 then read_done pid self file pos buf 0 SOS_VFS_NOVNODE s
      else do {
        cf \<leftarrow> console_of self s;
        if \<not> cf then read_done pid self file pos buf 0 SOS_VFS_CORVNODE s
        else if rq_pid (reader (console_file s)) \<noteq> NIL_PID
        then read_done pid self file pos buf 0 SOS_VFS_READFULL s
        else Some (s\<lparr>console_file := (console_file s)\<lparr>reader :=
          \<lparr>rq_pid = pid, rq_file = file, rq_buf = buf, rq_nbyte = nbyte, rq_rbyte = 0\<rparr>\<rparr>\<rparr>) })"

definition pending :: "Console_File \<Rightarrow> char list" where
  "pending cf = map (cf_buf cf) [0..<buf_used cf]"

definition console__flush :: "'z console_st_scheme \<Rightarrow> (int \<times> 'z console_st_scheme) option" where
  "console__flush s = do {
     (status, s) \<leftarrow> network_sendstring (pending (console_file s)) s;
     Some (status, s\<lparr>console_file := (console_file s)\<lparr>buf_used := 0\<rparr>\<rparr>) }"

text \<open>The inner and the outer loop of \<^verbatim>\<open>console_write\<close>; \<open>b\<close> holds the user's bytes from \<open>base\<close> on.\<close>

function fill_loop :: "(nat \<Rightarrow> char) \<Rightarrow> nat \<Rightarrow> nat \<Rightarrow> nat \<Rightarrow> Console_File \<Rightarrow> nat \<times> Console_File" where
  "fill_loop b base n i cf =
     (if buf_used cf < CONSOLE_BUF_SIZ \<and> i < n
      then fill_loop b base n (Suc i)
             (cf\<lparr>cf_buf := (cf_buf cf)(buf_used cf := b (base + i)), buf_used := buf_used cf + 1\<rparr>)
      else (i, cf))"
  by auto
termination by (relation "measure (\<lambda>(b, base, n, i, cf). n - i)") auto

declare fill_loop.simps [simp del]

partial_function (option) send_loop :: "(nat \<Rightarrow> char) \<Rightarrow> nat \<Rightarrow> nat \<Rightarrow> nat \<Rightarrow> int \<Rightarrow>
    'z console_st_scheme \<Rightarrow> (int \<times> 'z console_st_scheme) option" where
  "send_loop b base n i status s =
     (if i < n then do {
        let (i, cf) = fill_loop b base n i (console_file s);
        let s = s\<lparr>console_file := cf\<rparr>;
        (status, s) \<leftarrow> (if buf_used cf \<ge> CONSOLE_BUF_SIZ \<or> b (base + n - 1) = newline
          then console__flush s else Some (status, s));
        send_loop b base n i (if status < 0 then SOS_VFS_ERROR else sint (of_nat n :: u32)) s }
      else Some (status, s))"

definition console_write :: "(int \<Rightarrow> u32 \<Rightarrow> int \<Rightarrow> u32 \<Rightarrow> nat \<Rightarrow> u32 \<Rightarrow> int \<Rightarrow>
      'z console_st_scheme \<Rightarrow> 'z console_st_scheme option) \<Rightarrow>
    int \<Rightarrow> u32 \<Rightarrow> int \<Rightarrow> u32 \<Rightarrow> nat \<Rightarrow> u32 \<Rightarrow> 'z console_st_scheme \<Rightarrow> 'z console_st_scheme option" where
  "console_write write_done pid self file offset buf nbyte s =
     (if self = 0 then write_done pid self file offset buf 0 SOS_VFS_NOVNODE s
      else do {
        cf \<leftarrow> console_of self s;
        if \<not> cf then write_done pid self file offset buf 0 SOS_VFS_CORVNODE s
        else do {
          (status, s) \<leftarrow> send_loop (copyInOutBuffer s) buf (unat nbyte) 0 (sint nbyte) s;
          write_done pid self file offset buf 0 status s } })"

definition console_flush :: "int \<Rightarrow> u32 \<Rightarrow> int \<Rightarrow> 'z console_st_scheme \<Rightarrow> 'z console_st_scheme option" where
  "console_flush pid self file s =
     (if self = 0 then Some s
      else do {
        cf \<leftarrow> console_of self s;
        if \<not> cf then Some s
        else do {
          (status, s) \<leftarrow> console__flush s;
          reply_pid pid (if status > 0 then SOS_VFS_OK else SOS_VFS_EOF) s } })"

definition console_getdirent :: "int \<Rightarrow> u32 \<Rightarrow> int \<Rightarrow> nat \<Rightarrow> u32 \<Rightarrow> 'z console_st_scheme \<Rightarrow> 'z console_st_scheme option" where
  "console_getdirent pid self pos name nbyte = reply_pid pid SOS_VFS_NOTIMP"

definition console_stat :: "int \<Rightarrow> u32 \<Rightarrow> nat \<Rightarrow> nat \<Rightarrow> 'z console_st_scheme \<Rightarrow> 'z console_st_scheme option" where
  "console_stat pid self path buf s =
     (if self = 0 then reply_pid pid SOS_VFS_NOVNODE s
      else do {
        v \<leftarrow> vnodes s self;
        cf \<leftarrow> console_of self s;
        if \<not> cf then reply_pid pid SOS_VFS_CORVNODE s
        else reply_pid pid SOS_VFS_OK (s\<lparr>statBuffer := (statBuffer s)(buf := vstat v)\<rparr>) })"

definition console_remove :: "int \<Rightarrow> u32 \<Rightarrow> nat \<Rightarrow> 'z console_st_scheme \<Rightarrow> 'z console_st_scheme option" where
  "console_remove pid self path = reply_pid pid SOS_VFS_NOTIMP"

text \<open>A character from the serial line, and a datagram of them.\<close>

definition serial_read_callback :: "(int \<Rightarrow> u32 \<Rightarrow> int \<Rightarrow> u32 \<Rightarrow> nat \<Rightarrow> u32 \<Rightarrow> int \<Rightarrow>
      'z console_st_scheme \<Rightarrow> 'z console_st_scheme option) \<Rightarrow>
    char \<Rightarrow> 'z console_st_scheme \<Rightarrow> 'z console_st_scheme option" where
  "serial_read_callback read_done c s = (let rq = reader (console_file s) in
     if rq_pid rq = NIL_PID then Some s
     else let
         s = (if rq_rbyte rq < rq_nbyte rq
           then s\<lparr>copyInOutBuffer := (copyInOutBuffer s)(rq_buf rq + unat (rq_rbyte rq) := c)\<rparr> else s);
         rq = (if rq_rbyte rq < rq_nbyte rq then rq\<lparr>rq_rbyte := rq_rbyte rq + 1\<rparr> else rq);
         s = s\<lparr>console_file := (console_file s)\<lparr>reader := rq\<rparr>\<rparr> in
       if c = newline \<or> rq_rbyte rq \<ge> rq_nbyte rq then do {
         s \<leftarrow> read_done (rq_pid rq) 0 (rq_file rq) 0 (rq_buf rq) 0 (sint (rq_rbyte rq)) s;
         Some (s\<lparr>console_file := (console_file s)\<lparr>reader :=
           \<lparr>rq_pid = NIL_PID, rq_file = VFS_NIL_FILE, rq_buf = 0, rq_nbyte = 0, rq_rbyte = 0\<rparr>\<rparr>\<rparr>) }
       else Some s)"

definition serial_recv_handler :: "(int \<Rightarrow> u32 \<Rightarrow> int \<Rightarrow> u32 \<Rightarrow> nat \<Rightarrow> u32 \<Rightarrow> int \<Rightarrow>
      'z console_st_scheme \<Rightarrow> 'z console_st_scheme option) \<Rightarrow>
    char list \<Rightarrow> 'z console_st_scheme \<Rightarrow> 'z console_st_scheme option" where
  "serial_recv_handler read_done data s = do {
     c_assert (data \<noteq> []);
     if fHandler s then fold_opt (serial_read_callback read_done) data s else Some s }"

section \<open>What reaches the serial line\<close>

definition console_ready :: "'z console_st_scheme \<Rightarrow> bool" where
  "console_ready s \<longleftrightarrow> serial s \<and> udpOk s \<and> buf_used (console_file s) < CONSOLE_BUF_SIZ"

lemma pending_length [simp]: "length (pending cf) = buf_used cf"
  by (simp add: pending_def)

lemma pending_add:
  "pending (cf\<lparr>cf_buf := (cf_buf cf)(buf_used cf := c), buf_used := buf_used cf + 1\<rparr>) = pending cf @ [c]"
  by (simp add: pending_def)

text \<open>Filling moves bytes to the buffer until it is full or there are no more.\<close>

definition filled :: "(nat \<Rightarrow> char) \<Rightarrow> nat \<Rightarrow> nat \<Rightarrow> nat \<Rightarrow> Console_File \<Rightarrow> nat \<times> Console_File \<Rightarrow> bool" where
  "filled b base n i cf r \<longleftrightarrow> (case r of (i', cf') \<Rightarrow>
     i \<le> i' \<and> i' \<le> n \<and> pending cf' = pending cf @ map (\<lambda>j. b (base + j)) [i..<i'] \<and>
     buf_used cf' \<le> CONSOLE_BUF_SIZ \<and> (buf_used cf' = CONSOLE_BUF_SIZ \<or> i' = n) \<and>
     reader cf' = reader cf \<and> cf_vnode cf' = cf_vnode cf)"

lemma fill_loop_filled: "i \<le> n \<Longrightarrow> buf_used cf \<le> CONSOLE_BUF_SIZ \<Longrightarrow> filled b base n i cf (fill_loop b base n i cf)"
proof (induction b base n i cf rule: fill_loop.induct)
  case (1 b base n i cf)
  let ?cf = "cf\<lparr>cf_buf := (cf_buf cf)(buf_used cf := b (base + i)), buf_used := buf_used cf + 1\<rparr>"
  show ?case
  proof (cases "buf_used cf < CONSOLE_BUF_SIZ \<and> i < n")
    case True
    have "filled b base n (Suc i) ?cf (fill_loop b base n (Suc i) ?cf)"
      using 1 True by simp
    moreover have "fill_loop b base n i cf = fill_loop b base n (Suc i) ?cf"
      using True by (subst fill_loop.simps) simp
    moreover have "[i..<i'] = i # [Suc i..<i']" if "Suc i \<le> i'" for i'
      using that by (simp add: upt_conv_Cons)
    ultimately show ?thesis
      using pending_add [of cf "b (base + i)"] by (auto simp: filled_def simp del: upt_Suc)
  next
    case False
    then show ?thesis
      using "1.prems" by (subst fill_loop.simps) (auto simp: filled_def)
  qed
qed

lemma fill_loop_progress:
  "i < n \<Longrightarrow> buf_used cf < CONSOLE_BUF_SIZ \<Longrightarrow> fill_loop b base n i cf = (i', cf') \<Longrightarrow> i < i'"
  using fill_loop_filled [of "Suc i" n "cf\<lparr>cf_buf := (cf_buf cf)(buf_used cf := b (base + i)), buf_used := buf_used cf + 1\<rparr>" b base]
  by (subst (asm) fill_loop.simps) (auto simp: filled_def)

lemma console__flush_run:
  assumes "serial s" and "udpOk s"
  shows "console__flush s = Some (int (buf_used (console_file s)),
    s\<lparr>serialOut := serialOut s @ (if buf_used (console_file s) = 0 then [] else [serial_pad (pending (console_file s))]),
      console_file := (console_file s)\<lparr>buf_used := 0\<rparr>\<rparr>)"
  using assms pending_length [of "console_file s"]
  by (auto simp: console__flush_def network_sendstring_def serial_send_def simp del: pending_length)

text \<open>
  What one call of the loop sends: chunks that are not empty and fit the buffer; all but the last are
  full, and the last is full too unless the bytes end in a newline.
\<close>

definition sent :: "char list list \<Rightarrow> char list \<Rightarrow> bool \<Rightarrow> Console_File \<Rightarrow> Console_File \<Rightarrow> bool" where
  "sent chunks bytes nl cf cf' \<longleftrightarrow> concat chunks @ pending cf' = pending cf @ bytes \<and>
     list_all (\<lambda>c. c \<noteq> [] \<and> length c \<le> CONSOLE_BUF_SIZ) chunks \<and>
     list_all (\<lambda>c. length c = CONSOLE_BUF_SIZ) (if nl then butlast chunks else chunks) \<and>
     buf_used cf' < CONSOLE_BUF_SIZ \<and> reader cf' = reader cf \<and> cf_vnode cf' = cf_vnode cf"

lemma sent_nothing:
  assumes "sent chunks [] nl cf cf'" and "pending cf = []"
  shows "chunks = []"
  using assms by (cases chunks) (auto simp: sent_def)

lemma send_loop_run:
  assumes "console_ready s" and "i \<le> n" and "n < 2 ^ 31" and "0 \<le> st"
  shows "\<exists>chunks cf'. send_loop b base n i st s = Some (if i < n then int n else st,
      s\<lparr>serialOut := serialOut s @ map serial_pad chunks, console_file := cf'\<rparr>) \<and>
    sent chunks (map (\<lambda>j. b (base + j)) [i..<n]) (b (base + n - 1) = newline) (console_file s) cf' \<and>
    (i < n \<longrightarrow> b (base + n - 1) = newline \<longrightarrow> pending cf' = [])"
  using assms(1,2,4)
proof (induction "n - i" arbitrary: i s st rule: less_induct)
  case less
  let ?cf = "console_file s"
  show ?case
  proof (cases "i < n")
    case False
    then show ?thesis
      using less.prems
      by (intro exI [of _ "[]"] exI [of _ ?cf]) (subst send_loop.simps, simp add: sent_def console_ready_def)
  next
    case True
    obtain i' cf1 where fl: "fill_loop b base n i ?cf = (i', cf1)"
      by fastforce
    have fd: "filled b base n i ?cf (i', cf1)" and pr: "i < i'"
      using fill_loop_filled [of i n ?cf b base] fill_loop_progress [OF True _ fl] True less.prems fl
      by (auto simp: console_ready_def)
    let ?s1 = "s\<lparr>console_file := cf1\<rparr>"
    let ?fl = "CONSOLE_BUF_SIZ \<le> buf_used cf1 \<or> b (base + n - 1) = newline"
    define c0 where "c0 = (if ?fl then [pending cf1] else [])"
    define cf2 where "cf2 = (if ?fl then cf1\<lparr>buf_used := 0\<rparr> else cf1)"
    define s2 where "s2 = s\<lparr>serialOut := serialOut s @ map serial_pad c0, console_file := cf2\<rparr>"
    have sn: "sint (of_nat n :: u32) = int n"
      using assms(3) by (rule sint_small_nat)
    have ne: "buf_used cf1 \<noteq> 0"
      using fd pr pending_length [of cf1] by (auto simp: filled_def simp del: pending_length)
    have fls: "?fl \<Longrightarrow> console__flush ?s1 = Some (int (buf_used cf1), s2)"
      using console__flush_run [of ?s1] less.prems(1) ne by (simp add: s2_def c0_def cf2_def console_ready_def)
    have nfl: "\<not> ?fl \<Longrightarrow> ?s1 = s2"
      by (simp add: s2_def c0_def cf2_def)
    have "send_loop b base n i st s = send_loop b base n i' (int n) s2"
    proof (cases ?fl)
      case fl2: True
      show ?thesis
        using True fl fls fl2 sn by (subst send_loop.simps) simp
    next
      case False
      show ?thesis
        using True fl nfl False sn less.prems(3) by (subst send_loop.simps) simp
    qed
    moreover have "console_ready s2" and "n - i' < n - i" and "i' \<le> n"
      using less.prems(1) fd pr True by (auto simp: console_ready_def s2_def cf2_def filled_def)
    note less.hyps [OF this(2,1,3) of_nat_0_le_iff [of n], unfolded if_cancel]
    ultimately obtain chunks cf' where ih: "send_loop b base n i st s = Some (int n,
        s2\<lparr>serialOut := serialOut s2 @ map serial_pad chunks, console_file := cf'\<rparr>)"
        "sent chunks (map (\<lambda>j. b (base + j)) [i'..<n]) (b (base + n - 1) = newline) (console_file s2) cf'"
        "i' < n \<longrightarrow> b (base + n - 1) = newline \<longrightarrow> pending cf' = []"
      by (elim exE conjE) (rule that; simp only:)
    have "concat c0 @ pending cf2 = pending cf1"
      by (simp add: c0_def cf2_def pending_def)
    moreover have "[i..<n] = [i..<i'] @ [i'..<n]"
      using pr fd upt_add_eq_append [of i i' "n - i'"] by (auto simp: filled_def)
    ultimately have "concat (c0 @ chunks) @ pending cf' = pending ?cf @ map (\<lambda>j. b (base + j)) [i..<n]"
      using ih(2) fd by (simp add: sent_def s2_def filled_def)
    moreover have "list_all (\<lambda>c. c \<noteq> [] \<and> length c \<le> CONSOLE_BUF_SIZ) c0"
      using ne fd pending_length [of cf1] by (auto simp: c0_def filled_def simp del: pending_length)
    moreover have "list_all (\<lambda>c. length c = CONSOLE_BUF_SIZ) c0 \<or> (b (base + n - 1) = newline \<and> chunks = [])"
    proof (cases "buf_used cf1 = CONSOLE_BUF_SIZ \<or> \<not> ?fl")
      case False
      then have "pending (console_file s2) = []" "i' = n" "b (base + n - 1) = newline"
        using fd by (auto simp: s2_def cf2_def pending_def filled_def)
      then show ?thesis
        using sent_nothing ih(2) by fastforce
    qed (auto simp: c0_def)
    ultimately have "sent (c0 @ chunks) (map (\<lambda>j. b (base + j)) [i..<n]) (b (base + n - 1) = newline) ?cf cf'"
      using ih(2) fd by (auto simp: sent_def s2_def cf2_def filled_def butlast_append c0_def)
    moreover have "pending cf' = []" if "b (base + n - 1) = newline"
    proof (cases "i' < n")
      case False
      have "pending cf2 = []"
        using that by (simp add: cf2_def pending_def)
      then show ?thesis
        using ih(2) False by (simp add: sent_def s2_def)
    qed (use ih(3) that in simp)
    ultimately show ?thesis
      using ih(1) True by (intro exI [of _ "c0 @ chunks"] exI [of _ cf']) (simp add: s2_def)
  qed
qed


text \<open>A console with vnode 64 that process 10 has written two characters to.\<close>

definition console_example :: console_st where
  "console_example = vfs_st.extend
     (proc_st.extend procs_example (vfs_st.fields
       [64 \<mapsto> \<lparr>vpath = ''console'', vstat = CONSOLE_STAT, Max_Readers = 1, Max_Writers = FM_UNLIMITED_RW, readers = 0,
          writers = 1, extra = ExConsole, previous = 0, vnext = 0, vops = OpsConsole\<rparr>] 64 128 CONSOLE_STAT (\<lambda>_. CONSOLE_STAT)))
     (console_st.fields \<lparr>cf_vnode = 64,
        reader = \<lparr>rq_pid = NIL_PID, rq_file = 0, rq_buf = 0, rq_nbyte = 0, rq_rbyte = 0\<rparr>,
        cf_buf = (\<lambda>_. CHR ''x''), buf_used = 2\<rparr> True True [] True)"

lemmas console_example_defs = console_example_def vfs_st.defs proc_st.defs console_st.defs procs_example_def


section \<open>What the serial line delivers\<close>

text \<open>The state of the console while a line is coming in: \<open>cs\<close> has arrived for the request \<open>rq\<close>.\<close>

definition reading :: "Console_ReadRequest \<Rightarrow> char list \<Rightarrow> 'z console_st_scheme \<Rightarrow> 'z console_st_scheme" where
  "reading rq cs s = s\<lparr>copyInOutBuffer := buf_memcpy (rq_buf rq + unat (rq_rbyte rq)) cs (copyInOutBuffer s),
     console_file := (console_file s)\<lparr>reader := rq\<lparr>rq_rbyte := rq_rbyte rq + of_nat (length cs)\<rparr>\<rparr>\<rparr>"

definition no_reader :: "'z console_st_scheme \<Rightarrow> 'z console_st_scheme" where
  "no_reader s = s\<lparr>console_file := (console_file s)\<lparr>reader :=
     \<lparr>rq_pid = NIL_PID, rq_file = VFS_NIL_FILE, rq_buf = 0, rq_nbyte = 0, rq_rbyte = 0\<rparr>\<rparr>\<rparr>"

lemma buf_memcpy_snoc: "(buf_memcpy dst cs b)(dst + length cs := c) = buf_memcpy dst (cs @ [c]) b"
  by (rule ext) (auto simp: buf_memcpy_def nth_append)

lemma buf_memcpy_nil: "buf_memcpy dst [] b = b"
  by (rule ext) (auto simp: buf_memcpy_def)

lemma reading_nil: "reader (console_file s) = rq \<Longrightarrow> reading rq [] s = s"
  by (auto simp: reading_def buf_memcpy_nil)

lemma serial_char:
  assumes "rq_pid rq \<noteq> NIL_PID" and "unat (rq_rbyte rq) + length cs < unat (rq_nbyte rq)"
  shows "serial_read_callback read_done c (reading rq cs s) =
    (if c = newline \<or> unat (rq_rbyte rq) + length cs + 1 = unat (rq_nbyte rq)
     then do { s \<leftarrow> read_done (rq_pid rq) 0 (rq_file rq) 0 (rq_buf rq) 0
                 (sint (of_nat (unat (rq_rbyte rq) + length cs + 1) :: u32)) (reading rq (cs @ [c]) s);
               Some (no_reader s) }
     else Some (reading rq (cs @ [c]) s))"
proof -
  let ?r = "rq_rbyte rq" and ?n = "rq_nbyte rq"
  have w: "?r + of_nat (length cs) = of_nat (unat ?r + length cs)"
    "?r + of_nat (length (cs @ [c])) = of_nat (unat ?r + length cs + 1)"
    by simp_all
  have l: "unat (of_nat (unat ?r + length cs) :: u32) = unat ?r + length cs"
    "unat (of_nat (unat ?r + length cs + 1) :: u32) = unat ?r + length cs + 1"
    using assms(2) unat_bound [of ?n] by (auto intro!: unat_small_nat simp del: of_nat_Suc of_nat_add)
  have lt: "?r + of_nat (length cs) < ?n"
    using assms(2) l(1) unfolding w word_less_nat_alt by simp
  have ge: "?n \<le> of_nat (unat ?r + length cs + 1) \<longleftrightarrow> unat ?r + length cs + 1 = unat ?n"
    using assms(2) l(2) unfolding word_le_nat_alt by auto
  have nx: "?r + of_nat (length cs) + 1 = of_nat (unat ?r + length cs + 1)"
    by simp
  have b: "(buf_memcpy (rq_buf rq + unat ?r) cs m)(rq_buf rq + unat (?r + of_nat (length cs)) := c) =
      buf_memcpy (rq_buf rq + unat ?r) (cs @ [c]) m" for m
    using buf_memcpy_snoc [of "rq_buf rq + unat ?r" cs m c] l(1) unfolding w by (simp add: add.assoc)
  show ?thesis
    using assms(1) lt b ge nx w(2)
    unfolding serial_read_callback_def reading_def no_reader_def
    by (simp add: Let_def del: of_nat_Suc of_nat_add length_append)
qed

lemma serial_chars:
  "rq_pid rq \<noteq> NIL_PID \<Longrightarrow> unat (rq_rbyte rq) + length cs < unat (rq_nbyte rq) \<Longrightarrow> newline \<notin> set cs \<Longrightarrow>
   fold_opt (serial_read_callback read_done) cs (reading rq [] s) = Some (reading rq cs s)"
proof (induction cs rule: rev_induct)
  case (snoc c cs)
  then show ?case
    using serial_char [of rq cs read_done c s] by (auto simp: fold_opt_append)
qed simp

text \<open>Without a reader, characters are dropped.\<close>

lemma serial_dropped: "fold_opt (serial_read_callback read_done) cs (no_reader s) = Some (no_reader s)"
  by (induction cs) (simp_all add: serial_read_callback_def no_reader_def)

text \<open>
  C4. A process that waits in a read of the console gets the next line. Let it have asked for \<^verbatim>\<open>nbyte\<close>
  bytes, \<^verbatim>\<open>rbyte\<close> of which have arrived already, and let a datagram arrive that completes the read: it
  holds characters that are no newline and still fit, then a newline or the last character the
  reader has room for, then anything. Handling the datagram stores the characters up to that point
  behind those already there, in order, finishes the read exactly once with the total number, and leaves
  the console free for the next reader. The rest of the datagram is dropped.
\<close>

theorem serial_line_delivered:
  assumes "fHandler s" and "reader (console_file s) = rq" and "rq_pid rq \<noteq> NIL_PID" and "newline \<notin> set cs"
    and "unat (rq_rbyte rq) + length cs < unat (rq_nbyte rq)"
    and "c = newline \<or> unat (rq_rbyte rq) + length cs + 1 = unat (rq_nbyte rq)" and "unat (rq_nbyte rq) < 2 ^ 31"
  shows "serial_recv_handler read_done (cs @ c # rest) s = do {
    s \<leftarrow> read_done (rq_pid rq) 0 (rq_file rq) 0 (rq_buf rq) 0 (int (unat (rq_rbyte rq) + length cs + 1))
      (s\<lparr>copyInOutBuffer := buf_memcpy (rq_buf rq + unat (rq_rbyte rq)) (cs @ [c]) (copyInOutBuffer s),
         console_file := (console_file s)\<lparr>reader := rq\<lparr>rq_rbyte := rq_rbyte rq + of_nat (length cs + 1)\<rparr>\<rparr>\<rparr>);
    Some (s\<lparr>console_file := (console_file s)\<lparr>reader :=
      \<lparr>rq_pid = NIL_PID, rq_file = VFS_NIL_FILE, rq_buf = 0, rq_nbyte = 0, rq_rbyte = 0\<rparr>\<rparr>\<rparr>) }"
proof -
  let ?k = "unat (rq_rbyte rq) + length cs + 1"
  have "sint (of_nat ?k :: u32) = int ?k"
    using assms(5,7) by (subst sint_small_nat) simp_all
  then have ch: "serial_read_callback read_done c (reading rq cs s) =
      do { s \<leftarrow> read_done (rq_pid rq) 0 (rq_file rq) 0 (rq_buf rq) 0 (int ?k) (reading rq (cs @ [c]) s);
           Some (no_reader s) }"
    using serial_char [OF assms(3,5), of read_done c s] assms(6) by auto
  have "serial_recv_handler read_done (cs @ c # rest) s =
      do { s \<leftarrow> serial_read_callback read_done c (reading rq cs s); fold_opt (serial_read_callback read_done) rest s }"
    using serial_chars [OF assms(3,5,4), of read_done s] assms(1)
    by (simp add: serial_recv_handler_def fold_opt_append reading_nil [OF assms(2)])
  also have "\<dots> = do { s \<leftarrow> read_done (rq_pid rq) 0 (rq_file rq) 0 (rq_buf rq) 0 (int ?k) (reading rq (cs @ [c]) s);
      Some (no_reader s) }"
    unfolding ch by (simp add: serial_dropped bind_assoc)
  finally show ?thesis
    by (simp add: reading_def no_reader_def)
qed

definition console_read_example :: console_st where
  "console_read_example = console_example\<lparr>console_file := (console_file console_example)\<lparr>reader :=
     \<lparr>rq_pid = 10, rq_file = 0, rq_buf = 163840, rq_nbyte = 16, rq_rbyte = 0\<rparr>\<rparr>\<rparr>"

theorem serial_line_delivered_witness:
  "\<exists>s'. serial_recv_handler (\<lambda>pid self file pos buf nbyte status. Some) (''ls'' @ newline # [NUL]) console_read_example = Some s' \<and>
     map (copyInOutBuffer s') [163840..<163843] = ''ls'' @ [newline] \<and> rq_pid (reader (console_file s')) = NIL_PID"
  using serial_line_delivered [of console_read_example _ "''ls''" newline
      "\<lambda>pid self file pos buf nbyte status. Some" "[NUL]", OF _ refl]
  by (simp add: console_read_example_def console_example_defs buf_memcpy_def upt_rec)

end
