(* ===== verification/Nfsfs.thy ===== *)
theory Nfsfs
  imports Console
begin

text \<open>
  The NFS file system, \<^verbatim>\<open>src/sos/nfsfs.c\<close>. The NFS library sends a request to the server and later
  calls back with the token it was given; the calls to the library are recorded in order, and a
  callback is an operation of the model with the server's answer as arguments. The queue of
  requests is a list by value (the linked list it is kept in refines one, see \<open>Lists\<close>), whose
  elements carry the address they were allocated at, since the code compares requests by address.
  As in \<open>Console\<close> the done-callbacks of \<^verbatim>\<open>vfs.c\<close> are arguments.
\<close>

section \<open>Data\<close>

datatype NfsRequestBody =
    RT_LOOKUP (rq_mode: u8)
  | RT_READ int nat u32 u32
  | RT_WRITE int nat u32 u32
  | RT_STAT nat nat
  | RT_DIR int nat u32 int
  | RT_REMOVE nat

record NFS_BaseRequest =
  nr_ptr :: u32
  token :: u32
  nr_vnode :: u32
  nr_pid :: int
  nr_body :: NfsRequestBody

text \<open>
  Calls to the library, with their tokens. \<^verbatim>\<open>nfs_lookup\<close> is called for a lookup and for a stat,
  with different callbacks. The data of a write is copied when it is sent.
\<close>

datatype nfs_call =
    NfsCreate string (call_token: u32)
  | NfsLookup string (call_token: u32)
  | NfsLookupStat string (call_token: u32)
  | NfsRead cookie u32 u32 (call_token: u32)
  | NfsWrite cookie u32 "char list" (call_token: u32)
  | NfsReaddir int (call_token: u32)
  | NfsRemove string (call_token: u32)

record nfs_st = console_st +
  NfsRequests :: "NFS_BaseRequest list"
  tok :: u32
  rq_addr :: u32
  nfsCalls :: "nfs_call list"

record fattr_t =
  at_type :: u32
  at_mode :: u32
  at_size :: u32
  at_ctime_sec :: u32
  at_ctime_usec :: u32
  at_atime_sec :: u32
  at_atime_usec :: u32

definition nfs_do :: "nfs_call \<Rightarrow> 'z nfs_st_scheme \<Rightarrow> 'z nfs_st_scheme" where
  "nfs_do c s = s\<lparr>nfsCalls := nfsCalls s @ [c]\<rparr>"

section \<open>Status codes and attributes\<close>

definition NFS_OK :: int where
  [simp]: "NFS_OK = 0"
definition NFSERR_NOENT :: int where
  [simp]: "NFSERR_NOENT = 2"

text \<open>\<^verbatim>\<open>ROFS\<close>, \<^verbatim>\<open>ACCES\<close>, \<^verbatim>\<open>PERM\<close>; \<^verbatim>\<open>NOENT\<close>; \<^verbatim>\<open>NAMETOOLONG\<close>, \<^verbatim>\<open>NODEV\<close>; \<^verbatim>\<open>ISDIR\<close>; \<^verbatim>\<open>EXIST\<close>; \<^verbatim>\<open>STALE\<close>.\<close>

definition status_nfs2vfs :: "int \<Rightarrow> int" where
  "status_nfs2vfs status =
     (if status = NFS_OK then SOS_VFS_OK
      else if status \<in> {30, 13, 1} then SOS_VFS_PERM
      else if status = NFSERR_NOENT then SOS_VFS_NOVNODE
      else if status \<in> {63, 19} then SOS_VFS_PATHINV
      else if status = 21 then SOS_VFS_DIR
      else if status = 17 then SOS_VFS_EXIST
      else if status = 70 then SOS_VFS_CORVNODE
      else SOS_VFS_ERROR)"

definition cp_stats :: "fattr_t \<Rightarrow> stat_t" where
  "cp_stats attr = \<lparr>st_type = at_type attr, st_fmode = ucast (at_mode attr), st_size = at_size attr,
     st_ctime = at_ctime_sec attr * 1000 + at_ctime_usec attr div 1000,
     st_atime = at_atime_sec attr * 1000 + at_atime_usec attr div 1000,
     st2_ctime = ucast (at_ctime_sec attr) * 1000 + ucast (at_ctime_usec attr) div 1000,
     st2_atime = ucast (at_atime_sec attr) * 1000 + ucast (at_atime_usec attr) div 1000\<rparr>"

section \<open>The queue of requests\<close>

definition NULL_TOKEN :: u32 where
  [simp]: "NULL_TOKEN = - 1"

definition newtoken :: "'z nfs_st_scheme \<Rightarrow> u32 \<times> 'z nfs_st_scheme" where
  "newtoken s = (tok s mod (NULL_TOKEN - 1), s\<lparr>tok := tok s + 1\<rparr>)"

definition search_requests :: "u32 \<Rightarrow> NFS_BaseRequest \<Rightarrow> bool" where
  "search_requests key brq \<longleftrightarrow> token brq = key"

definition get_request :: "u32 \<Rightarrow> 'z nfs_st_scheme \<Rightarrow> NFS_BaseRequest option" where
  "get_request key s = (if NfsRequests s = [] then None else find (search_requests key) (NfsRequests s))"

text \<open>
  Running a request. The vnode of a lookup, read or write must still exist, and the file handle
  of a read or write must be there.
\<close>

definition rq_lookup_run :: "NFS_BaseRequest \<Rightarrow> u8 \<Rightarrow> 'z nfs_st_scheme \<Rightarrow> 'z nfs_st_scheme option" where
  "rq_lookup_run rq mode s = do {
     v \<leftarrow> vnodes s (nr_vnode rq);
     Some (if mode AND FM_WRITE \<noteq> 0 \<and> mode AND FM_NOTRUNC = 0
       then nfs_do (NfsCreate (vpath v) (token rq)) s
       else nfs_do (NfsLookup (vpath v) (token rq)) s) }"

definition nfs_fh :: "u32 \<Rightarrow> 'z vfs_st_scheme \<Rightarrow> cookie option" where
  "nfs_fh a s = do {
     v \<leftarrow> vnodes s a;
     case extra v of ExNfs fh \<Rightarrow> fh | _ \<Rightarrow> None }"

definition rq_read_run :: "NFS_BaseRequest \<Rightarrow> u32 \<Rightarrow> u32 \<Rightarrow> 'z nfs_st_scheme \<Rightarrow> 'z nfs_st_scheme option" where
  "rq_read_run rq pos nbyte s = do {
     fh \<leftarrow> nfs_fh (nr_vnode rq) s;
     Some (nfs_do (NfsRead fh pos nbyte (token rq)) s) }"

definition rq_write_run :: "NFS_BaseRequest \<Rightarrow> nat \<Rightarrow> u32 \<Rightarrow> u32 \<Rightarrow> 'z nfs_st_scheme \<Rightarrow> 'z nfs_st_scheme option" where
  "rq_write_run rq buf offset nbyte s = do {
     fh \<leftarrow> nfs_fh (nr_vnode rq) s;
     Some (nfs_do (NfsWrite fh offset (map (copyInOutBuffer s) [buf..<buf + unat nbyte]) (token rq)) s) }"

definition rq_stat_run :: "NFS_BaseRequest \<Rightarrow> nat \<Rightarrow> 'z nfs_st_scheme \<Rightarrow> 'z nfs_st_scheme option" where
  "rq_stat_run rq path s = do {
     p \<leftarrow> cstr (copyInOutBuffer s) path;
     Some (nfs_do (NfsLookupStat p (token rq)) s) }"

definition rq_dir_run :: "NFS_BaseRequest \<Rightarrow> 'z nfs_st_scheme \<Rightarrow> 'z nfs_st_scheme option" where
  "rq_dir_run rq s = Some (nfs_do (NfsReaddir 0 (token rq)) s)"

definition rq_rem_run :: "NFS_BaseRequest \<Rightarrow> nat \<Rightarrow> 'z nfs_st_scheme \<Rightarrow> 'z nfs_st_scheme option" where
  "rq_rem_run rq path s = do {
     p \<leftarrow> cstr (copyInOutBuffer s) path;
     Some (nfs_do (NfsRemove p (token rq)) s) }"

definition run_request :: "NFS_BaseRequest \<Rightarrow> 'z nfs_st_scheme \<Rightarrow> 'z nfs_st_scheme option" where
  "run_request rq s = (case nr_body rq of
     RT_LOOKUP mode \<Rightarrow> rq_lookup_run rq mode s
   | RT_READ file buf pos nbyte \<Rightarrow> rq_read_run rq pos nbyte s
   | RT_WRITE file buf offset nbyte \<Rightarrow> rq_write_run rq buf offset nbyte s
   | RT_STAT stat path \<Rightarrow> rq_stat_run rq path s
   | RT_DIR pos buf nbyte cpos \<Rightarrow> rq_dir_run rq s
   | RT_REMOVE path \<Rightarrow> rq_rem_run rq path s)"

definition check_request :: "NFS_BaseRequest \<Rightarrow> 'z nfs_st_scheme \<Rightarrow> 'z nfs_st_scheme option" where
  "check_request rq s = (case NfsRequests s of
     [] \<Rightarrow> run_request rq s
   | brq # _ \<Rightarrow> if nr_ptr brq \<noteq> nr_ptr rq then Some s else run_request brq s)"

definition run_head_request :: "'z nfs_st_scheme \<Rightarrow> 'z nfs_st_scheme option" where
  "run_head_request s = (case NfsRequests s of [] \<Rightarrow> Some s | brq # _ \<Rightarrow> run_request brq s)"

text \<open>
  A request is allocated, gets a token and goes to the end of the queue. Every caller fills in its
  own fields next, so it is created with them here; all of them follow the pointer, also when the
  allocation has failed and it is null.
\<close>

definition create_request :: "NfsRequestBody \<Rightarrow> u32 \<Rightarrow> int \<Rightarrow> 'z nfs_st_scheme \<Rightarrow>
    (NFS_BaseRequest \<times> 'z nfs_st_scheme) option" where
  "create_request body vn pid s = do {
     c_assert (rq_addr s \<noteq> 0);
     let ptr = rq_addr s;
     let (t, s) = newtoken s;
     let rq = \<lparr>nr_ptr = ptr, token = t, nr_vnode = vn, nr_pid = pid, nr_body = body\<rparr>;
     Some (rq, s\<lparr>NfsRequests := NfsRequests s @ [rq]\<rparr>) }"

definition remove_request :: "NFS_BaseRequest \<Rightarrow> 'z nfs_st_scheme \<Rightarrow> 'z nfs_st_scheme option" where
  "remove_request rq s = do {
     (rqs, u) \<leftarrow> delete_n (\<lambda>brq u. Some (search_requests (token rq) brq, u)) 1 (NfsRequests s) ();
     run_head_request (s\<lparr>NfsRequests := rqs\<rparr>) }"

definition submit :: "NfsRequestBody \<Rightarrow> u32 \<Rightarrow> int \<Rightarrow> 'z nfs_st_scheme \<Rightarrow> 'z nfs_st_scheme option" where
  "submit body vn pid s = do {
     (rq, s) \<leftarrow> create_request body vn pid s;
     check_request rq s }"

section \<open>Starting operations\<close>

text \<open>The address of the thread that drives the library's timeouts is a parameter.\<close>

definition nfsfs_init :: "u32 \<Rightarrow> 'z nfs_st_scheme \<Rightarrow> (int \<times> 'z nfs_st_scheme) option" where
  "nfsfs_init nfsfs_timeout_thread s = do {
     let s = s\<lparr>NfsRequests := []\<rparr>;
     (pid, s) \<leftarrow> process_run_rootthread ''nfs_timeout'' nfsfs_timeout_thread True 0 s;
     Some (0, s) }"

definition new_nfsfile :: "u32 \<Rightarrow> 'z vfs_st_scheme \<Rightarrow> (bool \<times> 'z vfs_st_scheme) option" where
  "new_nfsfile a s = (if a = 0 \<or> \<not> heapOk s then Some (False, s)
     else do { s \<leftarrow> upd_vnode a (\<lambda>v. v\<lparr>extra := ExNfs None\<rparr>) s; Some (True, s) })"

text \<open>Freeing the extra data of a vnode; freeing null does nothing.\<close>

definition free_nfsfile :: "u32 \<Rightarrow> 'z vfs_st_scheme \<Rightarrow> 'z vfs_st_scheme option" where
  "free_nfsfile a s = (if a = 0 then Some s
     else do {
       v \<leftarrow> vnodes s a;
       c_assert (extra v \<noteq> ExConsole);
       upd_vnode a (\<lambda>v. v\<lparr>extra := ExNull\<rparr>) s })"

definition nfsfs_open :: "(int \<Rightarrow> u32 \<Rightarrow> u8 \<Rightarrow> int \<Rightarrow> 'z nfs_st_scheme \<Rightarrow> 'z nfs_st_scheme option) \<Rightarrow>
    int \<Rightarrow> u32 \<Rightarrow> string \<Rightarrow> u8 \<Rightarrow> 'z nfs_st_scheme \<Rightarrow> 'z nfs_st_scheme option" where
  "nfsfs_open open_done pid self path mode s = do {
     s \<leftarrow> upd_vnode self (\<lambda>v. v\<lparr>vpath := path, readers := 0, writers := 0,
            vstat := (vstat v)\<lparr>st_type := ST_FILE\<rparr>, vnext := 0, previous := 0\<rparr>) s;
     (ok, s) \<leftarrow> new_nfsfile self s;
     if \<not> ok then open_done pid self mode SOS_VFS_NOMEM s
     else do {
       s \<leftarrow> upd_vnode self (\<lambda>v. v\<lparr>vops := OpsNfs\<rparr>) s;
       submit (RT_LOOKUP mode) self pid s } }"

definition nfsfs_close :: "(int \<Rightarrow> u32 \<Rightarrow> int \<Rightarrow> u8 \<Rightarrow> int \<Rightarrow> 'z nfs_st_scheme \<Rightarrow> 'z nfs_st_scheme option) \<Rightarrow>
    int \<Rightarrow> u32 \<Rightarrow> int \<Rightarrow> u8 \<Rightarrow> 'z nfs_st_scheme \<Rightarrow> 'z nfs_st_scheme option" where
  "nfsfs_close close_done pid self file mode s =
     (if self = 0 then close_done pid self file mode SOS_VFS_NOFILE s
      else do {
        s \<leftarrow> free_nfsfile self s;
        close_done pid self file mode SOS_VFS_OK s })"

definition nfsfs_read :: "(int \<Rightarrow> u32 \<Rightarrow> int \<Rightarrow> u32 \<Rightarrow> nat \<Rightarrow> u32 \<Rightarrow> int \<Rightarrow>
      'z nfs_st_scheme \<Rightarrow> 'z nfs_st_scheme option) \<Rightarrow>
    int \<Rightarrow> u32 \<Rightarrow> int \<Rightarrow> u32 \<Rightarrow> nat \<Rightarrow> u32 \<Rightarrow> 'z nfs_st_scheme \<Rightarrow> 'z nfs_st_scheme option" where
  "nfsfs_read read_done pid self file pos buf nbyte s = do {
     v \<leftarrow> vnodes s self;
     if extra v = ExNull then read_done pid self file pos buf 0 SOS_VFS_NOFILE s
     else submit (RT_READ file buf pos nbyte) self pid s }"

definition nfsfs_write :: "(int \<Rightarrow> u32 \<Rightarrow> int \<Rightarrow> u32 \<Rightarrow> nat \<Rightarrow> u32 \<Rightarrow> int \<Rightarrow>
      'z nfs_st_scheme \<Rightarrow> 'z nfs_st_scheme option) \<Rightarrow>
    int \<Rightarrow> u32 \<Rightarrow> int \<Rightarrow> u32 \<Rightarrow> nat \<Rightarrow> u32 \<Rightarrow> 'z nfs_st_scheme \<Rightarrow> 'z nfs_st_scheme option" where
  "nfsfs_write write_done pid self file offset buf nbyte s = do {
     v \<leftarrow> vnodes s self;
     if extra v = ExNull then write_done pid self file offset buf 0 SOS_VFS_NOFILE s
     else submit (RT_WRITE file buf offset nbyte) self pid s }"

definition nfsfs_flush :: "int \<Rightarrow> u32 \<Rightarrow> int \<Rightarrow> 'z nfs_st_scheme \<Rightarrow> 'z nfs_st_scheme option" where
  "nfsfs_flush pid self file = reply_pid pid SOS_VFS_NOTIMP"

definition nfsfs_getdirent :: "int \<Rightarrow> u32 \<Rightarrow> int \<Rightarrow> nat \<Rightarrow> u32 \<Rightarrow> 'z nfs_st_scheme \<Rightarrow> 'z nfs_st_scheme option" where
  "nfsfs_getdirent pid self pos name nbyte = submit (RT_DIR pos name nbyte 0) self pid"

definition nfsfs_stat :: "int \<Rightarrow> u32 \<Rightarrow> nat \<Rightarrow> nat \<Rightarrow> 'z nfs_st_scheme \<Rightarrow> 'z nfs_st_scheme option" where
  "nfsfs_stat pid self path buf s =
     (if self \<noteq> 0 then do {
        v \<leftarrow> vnodes s self;
        if extra v = ExNull then reply_pid pid SOS_VFS_ERROR s
        else reply_pid pid SOS_VFS_OK (s\<lparr>statBuffer := (statBuffer s)(buf := vstat v)\<rparr>) }
      else submit (RT_STAT buf path) self pid s)"

definition nfsfs_remove :: "int \<Rightarrow> u32 \<Rightarrow> nat \<Rightarrow> 'z nfs_st_scheme \<Rightarrow> 'z nfs_st_scheme option" where
  "nfsfs_remove pid self path s =
     (if self \<noteq> 0 then reply_pid pid SOS_VFS_OPEN s
      else submit (RT_REMOVE path) self pid s)"

section \<open>Callbacks of the library\<close>

text \<open>
  A token without a request is ignored. A request of another type than the callback's would be
  read as one of the callback's type, which is undefined.
\<close>

definition lookup_cb :: "(int \<Rightarrow> u32 \<Rightarrow> u8 \<Rightarrow> int \<Rightarrow> 'z nfs_st_scheme \<Rightarrow> 'z nfs_st_scheme option) \<Rightarrow>
    u32 \<Rightarrow> int \<Rightarrow> cookie \<Rightarrow> fattr_t \<Rightarrow> 'z nfs_st_scheme \<Rightarrow> 'z nfs_st_scheme option" where
  "lookup_cb open_done t status fh attr s = (case get_request t s of
     None \<Rightarrow> Some s
   | Some rq \<Rightarrow> (case nr_body rq of
       RT_LOOKUP mode \<Rightarrow>
         if status = NFS_OK then do {
           v \<leftarrow> vnodes s (nr_vnode rq);
           case extra v of ExNfs _ \<Rightarrow> do {
             s \<leftarrow> upd_vnode (nr_vnode rq) (\<lambda>v. v\<lparr>extra := ExNfs (Some fh), vstat := cp_stats attr\<rparr>) s;
             s \<leftarrow> open_done (nr_pid rq) (nr_vnode rq) mode SOS_VFS_OK s;
             remove_request rq s }
           | _ \<Rightarrow> None }
         else if status = NFSERR_NOENT \<and> mode AND FM_WRITE \<noteq> 0 then do {
           v \<leftarrow> vnodes s (nr_vnode rq);
           Some (nfs_do (NfsCreate (vpath v) (token rq)) s) }
         else do {
           s \<leftarrow> free_nfsfile (nr_vnode rq) s;
           s \<leftarrow> open_done (nr_pid rq) (nr_vnode rq) mode (status_nfs2vfs status) s;
           remove_request rq s }
     | _ \<Rightarrow> None))"

definition read_cb :: "(int \<Rightarrow> u32 \<Rightarrow> int \<Rightarrow> u32 \<Rightarrow> nat \<Rightarrow> u32 \<Rightarrow> int \<Rightarrow>
      'z nfs_st_scheme \<Rightarrow> 'z nfs_st_scheme option) \<Rightarrow>
    u32 \<Rightarrow> int \<Rightarrow> fattr_t \<Rightarrow> char list \<Rightarrow> 'z nfs_st_scheme \<Rightarrow> 'z nfs_st_scheme option" where
  "read_cb read_done t status attr data s = (case get_request t s of
     None \<Rightarrow> Some s
   | Some rq \<Rightarrow> (case nr_body rq of
       RT_READ file buf pos nbyte \<Rightarrow>
         if status \<noteq> NFS_OK then do {
           s \<leftarrow> read_done (nr_pid rq) (nr_vnode rq) file 0 buf 0 (status_nfs2vfs status) s;
           remove_request rq s }
         else do {
           let s = s\<lparr>copyInOutBuffer := buf_memcpy buf data (copyInOutBuffer s)\<rparr>;
           s \<leftarrow> upd_vnode (nr_vnode rq) (\<lambda>v. v\<lparr>vstat := cp_stats attr\<rparr>) s;
           s \<leftarrow> read_done (nr_pid rq) (nr_vnode rq) file 0 buf (of_nat (length data)) (int (length data)) s;
           remove_request rq s }
     | _ \<Rightarrow> None))"

definition write_cb :: "(int \<Rightarrow> u32 \<Rightarrow> int \<Rightarrow> u32 \<Rightarrow> nat \<Rightarrow> u32 \<Rightarrow> int \<Rightarrow>
      'z nfs_st_scheme \<Rightarrow> 'z nfs_st_scheme option) \<Rightarrow>
    u32 \<Rightarrow> int \<Rightarrow> fattr_t \<Rightarrow> 'z nfs_st_scheme \<Rightarrow> 'z nfs_st_scheme option" where
  "write_cb write_done t status attr s = (case get_request t s of
     None \<Rightarrow> Some s
   | Some rq \<Rightarrow> (case nr_body rq of
       RT_WRITE file buf offset nbyte \<Rightarrow>
         if status \<noteq> NFS_OK then do {
           s \<leftarrow> write_done (nr_pid rq) (nr_vnode rq) file 0 buf 0 (status_nfs2vfs status) s;
           remove_request rq s }
         else do {
           s \<leftarrow> upd_vnode (nr_vnode rq) (\<lambda>v. v\<lparr>vstat := cp_stats attr\<rparr>) s;
           s \<leftarrow> write_done (nr_pid rq) (nr_vnode rq) file 0 buf nbyte (sint nbyte) s;
           remove_request rq s }
     | _ \<Rightarrow> None))"

text \<open>Changing a request that is in the queue.\<close>

definition set_body :: "u32 \<Rightarrow> NfsRequestBody \<Rightarrow> 'z nfs_st_scheme \<Rightarrow> 'z nfs_st_scheme" where
  "set_body ptr body s = s\<lparr>NfsRequests := map (\<lambda>rq. if nr_ptr rq = ptr then rq\<lparr>nr_body := body\<rparr> else rq) (NfsRequests s)\<rparr>"

definition getdirent_cb :: "u32 \<Rightarrow> int \<Rightarrow> int \<Rightarrow> string list \<Rightarrow> int \<Rightarrow> 'z nfs_st_scheme \<Rightarrow> 'z nfs_st_scheme option" where
  "getdirent_cb t status num_entries filenames next_cookie s = (case get_request t s of
     None \<Rightarrow> Some s
   | Some rq \<Rightarrow> (case nr_body rq of
       RT_DIR pos buf nbyte cpos \<Rightarrow>
         if status \<noteq> NFS_OK then do {
           s \<leftarrow> reply_pid (nr_pid rq) (status_nfs2vfs status) s;
           remove_request rq s }
         else if cpos + num_entries \<ge> pos + 1 then do {
           c_assert (cpos \<le> pos);
           nfile \<leftarrow> arr_get filenames (nat (pos - cpos));
           s \<leftarrow> (if length nfile + 1 \<le> unat nbyte
             then reply_pid (nr_pid rq) (int (length nfile))
                    (s\<lparr>copyInOutBuffer := buf_memcpy buf (nfile @ [NUL]) (copyInOutBuffer s)\<rparr>)
             else reply_pid (nr_pid rq) SOS_VFS_NOMEM s);
           remove_request rq s }
         else if next_cookie > 0 then
           Some (nfs_do (NfsReaddir next_cookie (token rq)) (set_body (nr_ptr rq) (RT_DIR pos buf nbyte (cpos + num_entries)) s))
         else do {
           s \<leftarrow> reply_pid (nr_pid rq) SOS_VFS_EOF s;
           remove_request rq s }
     | _ \<Rightarrow> None))"

definition stat_cb :: "u32 \<Rightarrow> int \<Rightarrow> cookie \<Rightarrow> fattr_t \<Rightarrow> 'z nfs_st_scheme \<Rightarrow> 'z nfs_st_scheme option" where
  "stat_cb t status fh attr s = (case get_request t s of
     None \<Rightarrow> Some s
   | Some rq \<Rightarrow> (case nr_body rq of
       RT_STAT stat path \<Rightarrow> do {
         let s = (if status = NFS_OK then s\<lparr>statBuffer := (statBuffer s)(stat := cp_stats attr)\<rparr> else s);
         s \<leftarrow> reply_pid (nr_pid rq) (status_nfs2vfs status) s;
         remove_request rq s }
     | _ \<Rightarrow> None))"

definition remove_cb :: "u32 \<Rightarrow> int \<Rightarrow> 'z nfs_st_scheme \<Rightarrow> 'z nfs_st_scheme option" where
  "remove_cb t status s = (case get_request t s of
     None \<Rightarrow> Some s
   | Some rq \<Rightarrow> (case nr_body rq of
       RT_REMOVE path \<Rightarrow> do {
         s \<leftarrow> reply_pid (nr_pid rq) (status_nfs2vfs status) s;
         remove_request rq s }
     | _ \<Rightarrow> None))"

end
