(* ===== verification/Vfs.thy ===== *)
theory Vfs
  imports Nfsfs
begin

text \<open>
  The system calls of \<^verbatim>\<open>src/sos/vfs.c\<close>. A call through a function pointer of a vnode goes to the
  file system the vnode belongs to; through a null pointer it fails.
\<close>

section \<open>Function pointers\<close>

definition vnode_close :: "int \<Rightarrow> u32 \<Rightarrow> int \<Rightarrow> u8 \<Rightarrow> 'z nfs_st_scheme \<Rightarrow> 'z nfs_st_scheme option" where
  "vnode_close pid self file mode s = do {
     v \<leftarrow> vnodes s self;
     case vops v of OpsNull \<Rightarrow> None
     | OpsConsole \<Rightarrow> console_close vfs_close_done pid self file mode s
     | OpsNfs \<Rightarrow> nfsfs_close vfs_close_done pid self file mode s }"

definition vnode_read :: "int \<Rightarrow> u32 \<Rightarrow> int \<Rightarrow> u32 \<Rightarrow> nat \<Rightarrow> u32 \<Rightarrow> 'z nfs_st_scheme \<Rightarrow> 'z nfs_st_scheme option" where
  "vnode_read pid self file pos buf nbyte s = do {
     v \<leftarrow> vnodes s self;
     case vops v of OpsNull \<Rightarrow> None
     | OpsConsole \<Rightarrow> console_read vfs_read_done pid self file pos buf nbyte s
     | OpsNfs \<Rightarrow> nfsfs_read vfs_read_done pid self file pos buf nbyte s }"

definition vnode_write :: "int \<Rightarrow> u32 \<Rightarrow> int \<Rightarrow> u32 \<Rightarrow> nat \<Rightarrow> u32 \<Rightarrow> 'z nfs_st_scheme \<Rightarrow> 'z nfs_st_scheme option" where
  "vnode_write pid self file offset buf nbyte s = do {
     v \<leftarrow> vnodes s self;
     case vops v of OpsNull \<Rightarrow> None
     | OpsConsole \<Rightarrow> console_write vfs_write_done pid self file offset buf nbyte s
     | OpsNfs \<Rightarrow> nfsfs_write vfs_write_done pid self file offset buf nbyte s }"

definition vnode_flush :: "int \<Rightarrow> u32 \<Rightarrow> int \<Rightarrow> 'z nfs_st_scheme \<Rightarrow> 'z nfs_st_scheme option" where
  "vnode_flush pid self file s = do {
     v \<leftarrow> vnodes s self;
     case vops v of OpsNull \<Rightarrow> None
     | OpsConsole \<Rightarrow> console_flush pid self file s
     | OpsNfs \<Rightarrow> nfsfs_flush pid self file s }"

definition vnode_stat_op :: "int \<Rightarrow> u32 \<Rightarrow> nat \<Rightarrow> nat \<Rightarrow> 'z nfs_st_scheme \<Rightarrow> 'z nfs_st_scheme option" where
  "vnode_stat_op pid self path buf s = do {
     v \<leftarrow> vnodes s self;
     case vops v of OpsNull \<Rightarrow> None
     | OpsConsole \<Rightarrow> console_stat pid self path buf s
     | OpsNfs \<Rightarrow> nfsfs_stat pid self path buf s }"

definition vnode_remove :: "int \<Rightarrow> u32 \<Rightarrow> nat \<Rightarrow> 'z nfs_st_scheme \<Rightarrow> 'z nfs_st_scheme option" where
  "vnode_remove pid self path s = do {
     v \<leftarrow> vnodes s self;
     case vops v of OpsNull \<Rightarrow> None
     | OpsConsole \<Rightarrow> console_remove pid self path s
     | OpsNfs \<Rightarrow> nfsfs_remove pid self path s }"

section \<open>System calls\<close>

definition vfs_init :: "u32 \<Rightarrow> 'z nfs_st_scheme \<Rightarrow> 'z nfs_st_scheme option" where
  "vfs_init nfsfs_timeout_thread s = do {
     (g, s) \<leftarrow> console_init (GlobalVNodes s) s;
     let s = s\<lparr>GlobalVNodes := g\<rparr>;
     (r, s) \<leftarrow> nfsfs_init nfsfs_timeout_thread s;
     Some s }"

text \<open>
  The path is the string in the caller's buffer. When the check of the locking parameters fails
  the vnode is freed and then used: the model fails there.
\<close>

definition vfs_open :: "int \<Rightarrow> nat \<Rightarrow> u8 \<Rightarrow> u32 \<Rightarrow> u32 \<Rightarrow> 'z nfs_st_scheme \<Rightarrow> 'z nfs_st_scheme option" where
  "vfs_open pid pathp mode rds wrs s = do {
     sl \<leftarrow> process_lookup pid s;
     if sl = PNull then Some s
     else do {
       p \<leftarrow> deref sl;
       if \<not> findNextFd_alias p then reply_pid pid SOS_VFS_NOMORE s
       else do {
         path \<leftarrow> cstr (copyInOutBuffer s) pathp;
         if length path \<ge> MAX_FILE_NAME then reply_pid pid SOS_VFS_PATHINV s
         else if mode AND FM_READ = 0 \<and> mode AND FM_WRITE = 0 then reply_pid pid SOS_VFS_BADMODE s
         else do {
           let path = (if path = STDIN_FN then (case process_get_stdin p of None \<Rightarrow> path | Some f \<Rightarrow> f) else path);
           vnode \<leftarrow> find_vnode path s;
           if vnode = 0 then do {
             let (vnode, s) = new_vnode s;
             if vnode = 0 then vfs_open_done pid vnode mode SOS_VFS_NOMEM s
             else do {
               s \<leftarrow> upd_vnode vnode (\<lambda>v. v\<lparr>Max_Readers := rds, Max_Writers := wrs\<rparr>) s;
               v \<leftarrow> vnodes s vnode;
               let (r, v) = increase_refs v mode;
               let s = s\<lparr>vnodes := (vnodes s)(vnode \<mapsto> v)\<rparr>;
               s \<leftarrow> (if r \<noteq> SOS_VFS_OK then do {
                   s \<leftarrow> free_vnode vnode s;
                   reply_pid pid SOS_VFS_ERROR s }
                 else Some s);
               s \<leftarrow> upd_vnode vnode (\<lambda>v. v\<lparr>readers := 0, writers := 0\<rparr>) s;
               s \<leftarrow> nfsfs_open vfs_open_done pid vnode path mode s;
               add_vnode vnode s } }
           else if rds = FM_UNLIMITED_RW \<and> wrs = FM_UNLIMITED_RW
           then vfs_open_done pid vnode mode SOS_VFS_OK s
           else reply_pid pid SOS_VFS_OPEN s } } } }"

definition vfs_close :: "int \<Rightarrow> int \<Rightarrow> 'z nfs_st_scheme \<Rightarrow> 'z nfs_st_scheme option" where
  "vfs_close pid file s = do {
     (vfi, s) \<leftarrow> get_vfile pid file False s;
     case vfi of None \<Rightarrow> Some s
     | Some i \<Rightarrow> do {
         s \<leftarrow> set_fd pid file VFS_NIL_FILE s;
         vf \<leftarrow> vfile_at pid i s;
         let mode = vf_fmode vf;
         let vnode = vf_vnode vf;
         s \<leftarrow> upd_vfile pid i (\<lambda>vf. vf\<lparr>vf_ref := vf_ref vf - 1\<rparr>) s;
         s \<leftarrow> (if vf_ref vf - 1 = 0 then do {
             s \<leftarrow> upd_vfile pid i (\<lambda>vf. vf\<lparr>vf_vnode := 0, vf_fmode := 0, vf_fp := 0\<rparr>) s;
             upd_vnode vnode (\<lambda>v. snd (decrease_refs v mode)) s }
           else Some s);
         v \<leftarrow> vnodes s vnode;
         if readers v \<le> 0 \<and> writers v \<le> 0
         then vnode_close pid vnode file mode s
         else reply_pid pid SOS_VFS_OK s } }"

definition vfs_read :: "int \<Rightarrow> int \<Rightarrow> nat \<Rightarrow> u32 \<Rightarrow> 'z nfs_st_scheme \<Rightarrow> 'z nfs_st_scheme option" where
  "vfs_read pid file buf nbyte s = do {
     (vfi, s) \<leftarrow> get_vfile pid file True s;
     case vfi of None \<Rightarrow> Some s
     | Some i \<Rightarrow> do {
         vf \<leftarrow> vfile_at pid i s;
         if vf_fmode vf AND FM_READ = 0 then reply_pid pid SOS_VFS_PERM s
         else vnode_read pid (vf_vnode vf) file (vf_fp vf) buf (min nbyte IO_MAX_BUFFER) s } }"

definition vfs_write :: "int \<Rightarrow> int \<Rightarrow> nat \<Rightarrow> u32 \<Rightarrow> 'z nfs_st_scheme \<Rightarrow> 'z nfs_st_scheme option" where
  "vfs_write pid file buf nbyte s = do {
     (vfi, s) \<leftarrow> get_vfile pid file True s;
     case vfi of None \<Rightarrow> Some s
     | Some i \<Rightarrow> do {
         vf \<leftarrow> vfile_at pid i s;
         if vf_fmode vf AND FM_WRITE = 0 then reply_pid pid SOS_VFS_PERM s
         else vnode_write pid (vf_vnode vf) file (vf_fp vf) buf (min nbyte IO_MAX_BUFFER) s } }"

definition vfs_flush :: "int \<Rightarrow> int \<Rightarrow> 'z nfs_st_scheme \<Rightarrow> 'z nfs_st_scheme option" where
  "vfs_flush pid file s = do {
     (vfi, s) \<leftarrow> get_vfile pid file False s;
     case vfi of None \<Rightarrow> Some s
     | Some i \<Rightarrow> do {
         vf \<leftarrow> vfile_at pid i s;
         vnode_flush pid (vf_vnode vf) file s } }"

definition vfs_lseek :: "int \<Rightarrow> int \<Rightarrow> u32 \<Rightarrow> u32 \<Rightarrow> 'z nfs_st_scheme \<Rightarrow> 'z nfs_st_scheme option" where
  "vfs_lseek pid file pos whence s = do {
     (vfi, s) \<leftarrow> get_vfile pid file True s;
     case vfi of None \<Rightarrow> Some s
     | Some i \<Rightarrow> do {
         vf \<leftarrow> vfile_at pid i s;
         s \<leftarrow> (if whence = SEEK_SET then upd_vfile pid i (\<lambda>vf. vf\<lparr>vf_fp := pos\<rparr>) s
           else if whence = SEEK_CUR then upd_vfile pid i (\<lambda>vf. vf\<lparr>vf_fp := vf_fp vf + pos\<rparr>) s
           else if whence = SEEK_END then do {
             v \<leftarrow> vnodes s (vf_vnode vf);
             upd_vfile pid i (\<lambda>vf. vf\<lparr>vf_fp := st_size (vstat v) - pos\<rparr>) s }
           else Some s);
         reply_pid pid SOS_VFS_OK s } }"

text \<open>
  The loop of \<^verbatim>\<open>vfs_getdirent\<close> over the special files: the vnode at the position asked for, or
  how many there are.
\<close>

partial_function (option) special_loop :: "(u32 \<rightharpoonup> VNode) \<Rightarrow> int \<Rightarrow> u32 \<Rightarrow> int \<Rightarrow> (VNode + int) option" where
  "special_loop h pos a pos2 =
     (if a = 0 then Some (Inr pos2)
      else do {
        v \<leftarrow> h a;
        if st_type (vstat v) = ST_SPECIAL then
          if pos = pos2 then Some (Inl v) else special_loop h pos (vnext v) (pos2 + 1)
        else special_loop h pos (vnext v) pos2 })"

definition vfs_getdirent :: "int \<Rightarrow> int \<Rightarrow> nat \<Rightarrow> u32 \<Rightarrow> 'z nfs_st_scheme \<Rightarrow> 'z nfs_st_scheme option" where
  "vfs_getdirent pid pos name nbyte s =
     (if pos < 0 \<or> nbyte = 0 then reply_pid pid SOS_VFS_ERROR s
      else do {
        r \<leftarrow> special_loop (vnodes s) pos (GlobalVNodes s) 0;
        case r of Inl v \<Rightarrow>
          if length (vpath v) < unat nbyte
          then reply_pid pid (int (length (vpath v)))
                 (s\<lparr>copyInOutBuffer := buf_memcpy name (vpath v @ [NUL]) (copyInOutBuffer s)\<rparr>)
          else reply_pid pid SOS_VFS_NOMEM s
        | Inr pos2 \<Rightarrow> nfsfs_getdirent pid 0 (pos - pos2) name nbyte s })"

definition vfs_stat :: "int \<Rightarrow> nat \<Rightarrow> nat \<Rightarrow> 'z nfs_st_scheme \<Rightarrow> 'z nfs_st_scheme option" where
  "vfs_stat pid pathp buf s = do {
     path \<leftarrow> cstr (copyInOutBuffer s) pathp;
     vnode \<leftarrow> find_vnode path s;
     if vnode \<noteq> 0 then vnode_stat_op pid vnode pathp buf s
     else nfsfs_stat pid 0 pathp buf s }"

definition vfs_remove :: "int \<Rightarrow> nat \<Rightarrow> 'z nfs_st_scheme \<Rightarrow> 'z nfs_st_scheme option" where
  "vfs_remove pid pathp s = do {
     path \<leftarrow> cstr (copyInOutBuffer s) pathp;
     vnode \<leftarrow> find_vnode path s;
     if vnode \<noteq> 0 then do {
       v \<leftarrow> vnodes s vnode;
       if st_fmode (vstat v) AND FM_WRITE = 0 then reply_pid pid SOS_VFS_PERM s
       else vnode_remove pid vnode pathp s }
     else nfsfs_remove pid 0 pathp s }"

definition vfs_dup :: "int \<Rightarrow> int \<Rightarrow> int \<Rightarrow> 'z nfs_st_scheme \<Rightarrow> 'z nfs_st_scheme option" where
  "vfs_dup pid forig fdup s = do {
     (vfi, s) \<leftarrow> get_vfile pid forig True s;
     case vfi of None \<Rightarrow> Some s
     | Some i \<Rightarrow> do {
         sl \<leftarrow> process_lookup pid s;
         p \<leftarrow> deref sl;
         if (fdup < 0 \<or> fdup \<ge> int PROCESS_MAX_FDS) \<and> fdup \<noteq> VFS_NIL_FILE
         then reply_pid pid SOS_VFS_NOFILE s
         else do {
           (fdup, s) \<leftarrow> (if fdup = VFS_NIL_FILE then do {
               let d = first_index (\<lambda>f. f = VFS_NIL_FILE) (fds p);
               s \<leftarrow> (if d = VFS_NIL_FILE then Some s
                 else do { f \<leftarrow> arr_get (fds p) (nat forig); set_fd pid d f s });
               Some (d, s) }
             else do {
               (dvf, s) \<leftarrow> get_vfile pid fdup False s;
               s \<leftarrow> (if dvf \<noteq> None then do {
                   let oldfilt = process_get_ipcfilt p;
                   s \<leftarrow> upd_proc pid (\<lambda>p. snd (process_set_ipcfilt PS_IPC_NONE p)) s;
                   s \<leftarrow> vfs_close pid fdup s;
                   upd_proc pid (\<lambda>p. snd (process_set_ipcfilt oldfilt p)) s }
                 else Some s);
               sl \<leftarrow> process_lookup pid s;
               p \<leftarrow> deref sl;
               f \<leftarrow> arr_get (fds p) (nat forig);
               s \<leftarrow> set_fd pid fdup f s;
               Some (fdup, s) });
           if fdup = VFS_NIL_FILE then reply_pid pid SOS_VFS_NOMORE s
           else do {
             s \<leftarrow> upd_vfile pid i (\<lambda>vf. vf\<lparr>vf_ref := vf_ref vf + 1\<rparr>) s;
             reply_pid pid fdup s } } } }"

end
