(* ===== verification/Elf.thy ===== *)
theory Elf
  imports Prelude
begin

text \<open>
  The ELF library, \<^verbatim>\<open>src/libs/elf\<close>. A file is bytes of memory from an address on; fields are read in
  the byte order of the machine (big-endian), and addresses wrap around at 32 bits. The 64-bit
  functions are there as well: the generic ones look at the class of the file and choose. Loading a
  file puts every segment in place, and the memory bounds are the hull of the segments.
\<close>

unbundle bit_operations_syntax

type_synonym u16 = "16 word"
type_synonym bmem = "u32 \<Rightarrow> u8"

section \<open>Fields\<close>

definition rd16 :: "bmem \<Rightarrow> u32 \<Rightarrow> u16" where
  "rd16 m a = push_bit 8 (ucast (m a)) OR ucast (m (a + 1))"

definition rd32 :: "bmem \<Rightarrow> u32 \<Rightarrow> u32" where
  "rd32 m a = push_bit 16 (ucast (rd16 m a)) OR ucast (rd16 m (a + 2))"

definition rd64 :: "bmem \<Rightarrow> u32 \<Rightarrow> u64" where
  "rd64 m a = push_bit 32 (ucast (rd32 m a)) OR ucast (rd32 m (a + 4))"

definition EI_CLASS :: u32 where
  [simp]: "EI_CLASS = 4"
definition ELFCLASS32 :: u8 where
  [simp]: "ELFCLASS32 = 1"
definition ELFCLASS64 :: u8 where
  [simp]: "ELFCLASS64 = 2"

text \<open>A name of a section is a string of the program or in the file.\<close>

datatype cstring = Literal string | In_File u32

fun strcmp_eq :: "string \<Rightarrow> bmem \<Rightarrow> u32 \<Rightarrow> bool" where
  "strcmp_eq [] m a \<longleftrightarrow> m a = 0"
| "strcmp_eq (c # cs) m a \<longleftrightarrow> m a = of_char c \<and> strcmp_eq cs m (a + 1)"

definition name_eq :: "string \<Rightarrow> bmem \<Rightarrow> cstring \<Rightarrow> bool" where
  "name_eq str m n = (case n of Literal l \<Rightarrow> str = l | In_File a \<Rightarrow> strcmp_eq str m a)"

section \<open>Magic numbers\<close>

definition elf_magic :: "bmem \<Rightarrow> u32 \<Rightarrow> bool" where
  "elf_magic m f \<longleftrightarrow> m f = 0x7F \<and> m (f + 1) = of_char CHR ''E'' \<and> m (f + 2) = of_char CHR ''L'' \<and>
     m (f + 3) = of_char CHR ''F''"

definition elf32_checkFile :: "bmem \<Rightarrow> u32 \<Rightarrow> int" where
  "elf32_checkFile m f = (if \<not> elf_magic m f then -1 else if m (f + EI_CLASS) \<noteq> ELFCLASS32 then -2 else 0)"

definition elf64_checkFile :: "bmem \<Rightarrow> u32 \<Rightarrow> int" where
  "elf64_checkFile m f = (if \<not> elf_magic m f then -1 else if m (f + EI_CLASS) \<noteq> ELFCLASS64 then -2 else 0)"

section \<open>32-bit files\<close>

text \<open>The fields of \<^verbatim>\<open>struct Elf32_Header\<close> that are used.\<close>

record Elf32_Header =
  e_entry :: u32
  e_phoff :: u32
  e_shoff :: u32
  e_phnum :: u16
  e_shnum :: u16
  e_shstrndx :: u16

definition header32 :: "bmem \<Rightarrow> u32 \<Rightarrow> Elf32_Header" where
  "header32 m f = \<lparr>e_entry = rd32 m (f + 24), e_phoff = rd32 m (f + 28), e_shoff = rd32 m (f + 32),
     e_phnum = rd16 m (f + 44), e_shnum = rd16 m (f + 48), e_shstrndx = rd16 m (f + 50)\<rparr>"

record Elf32_Shdr =
  sh_name :: u32
  sh_type :: u32
  sh_flags :: u32
  sh_addr :: u32
  sh_offset :: u32
  sh_size :: u32

definition shdr32 :: "bmem \<Rightarrow> u32 \<Rightarrow> Elf32_Shdr" where
  "shdr32 m a = \<lparr>sh_name = rd32 m a, sh_type = rd32 m (a + 4), sh_flags = rd32 m (a + 8), sh_addr = rd32 m (a + 12),
     sh_offset = rd32 m (a + 16), sh_size = rd32 m (a + 20)\<rparr>"

record Elf32_Phdr =
  p_type :: u32
  p_offset :: u32
  p_vaddr :: u32
  p_paddr :: u32
  p_filesz :: u32
  p_memsz :: u32
  p_flags :: u32

definition phdr32 :: "bmem \<Rightarrow> u32 \<Rightarrow> Elf32_Phdr" where
  "phdr32 m a = \<lparr>p_type = rd32 m a, p_offset = rd32 m (a + 4), p_vaddr = rd32 m (a + 8), p_paddr = rd32 m (a + 12),
     p_filesz = rd32 m (a + 16), p_memsz = rd32 m (a + 20), p_flags = rd32 m (a + 24)\<rparr>"

definition elf32_getSectionTable :: "bmem \<Rightarrow> u32 \<Rightarrow> u32" where
  "elf32_getSectionTable m f = f + e_shoff (header32 m f)"

text \<open>Entry \<open>i\<close> of the section and of the program header table.\<close>

definition section32 :: "bmem \<Rightarrow> u32 \<Rightarrow> int \<Rightarrow> Elf32_Shdr" where
  "section32 m f i = shdr32 m (elf32_getSectionTable m f + word_of_int (40 * i))"

definition elf32_getNumSections :: "bmem \<Rightarrow> u32 \<Rightarrow> u32" where
  "elf32_getNumSections m f = ucast (e_shnum (header32 m f))"

definition elf32_getStringTable :: "bmem \<Rightarrow> u32 \<Rightarrow> u32" where
  "elf32_getStringTable m f = f + sh_offset (section32 m f (uint (e_shstrndx (header32 m f))))"

definition elf32_getProgramSegmentTable :: "bmem \<Rightarrow> u32 \<Rightarrow> u32" where
  "elf32_getProgramSegmentTable m f = e_phoff (header32 m f) + f"

definition elf32_getNumProgramHeaders :: "bmem \<Rightarrow> u32 \<Rightarrow> u16" where
  "elf32_getNumProgramHeaders m f = e_phnum (header32 m f)"

definition elf32_getSegmentStringTable :: "bmem \<Rightarrow> u32 \<Rightarrow> u32" where
  "elf32_getSegmentStringTable m f =
     (if e_shstrndx (header32 m f) = 0 then 0 else elf32_getStringTable m f)"

definition elf32_getSectionName :: "bmem \<Rightarrow> u32 \<Rightarrow> int \<Rightarrow> cstring" where
  "elf32_getSectionName m f i = (let t = elf32_getSegmentStringTable m f in
     if t = 0 then Literal ''<corrupted>'' else In_File (t + sh_name (section32 m f i)))"

definition elf32_getSectionSize :: "bmem \<Rightarrow> u32 \<Rightarrow> int \<Rightarrow> u32" where
  "elf32_getSectionSize m f i = sh_size (section32 m f i)"

definition elf32_getSectionAddr :: "bmem \<Rightarrow> u32 \<Rightarrow> int \<Rightarrow> u32" where
  "elf32_getSectionAddr m f i = sh_addr (section32 m f i)"

definition elf32_getSectionType :: "bmem \<Rightarrow> u32 \<Rightarrow> u16 \<Rightarrow> u32" where
  "elf32_getSectionType m f i = sh_type (section32 m f (uint i))"

definition elf32_getSectionFlags :: "bmem \<Rightarrow> u32 \<Rightarrow> u16 \<Rightarrow> u32" where
  "elf32_getSectionFlags m f i = sh_flags (section32 m f (uint i))"

definition elf32_getSection :: "bmem \<Rightarrow> u32 \<Rightarrow> int \<Rightarrow> u32" where
  "elf32_getSection m f i = f + sh_offset (section32 m f i)"

definition elf32_getSectionNamed :: "bmem \<Rightarrow> u32 \<Rightarrow> string \<Rightarrow> u32" where
  "elf32_getSectionNamed m f str =
     (case find (\<lambda>i. name_eq str m (elf32_getSectionName m f i)) [0..uint (elf32_getNumSections m f) - 1] of
        Some i \<Rightarrow> elf32_getSection m f i | None \<Rightarrow> 0)"

definition elf32_getSegmentType :: "bmem \<Rightarrow> u32 \<Rightarrow> int \<Rightarrow> u32" where
  "elf32_getSegmentType m f i = p_type (phdr32 m (elf32_getProgramSegmentTable m f + word_of_int (32 * i)))"

text \<open>Virtual address, physical address, size in the file, offset in the file, size in memory.\<close>

definition elf32_getSegmentInfo :: "bmem \<Rightarrow> u32 \<Rightarrow> int \<Rightarrow> u64 \<times> u64 \<times> u64 \<times> u64 \<times> u64" where
  "elf32_getSegmentInfo m f i = (let p = phdr32 m (elf32_getProgramSegmentTable m f + word_of_int (32 * i)) in
     (ucast (p_vaddr p), ucast (p_paddr p), ucast (p_filesz p), ucast (p_offset p), ucast (p_memsz p)))"

definition elf32_getEntryPoint :: "bmem \<Rightarrow> u32 \<Rightarrow> u32" where
  "elf32_getEntryPoint m f = e_entry (header32 m f)"

definition elf32_getProgramHeaderTable :: "bmem \<Rightarrow> u32 \<Rightarrow> u32" where
  "elf32_getProgramHeaderTable m f = f + e_phoff (header32 m f)"

definition program32 :: "bmem \<Rightarrow> u32 \<Rightarrow> u16 \<Rightarrow> Elf32_Phdr" where
  "program32 m f ph = phdr32 m (elf32_getProgramHeaderTable m f + 32 * ucast ph)"

definition elf32_getProgramHeaderFlags :: "bmem \<Rightarrow> u32 \<Rightarrow> u16 \<Rightarrow> u32" where
  "elf32_getProgramHeaderFlags m f ph = p_flags (program32 m f ph)"
definition elf32_getProgramHeaderType :: "bmem \<Rightarrow> u32 \<Rightarrow> u16 \<Rightarrow> u32" where
  "elf32_getProgramHeaderType m f ph = p_type (program32 m f ph)"
definition elf32_getProgramHeaderFileSize :: "bmem \<Rightarrow> u32 \<Rightarrow> u16 \<Rightarrow> u32" where
  "elf32_getProgramHeaderFileSize m f ph = p_filesz (program32 m f ph)"
definition elf32_getProgramHeaderMemorySize :: "bmem \<Rightarrow> u32 \<Rightarrow> u16 \<Rightarrow> u32" where
  "elf32_getProgramHeaderMemorySize m f ph = p_memsz (program32 m f ph)"
definition elf32_getProgramHeaderVaddr :: "bmem \<Rightarrow> u32 \<Rightarrow> u16 \<Rightarrow> u32" where
  "elf32_getProgramHeaderVaddr m f ph = p_vaddr (program32 m f ph)"
definition elf32_getProgramHeaderPaddr :: "bmem \<Rightarrow> u32 \<Rightarrow> u16 \<Rightarrow> u32" where
  "elf32_getProgramHeaderPaddr m f ph = p_paddr (program32 m f ph)"
definition elf32_getProgramHeaderOffset :: "bmem \<Rightarrow> u32 \<Rightarrow> u16 \<Rightarrow> u32" where
  "elf32_getProgramHeaderOffset m f ph = p_offset (program32 m f ph)"

section \<open>64-bit files\<close>

record Elf64_Header =
  e64_entry :: u64
  e64_phoff :: u64
  e64_shoff :: u64
  e64_phnum :: u16
  e64_shnum :: u16
  e64_shstrndx :: u16

definition header64 :: "bmem \<Rightarrow> u32 \<Rightarrow> Elf64_Header" where
  "header64 m f = \<lparr>e64_entry = rd64 m (f + 24), e64_phoff = rd64 m (f + 32), e64_shoff = rd64 m (f + 40),
     e64_phnum = rd16 m (f + 56), e64_shnum = rd16 m (f + 60), e64_shstrndx = rd16 m (f + 62)\<rparr>"

record Elf64_Shdr =
  sh64_name :: u32
  sh64_type :: u32
  sh64_flags :: u64
  sh64_addr :: u64
  sh64_offset :: u64
  sh64_size :: u64

definition shdr64 :: "bmem \<Rightarrow> u32 \<Rightarrow> Elf64_Shdr" where
  "shdr64 m a = \<lparr>sh64_name = rd32 m a, sh64_type = rd32 m (a + 4), sh64_flags = rd64 m (a + 8), sh64_addr = rd64 m (a + 16),
     sh64_offset = rd64 m (a + 24), sh64_size = rd64 m (a + 32)\<rparr>"

record Elf64_Phdr =
  p64_type :: u32
  p64_flags :: u32
  p64_offset :: u64
  p64_vaddr :: u64
  p64_paddr :: u64
  p64_filesz :: u64
  p64_memsz :: u64

definition phdr64 :: "bmem \<Rightarrow> u32 \<Rightarrow> Elf64_Phdr" where
  "phdr64 m a = \<lparr>p64_type = rd32 m a, p64_flags = rd32 m (a + 4), p64_offset = rd64 m (a + 8), p64_vaddr = rd64 m (a + 16),
     p64_paddr = rd64 m (a + 24), p64_filesz = rd64 m (a + 32), p64_memsz = rd64 m (a + 40)\<rparr>"

text \<open>A 64-bit offset added to a pointer keeps its low 32 bits.\<close>

definition elf64_getSectionTable :: "bmem \<Rightarrow> u32 \<Rightarrow> u32" where
  "elf64_getSectionTable m f = f + ucast (e64_shoff (header64 m f))"

definition section64 :: "bmem \<Rightarrow> u32 \<Rightarrow> int \<Rightarrow> Elf64_Shdr" where
  "section64 m f i = shdr64 m (elf64_getSectionTable m f + word_of_int (64 * i))"

definition elf64_getProgramSegmentTable :: "bmem \<Rightarrow> u32 \<Rightarrow> u32" where
  "elf64_getProgramSegmentTable m f = ucast (e64_phoff (header64 m f)) + f"

definition elf64_getNumSections :: "bmem \<Rightarrow> u32 \<Rightarrow> u32" where
  "elf64_getNumSections m f = ucast (e64_shnum (header64 m f))"

definition elf64_getStringTable :: "bmem \<Rightarrow> u32 \<Rightarrow> int \<Rightarrow> u32" where
  "elf64_getStringTable m f seg = f + ucast (sh64_offset (section64 m f seg))"

definition elf64_getSegmentStringTable :: "bmem \<Rightarrow> u32 \<Rightarrow> u32" where
  "elf64_getSegmentStringTable m f = (if e64_shstrndx (header64 m f) = 0 then 0
     else elf64_getStringTable m f (uint (e64_shstrndx (header64 m f))))"

definition elf64_getSectionName :: "bmem \<Rightarrow> u32 \<Rightarrow> int \<Rightarrow> cstring" where
  "elf64_getSectionName m f i = (let t = elf64_getSegmentStringTable m f in
     if t = 0 then Literal ''<corrupted>'' else In_File (t + sh64_name (section64 m f i)))"

definition elf64_getSectionSize :: "bmem \<Rightarrow> u32 \<Rightarrow> int \<Rightarrow> u64" where
  "elf64_getSectionSize m f i = sh64_size (section64 m f i)"

definition elf64_getSectionAddr :: "bmem \<Rightarrow> u32 \<Rightarrow> int \<Rightarrow> u64" where
  "elf64_getSectionAddr m f i = sh64_addr (section64 m f i)"

definition elf64_getSectionType :: "bmem \<Rightarrow> u32 \<Rightarrow> u16 \<Rightarrow> u32" where
  "elf64_getSectionType m f i = sh64_type (section64 m f (uint i))"

definition elf64_getSectionFlags :: "bmem \<Rightarrow> u32 \<Rightarrow> u16 \<Rightarrow> u32" where
  "elf64_getSectionFlags m f i = ucast (sh64_flags (section64 m f (uint i)))"

definition elf64_getSection :: "bmem \<Rightarrow> u32 \<Rightarrow> int \<Rightarrow> u32" where
  "elf64_getSection m f i = f + ucast (sh64_offset (section64 m f i))"

definition elf64_getSectionNamed :: "bmem \<Rightarrow> u32 \<Rightarrow> string \<Rightarrow> u32" where
  "elf64_getSectionNamed m f str =
     (case find (\<lambda>i. name_eq str m (elf64_getSectionName m f i)) [0..uint (elf64_getNumSections m f) - 1] of
        Some i \<Rightarrow> elf64_getSection m f i | None \<Rightarrow> 0)"

definition elf64_getNumProgramHeaders :: "bmem \<Rightarrow> u32 \<Rightarrow> u16" where
  "elf64_getNumProgramHeaders m f = e64_phnum (header64 m f)"

definition elf64_getSegmentType :: "bmem \<Rightarrow> u32 \<Rightarrow> int \<Rightarrow> u32" where
  "elf64_getSegmentType m f i = p64_type (phdr64 m (elf64_getProgramSegmentTable m f + word_of_int (56 * i)))"

definition elf64_getSegmentInfo :: "bmem \<Rightarrow> u32 \<Rightarrow> int \<Rightarrow> u64 \<times> u64 \<times> u64 \<times> u64 \<times> u64" where
  "elf64_getSegmentInfo m f i = (let p = phdr64 m (elf64_getProgramSegmentTable m f + word_of_int (56 * i)) in
     (p64_vaddr p, p64_paddr p, p64_filesz p, p64_offset p, p64_memsz p))"

definition elf64_getEntryPoint :: "bmem \<Rightarrow> u32 \<Rightarrow> u64" where
  "elf64_getEntryPoint m f = e64_entry (header64 m f)"

definition elf64_getProgramHeaderTable :: "bmem \<Rightarrow> u32 \<Rightarrow> u32" where
  "elf64_getProgramHeaderTable m f = f + ucast (e64_phoff (header64 m f))"

definition program64 :: "bmem \<Rightarrow> u32 \<Rightarrow> u16 \<Rightarrow> Elf64_Phdr" where
  "program64 m f ph = phdr64 m (elf64_getProgramHeaderTable m f + 56 * ucast ph)"

definition elf64_getProgramHeaderFlags :: "bmem \<Rightarrow> u32 \<Rightarrow> u16 \<Rightarrow> u32" where
  "elf64_getProgramHeaderFlags m f ph = p64_flags (program64 m f ph)"
definition elf64_getProgramHeaderType :: "bmem \<Rightarrow> u32 \<Rightarrow> u16 \<Rightarrow> u32" where
  "elf64_getProgramHeaderType m f ph = p64_type (program64 m f ph)"
definition elf64_getProgramHeaderFileSize :: "bmem \<Rightarrow> u32 \<Rightarrow> u16 \<Rightarrow> u64" where
  "elf64_getProgramHeaderFileSize m f ph = p64_filesz (program64 m f ph)"
definition elf64_getProgramHeaderMemorySize :: "bmem \<Rightarrow> u32 \<Rightarrow> u16 \<Rightarrow> u64" where
  "elf64_getProgramHeaderMemorySize m f ph = p64_memsz (program64 m f ph)"
definition elf64_getProgramHeaderVaddr :: "bmem \<Rightarrow> u32 \<Rightarrow> u16 \<Rightarrow> u64" where
  "elf64_getProgramHeaderVaddr m f ph = p64_vaddr (program64 m f ph)"
definition elf64_getProgramHeaderPaddr :: "bmem \<Rightarrow> u32 \<Rightarrow> u16 \<Rightarrow> u64" where
  "elf64_getProgramHeaderPaddr m f ph = p64_paddr (program64 m f ph)"
definition elf64_getProgramHeaderOffset :: "bmem \<Rightarrow> u32 \<Rightarrow> u16 \<Rightarrow> u64" where
  "elf64_getProgramHeaderOffset m f ph = p64_offset (program64 m f ph)"

section \<open>Either class\<close>

definition ISELF32 :: "bmem \<Rightarrow> u32 \<Rightarrow> bool" where
  "ISELF32 m f \<longleftrightarrow> m (f + EI_CLASS) = ELFCLASS32"

definition elf_checkFile :: "bmem \<Rightarrow> u32 \<Rightarrow> int" where
  "elf_checkFile m f = (if ISELF32 m f then elf32_checkFile m f else elf64_checkFile m f)"
definition elf_getNumProgramHeaders :: "bmem \<Rightarrow> u32 \<Rightarrow> u16" where
  "elf_getNumProgramHeaders m f = (if ISELF32 m f then elf32_getNumProgramHeaders m f else elf64_getNumProgramHeaders m f)"
definition elf_getProgramHeaderFlags :: "bmem \<Rightarrow> u32 \<Rightarrow> u16 \<Rightarrow> u32" where
  "elf_getProgramHeaderFlags m f ph =
     (if ISELF32 m f then elf32_getProgramHeaderFlags m f ph else elf64_getProgramHeaderFlags m f ph)"
definition elf_getProgramHeaderType :: "bmem \<Rightarrow> u32 \<Rightarrow> u16 \<Rightarrow> u32" where
  "elf_getProgramHeaderType m f ph =
     (if ISELF32 m f then elf32_getProgramHeaderType m f ph else elf64_getProgramHeaderType m f ph)"
definition elf_getProgramHeaderPaddr :: "bmem \<Rightarrow> u32 \<Rightarrow> u16 \<Rightarrow> u64" where
  "elf_getProgramHeaderPaddr m f ph =
     (if ISELF32 m f then ucast (elf32_getProgramHeaderPaddr m f ph) else elf64_getProgramHeaderPaddr m f ph)"
definition elf_getProgramHeaderVaddr :: "bmem \<Rightarrow> u32 \<Rightarrow> u16 \<Rightarrow> u64" where
  "elf_getProgramHeaderVaddr m f ph =
     (if ISELF32 m f then ucast (elf32_getProgramHeaderVaddr m f ph) else elf64_getProgramHeaderVaddr m f ph)"
definition elf_getProgramHeaderMemorySize :: "bmem \<Rightarrow> u32 \<Rightarrow> u16 \<Rightarrow> u64" where
  "elf_getProgramHeaderMemorySize m f ph =
     (if ISELF32 m f then ucast (elf32_getProgramHeaderMemorySize m f ph) else elf64_getProgramHeaderMemorySize m f ph)"
definition elf_getProgramHeaderFileSize :: "bmem \<Rightarrow> u32 \<Rightarrow> u16 \<Rightarrow> u64" where
  "elf_getProgramHeaderFileSize m f ph =
     (if ISELF32 m f then ucast (elf32_getProgramHeaderFileSize m f ph) else elf64_getProgramHeaderFileSize m f ph)"
definition elf_getProgramHeaderOffset :: "bmem \<Rightarrow> u32 \<Rightarrow> u16 \<Rightarrow> u64" where
  "elf_getProgramHeaderOffset m f ph =
     (if ISELF32 m f then ucast (elf32_getProgramHeaderOffset m f ph) else elf64_getProgramHeaderOffset m f ph)"
definition elf_getSegmentStringTable :: "bmem \<Rightarrow> u32 \<Rightarrow> u32" where
  "elf_getSegmentStringTable m f =
     (if ISELF32 m f then elf32_getSegmentStringTable m f else elf64_getSegmentStringTable m f)"
definition elf_getStringTable :: "bmem \<Rightarrow> u32 \<Rightarrow> int \<Rightarrow> u32" where
  "elf_getStringTable m f seg = (if ISELF32 m f then elf32_getStringTable m f else elf64_getStringTable m f seg)"
definition elf_getNumSections :: "bmem \<Rightarrow> u32 \<Rightarrow> u32" where
  "elf_getNumSections m f = (if ISELF32 m f then elf32_getNumSections m f else elf64_getNumSections m f)"
definition elf_getSectionName :: "bmem \<Rightarrow> u32 \<Rightarrow> int \<Rightarrow> cstring" where
  "elf_getSectionName m f i = (if ISELF32 m f then elf32_getSectionName m f i else elf64_getSectionName m f i)"
definition elf_getSectionFlags :: "bmem \<Rightarrow> u32 \<Rightarrow> int \<Rightarrow> u32" where
  "elf_getSectionFlags m f i =
     (if ISELF32 m f then elf32_getSectionFlags m f (word_of_int i) else elf64_getSectionFlags m f (word_of_int i))"
definition elf_getSectionType :: "bmem \<Rightarrow> u32 \<Rightarrow> int \<Rightarrow> u32" where
  "elf_getSectionType m f i =
     (if ISELF32 m f then elf32_getSectionType m f (word_of_int i) else elf64_getSectionType m f (word_of_int i))"
definition elf_getSectionSize :: "bmem \<Rightarrow> u32 \<Rightarrow> int \<Rightarrow> u64" where
  "elf_getSectionSize m f i =
     (if ISELF32 m f then ucast (elf32_getSectionSize m f i) else elf64_getSectionSize m f i)"
definition elf_getSectionAddr :: "bmem \<Rightarrow> u32 \<Rightarrow> int \<Rightarrow> u64" where
  "elf_getSectionAddr m f i =
     (if ISELF32 m f then ucast (elf32_getSectionAddr m f i) else elf64_getSectionAddr m f i)"
definition elf_getSection :: "bmem \<Rightarrow> u32 \<Rightarrow> int \<Rightarrow> u32" where
  "elf_getSection m f i = (if ISELF32 m f then elf32_getSection m f i else elf64_getSection m f i)"
definition elf_getSectionNamed :: "bmem \<Rightarrow> u32 \<Rightarrow> string \<Rightarrow> u32" where
  "elf_getSectionNamed m f str = (if ISELF32 m f then elf32_getSectionNamed m f str else elf64_getSectionNamed m f str)"
definition elf_getProgramHeaderInfo :: "bmem \<Rightarrow> u32 \<Rightarrow> u16 \<Rightarrow> u64 \<times> u64 \<times> u64 \<times> u64 \<times> u64" where
  "elf_getProgramHeaderInfo m f ph = (elf_getProgramHeaderVaddr m f ph, elf_getProgramHeaderPaddr m f ph,
     elf_getProgramHeaderFileSize m f ph, elf_getProgramHeaderOffset m f ph, elf_getProgramHeaderMemorySize m f ph)"
definition elf_getEntryPoint :: "bmem \<Rightarrow> u32 \<Rightarrow> u64" where
  "elf_getEntryPoint m f = (if ISELF32 m f then ucast (elf32_getEntryPoint m f) else elf64_getEntryPoint m f)"

definition elf_vaddrInProgramHeader :: "bmem \<Rightarrow> u32 \<Rightarrow> u16 \<Rightarrow> u64 \<Rightarrow> bool" where
  "elf_vaddrInProgramHeader m f ph vaddr = (let lo = elf_getProgramHeaderVaddr m f ph;
       hi = lo + elf_getProgramHeaderMemorySize m f ph in lo \<le> vaddr \<and> vaddr < hi)"

definition elf_vtopProgramHeader :: "bmem \<Rightarrow> u32 \<Rightarrow> u16 \<Rightarrow> u64 \<Rightarrow> u64" where
  "elf_vtopProgramHeader m f ph vaddr =
     vaddr - elf_getProgramHeaderVaddr m f ph + elf_getProgramHeaderPaddr m f ph"

section \<open>Bounds and loading\<close>

text \<open>Where a segment goes.\<close>

definition seg_base :: "bmem \<Rightarrow> u32 \<Rightarrow> bool \<Rightarrow> u16 \<Rightarrow> u64" where
  "seg_base m f phys ph = (if phys then elf_getProgramHeaderPaddr m f ph else elf_getProgramHeaderVaddr m f ph)"

fun bounds_loop :: "bmem \<Rightarrow> u32 \<Rightarrow> bool \<Rightarrow> u16 list \<Rightarrow> u64 \<times> u64 \<Rightarrow> u64 \<times> u64" where
  "bounds_loop m f phys [] (lo, hi) = (lo, hi)"
| "bounds_loop m f phys (i # is) (lo, hi) =
     (if elf_getProgramHeaderMemorySize m f i = 0 then bounds_loop m f phys is (lo, hi)
      else let sect_min = seg_base m f phys i;
          sect_max = sect_min + elf_getProgramHeaderMemorySize m f i in
        bounds_loop m f phys is
          (if sect_min < lo then sect_min else lo, if sect_max > hi then sect_max else hi))"

definition headers :: "bmem \<Rightarrow> u32 \<Rightarrow> u16 list" where
  "headers m f = map of_nat [0..<unat (elf_getNumProgramHeaders m f)]"

definition elf_getMemoryBounds :: "bmem \<Rightarrow> u32 \<Rightarrow> bool \<Rightarrow> (u64 \<times> u64) option" where
  "elf_getMemoryBounds m f phys =
     (if elf_checkFile m f \<noteq> 0 then None else Some (bounds_loop m f phys (headers m f) (- 1, 0)))"

text \<open>Copying between ranges that overlap is undefined.\<close>

definition in_range :: "u32 \<Rightarrow> u32 \<Rightarrow> u32 \<Rightarrow> bool" where
  "in_range base n a \<longleftrightarrow> a - base < n"

definition overlap :: "u32 \<Rightarrow> u32 \<Rightarrow> u32 \<Rightarrow> bool" where
  "overlap d s n \<longleftrightarrow> n \<noteq> 0 \<and> (in_range d n s \<or> in_range s n d)"

definition memcpy :: "u32 \<Rightarrow> u32 \<Rightarrow> u32 \<Rightarrow> bmem \<Rightarrow> bmem option" where
  "memcpy d s n m = (if overlap d s n then None else Some (\<lambda>a. if in_range d n a then m (s + (a - d)) else m a))"

definition memset0 :: "u32 \<Rightarrow> u32 \<Rightarrow> bmem \<Rightarrow> bmem" where
  "memset0 d n m = (\<lambda>a. if in_range d n a then 0 else m a)"

text \<open>
  Loading reads the headers from the memory it writes to: also the number of headers is read anew in
  every round. The size of the cleared part is taken modulo the word size.
\<close>

definition load_segment :: "u32 \<Rightarrow> bool \<Rightarrow> u16 \<Rightarrow> bmem \<Rightarrow> bmem option" where
  "load_segment f phys ph m = do {
     let dest = seg_base m f phys ph;
     let len = (ucast (elf_getProgramHeaderFileSize m f ph) :: u32);
     let src = (ucast f :: u64) + elf_getProgramHeaderOffset m f ph;
     m \<leftarrow> memcpy (ucast dest) (ucast src) len m;
     let dest = dest + ucast len;
     Some (memset0 (ucast dest) (ucast (elf_getProgramHeaderMemorySize m f ph - ucast len)) m) }"

function load_loop :: "u32 \<Rightarrow> bool \<Rightarrow> nat \<Rightarrow> bmem \<Rightarrow> bmem option" where
  "load_loop f phys i m =
     (if i < unat (elf_getNumProgramHeaders m f)
      then (case load_segment f phys (of_nat i) m of None \<Rightarrow> None | Some m' \<Rightarrow> load_loop f phys (Suc i) m')
      else Some m)"
  by auto
termination
proof (relation "measure (\<lambda>(f, phys, i, m). 65536 - i)")
  fix f phys i m m'
  assume "i < unat (elf_getNumProgramHeaders m f)"
  moreover have "unat (elf_getNumProgramHeaders m f) < 2 ^ 16"
    by (rule order_less_le_trans [OF unsigned_less]) simp
  ultimately have "i < 65536"
    by simp
  then show "((f, phys, Suc i, m'), f, phys, i, m) \<in> measure (\<lambda>(f, phys, i, m). 65536 - i)"
    by simp
qed simp

declare load_loop.simps [simp del]

definition elf_loadFile :: "u32 \<Rightarrow> bool \<Rightarrow> bmem \<Rightarrow> (bool \<times> bmem) option" where
  "elf_loadFile f phys m = (if elf_checkFile m f \<noteq> 0 then Some (False, m)
     else do { m \<leftarrow> load_loop f phys 0 m; Some (True, m) })"

section \<open>Loading puts every segment in place\<close>

lemma mod_down:
  "((x :: int) mod 18446744073709551616 + y mod 18446744073709551616) mod 4294967296 = (x + y) mod 4294967296"
  "(x mod 18446744073709551616 - y mod 18446744073709551616) mod 4294967296 = (x - y) mod 4294967296"
  by (subst mod_add_eq [symmetric] mod_diff_eq [symmetric]; simp add: mod_mod_cancel mod_add_eq mod_diff_eq)+

lemma ucast_down_add: "(ucast (x + y :: u64) :: u32) = ucast x + ucast y"
  by transfer (simp add: take_bit_eq_mod mod_mod_cancel mod_down)

lemma ucast_down_diff: "(ucast (x - y :: u64) :: u32) = ucast x - ucast y"
  by transfer (simp add: take_bit_eq_mod mod_mod_cancel mod_down)

lemma ucast_up_down [simp]: "(ucast (ucast (x :: u32) :: u64) :: u32) = x"
  by transfer (simp add: take_bit_eq_mod mod_mod_cancel)

lemma range_split: "(l :: u32) \<le> n \<Longrightarrow> k - l < n - l \<longleftrightarrow> l \<le> k \<and> k < n"
  by uint_arith

text \<open>Base, source, size in the file and size in memory of a segment, as addresses.\<close>

definition sbase :: "bmem \<Rightarrow> u32 \<Rightarrow> bool \<Rightarrow> nat \<Rightarrow> u32" where
  "sbase m f phys i = ucast (seg_base m f phys (of_nat i))"
definition ssrc :: "bmem \<Rightarrow> u32 \<Rightarrow> nat \<Rightarrow> u32" where
  "ssrc m f i = f + ucast (elf_getProgramHeaderOffset m f (of_nat i))"
definition sfile :: "bmem \<Rightarrow> u32 \<Rightarrow> nat \<Rightarrow> u32" where
  "sfile m f i = ucast (elf_getProgramHeaderFileSize m f (of_nat i))"
definition smem :: "bmem \<Rightarrow> u32 \<Rightarrow> nat \<Rightarrow> u32" where
  "smem m f i = ucast (elf_getProgramHeaderMemorySize m f (of_nat i))"

definition phaddr :: "bmem \<Rightarrow> u32 \<Rightarrow> nat \<Rightarrow> u32" where
  "phaddr m f i = (if ISELF32 m f then elf32_getProgramHeaderTable m f + 32 * ucast (of_nat i :: u16)
     else elf64_getProgramHeaderTable m f + 56 * ucast (of_nat i :: u16))"

text \<open>The file, its headers and the contents of its segments, lies in the set \<open>I\<close> of addresses.\<close>

definition elf_image :: "bmem \<Rightarrow> u32 \<Rightarrow> u32 set \<Rightarrow> bool" where
  "elf_image m f I \<longleftrightarrow> (\<forall>k<64. f + k \<in> I) \<and>
     (\<forall>i<unat (elf_getNumProgramHeaders m f). (\<forall>k<56. phaddr m f i + k \<in> I) \<and> (\<forall>k < sfile m f i. ssrc m f i + k \<in> I))"

definition same_on :: "u32 set \<Rightarrow> bmem \<Rightarrow> bmem \<Rightarrow> bool" where
  "same_on I m m' \<longleftrightarrow> (\<forall>a\<in>I. m' a = m a)"

lemma header_same:
  assumes "elf_image m f I" and "same_on I m m'"
  shows "ISELF32 m' f = ISELF32 m f" and "elf_getNumProgramHeaders m' f = elf_getNumProgramHeaders m f"
    and "phaddr m' f i = phaddr m f i"
proof -
  have h: "m' (f + k) = m (f + k)" if "k < 64" for k
    using assms that by (simp add: elf_image_def same_on_def)
  have i: "ISELF32 m' f = ISELF32 m f"
    by (simp add: ISELF32_def h)
  then show "ISELF32 m' f = ISELF32 m f" .
  show "elf_getNumProgramHeaders m' f = elf_getNumProgramHeaders m f"
    unfolding elf_getNumProgramHeaders_def i
    by (simp add: elf32_getNumProgramHeaders_def elf64_getNumProgramHeaders_def header32_def header64_def rd16_def h add.assoc)
  show "phaddr m' f i = phaddr m f i"
    unfolding phaddr_def i
    by (simp add: elf32_getProgramHeaderTable_def elf64_getProgramHeaderTable_def header32_def header64_def rd64_def rd32_def
        rd16_def h add.assoc)
qed

lemma program_same:
  assumes img: "elf_image m f I" and same: "same_on I m m'" and i: "i < unat (elf_getNumProgramHeaders m f)"
  shows "sbase m' f phys i = sbase m f phys i" and "ssrc m' f i = ssrc m f i" and "sfile m' f i = sfile m f i"
    and "smem m' f i = smem m f i"
proof -
  have h: "m' (phaddr m f i + k) = m (phaddr m f i + k)" if "k < 56" for k
    using assms that by (simp add: elf_image_def same_on_def)
  have h0: "m' (phaddr m f i) = m (phaddr m f i)"
    using h [of 0] by simp
  have p32: "program32 m' f (of_nat i) = program32 m f (of_nat i)" if "ISELF32 m f"
  proof -
    have "elf32_getProgramHeaderTable m f + 32 * ucast (of_nat i :: u16) = phaddr m f i"
      "elf32_getProgramHeaderTable m' f + 32 * ucast (of_nat i :: u16) = phaddr m f i"
      using that header_same(1,3) [OF img same] by (simp_all add: phaddr_def)
    then show ?thesis
      unfolding program32_def by (simp add: phdr32_def rd32_def rd16_def h h0 add.assoc)
  qed
  have p64: "program64 m' f (of_nat i) = program64 m f (of_nat i)" if "\<not> ISELF32 m f"
  proof -
    have "elf64_getProgramHeaderTable m f + 56 * ucast (of_nat i :: u16) = phaddr m f i"
      "elf64_getProgramHeaderTable m' f + 56 * ucast (of_nat i :: u16) = phaddr m f i"
      using that header_same(1,3) [OF img same] by (simp_all add: phaddr_def)
    then show ?thesis
      unfolding program64_def by (simp add: phdr64_def rd64_def rd32_def rd16_def h h0 add.assoc)
  qed
  note defs = elf_getProgramHeaderPaddr_def elf_getProgramHeaderVaddr_def elf_getProgramHeaderOffset_def
    elf_getProgramHeaderFileSize_def elf_getProgramHeaderMemorySize_def
    elf32_getProgramHeaderPaddr_def elf32_getProgramHeaderVaddr_def elf32_getProgramHeaderOffset_def
    elf32_getProgramHeaderFileSize_def elf32_getProgramHeaderMemorySize_def
    elf64_getProgramHeaderPaddr_def elf64_getProgramHeaderVaddr_def elf64_getProgramHeaderOffset_def
    elf64_getProgramHeaderFileSize_def elf64_getProgramHeaderMemorySize_def
  show "sbase m' f phys i = sbase m f phys i" "ssrc m' f i = ssrc m f i" "sfile m' f i = sfile m f i"
    "smem m' f i = smem m f i"
    using header_same(1) [OF img same] p32 p64
    by (simp_all add: sbase_def seg_base_def ssrc_def sfile_def smem_def defs)
qed

text \<open>The destinations: every segment is at least as large in memory as in the file, and no two overlap nor meet the file.\<close>

definition elf_placed :: "bmem \<Rightarrow> u32 \<Rightarrow> bool \<Rightarrow> u32 set \<Rightarrow> bool" where
  "elf_placed m f phys I \<longleftrightarrow> (\<forall>i<unat (elf_getNumProgramHeaders m f).
     sfile m f i \<le> smem m f i \<and> (\<forall>a\<in>I. \<not> in_range (sbase m f phys i) (smem m f i) a) \<and>
     (\<forall>j<unat (elf_getNumProgramHeaders m f). \<forall>a. i \<noteq> j \<longrightarrow> in_range (sbase m f phys i) (smem m f i) a \<longrightarrow>
        \<not> in_range (sbase m f phys j) (smem m f j) a))"

text \<open>The effect of loading segment \<open>i\<close> of the file that is in memory \<open>m\<close>.\<close>

definition put_segment :: "bmem \<Rightarrow> u32 \<Rightarrow> bool \<Rightarrow> nat \<Rightarrow> bmem \<Rightarrow> bmem" where
  "put_segment m f phys i m' = (\<lambda>a. let k = a - sbase m f phys i in
     if k < smem m f i then if k < sfile m f i then m (ssrc m f i + k) else 0 else m' a)"

lemma load_segment_eq:
  assumes img: "elf_image m f I" and pl: "elf_placed m f phys I" and same: "same_on I m m'"
    and i: "i < unat (elf_getNumProgramHeaders m f)"
  shows "load_segment f phys (of_nat i) m' = Some (put_segment m f phys i m')"
proof -
  let ?b = "sbase m f phys i" and ?s = "ssrc m f i" and ?l = "sfile m f i" and ?n = "smem m f i"
  let ?c = "\<lambda>a. if in_range ?b ?l a then m' (?s + (a - ?b)) else m' a"
  note ps = program_same [OF img same i]
  have ln: "?l \<le> ?n" and off: "\<not> in_range ?b ?n a" if "a \<in> I" for a
    using pl i that by (auto simp: elf_placed_def)
  have src: "?s + k \<in> I" if "k < ?l" for k
    using img i that by (simp add: elf_image_def)
  have f0: "f \<in> I"
    using img by (auto simp: elf_image_def dest: spec [of _ 0])
  have le: "?l \<le> ?n"
    using ln [OF f0] .
  have "\<not> overlap ?b ?s ?l"
  proof
    assume "overlap ?b ?s ?l"
    then have l: "0 < ?l" and "in_range ?b ?l ?s \<or> in_range ?s ?l ?b"
      by (auto simp: overlap_def word_neq_0_conv)
    then consider "in_range ?b ?n ?s" "?s \<in> I" | "?b \<in> I" "in_range ?b ?n ?b"
      using src [of 0] src [of "?b - ?s"] le by (auto simp: in_range_def)
    then show False
      using off by cases auto
  qed
  then have cp: "memcpy ?b ?s ?l m' = Some ?c"
    by (simp add: memcpy_def)
  have "\<not> in_range ?b ?l a" if "a \<in> I" for a
    using off [OF that] order_less_le_trans [OF _ le] by (auto simp: in_range_def)
  then have "same_on I m ?c"
    using same by (simp add: same_on_def)
  then have mz: "smem ?c f i = ?n"
    by (rule program_same(4) [OF img _ i])
  have "load_segment f phys (of_nat i) m' = Some (memset0 (?b + ?l) (?n - ?l) ?c)"
    using ps cp mz unfolding load_segment_def
    by (simp add: sbase_def ssrc_def sfile_def smem_def ucast_down_add ucast_down_diff Let_def)
  moreover have "memset0 (?b + ?l) (?n - ?l) ?c = put_segment m f phys i m'"
  proof
    fix a
    show "memset0 (?b + ?l) (?n - ?l) ?c a = put_segment m f phys i m' a"
      using range_split [OF le, of "a - ?b"] le src [of "a - ?b"] same
      by (auto simp: memset0_def put_segment_def in_range_def Let_def diff_diff_eq same_on_def)
  qed
  ultimately show ?thesis
    by simp
qed

lemma put_segment_same_on:
  assumes "elf_placed m f phys I" and "same_on I m m'" and "i < unat (elf_getNumProgramHeaders m f)"
  shows "same_on I m (put_segment m f phys i m')"
  using assms by (auto simp: same_on_def put_segment_def elf_placed_def in_range_def Let_def)

text \<open>After the first \<open>i\<close> rounds.\<close>

fun put_segments :: "bmem \<Rightarrow> u32 \<Rightarrow> bool \<Rightarrow> nat \<Rightarrow> bmem" where
  "put_segments m f phys 0 = m"
| "put_segments m f phys (Suc i) = put_segment m f phys i (put_segments m f phys i)"

lemma put_segments_same_on:
  assumes "elf_placed m f phys I"
  shows "i \<le> unat (elf_getNumProgramHeaders m f) \<Longrightarrow> same_on I m (put_segments m f phys i)"
  by (induction i) (simp_all add: same_on_def, use put_segment_same_on [OF assms] in \<open>simp add: same_on_def\<close>)

lemma load_loop_eq:
  assumes img: "elf_image m f I" and pl: "elf_placed m f phys I"
  shows "i \<le> unat (elf_getNumProgramHeaders m f) \<Longrightarrow>
    load_loop f phys i (put_segments m f phys i) = Some (put_segments m f phys (unat (elf_getNumProgramHeaders m f)))"
proof (induction "unat (elf_getNumProgramHeaders m f) - i" arbitrary: i)
  case 0
  then show ?case
    using header_same(2) [OF img put_segments_same_on [OF pl, of i]] by (simp add: load_loop.simps)
next
  case (Suc n)
  then have i: "i < unat (elf_getNumProgramHeaders m f)"
    by simp
  have "load_loop f phys i (put_segments m f phys i) = load_loop f phys (Suc i) (put_segments m f phys (Suc i))"
    using header_same(2) [OF img put_segments_same_on [OF pl, of i]] i
      load_segment_eq [OF img pl put_segments_same_on [OF pl] i] by (simp add: load_loop.simps [of f phys i])
  then show ?case
    using Suc.hyps(1) [of "Suc i"] Suc.hyps(2) i by simp
qed

text \<open>The contents after all rounds: a segment stays as it was put, and nothing else changes.\<close>

lemma put_segments_outside:
  "\<forall>j<i. \<not> in_range (sbase m f phys j) (smem m f j) a \<Longrightarrow> put_segments m f phys i a = m a"
  by (induction i) (auto simp: put_segment_def in_range_def Let_def)

lemma elf_placed_disjoint:
  assumes "elf_placed m f phys I" and "i < unat (elf_getNumProgramHeaders m f)" and "j < unat (elf_getNumProgramHeaders m f)"
    and "i \<noteq> j" and "in_range (sbase m f phys i) (smem m f i) a"
  shows "\<not> in_range (sbase m f phys j) (smem m f j) a"
  using assms(1) [unfolded elf_placed_def, rule_format, OF assms(2)] assms(3-5) by blast

lemma put_segments_inside:
  assumes pl: "elf_placed m f phys I" and k: "k < smem m f j"
  shows "j < i \<Longrightarrow> i \<le> unat (elf_getNumProgramHeaders m f) \<Longrightarrow>
    put_segments m f phys i (sbase m f phys j + k) = (if k < sfile m f j then m (ssrc m f j + k) else 0)"
proof (induction i)
  case (Suc i)
  show ?case
  proof (cases "j = i")
    case True
    then show ?thesis
      using k by (simp add: put_segment_def)
  next
    case False
    have "in_range (sbase m f phys j) (smem m f j) (sbase m f phys j + k)"
      using k by (simp add: in_range_def)
    then have "\<not> in_range (sbase m f phys i) (smem m f i) (sbase m f phys j + k)"
      using elf_placed_disjoint [OF pl, of j i] False Suc.prems by simp
    then show ?thesis
      using Suc False by (simp add: put_segment_def in_range_def Let_def)
  qed
qed simp

text \<open>
  C15. \<^verbatim>\<open>elf_loadFile\<close> loads a file: if the file has the right magic numbers, no segment is larger
  in the file than in memory, and the places of the segments overlap neither each other nor the
  file, then it succeeds, every segment holds its bytes from the file followed by zeros, and no
  other byte of memory has changed. The headers are read while memory is being written, for
  32-bit and 64-bit files, at physical or at virtual addresses.
\<close>

theorem elf_loadFile_loads:
  assumes "elf_checkFile m f = 0" and "elf_image m f I" and "elf_placed m f phys I"
  shows "\<exists>m'. elf_loadFile f phys m = Some (True, m') \<and>
    (\<forall>i<unat (elf_getNumProgramHeaders m f). \<forall>k. k < smem m f i \<longrightarrow>
       m' (sbase m f phys i + k) = (if k < sfile m f i then m (ssrc m f i + k) else 0)) \<and>
    (\<forall>a. (\<forall>i<unat (elf_getNumProgramHeaders m f). \<not> in_range (sbase m f phys i) (smem m f i) a) \<longrightarrow> m' a = m a)"
proof -
  let ?n = "unat (elf_getNumProgramHeaders m f)"
  have "elf_loadFile f phys m = Some (True, put_segments m f phys ?n)"
    using load_loop_eq [OF assms(2,3), of 0] assms(1) by (simp add: elf_loadFile_def)
  then show ?thesis
    using put_segments_inside [OF assms(3), of _ _ ?n] put_segments_outside [of ?n m f phys] by auto
qed

text \<open>A 32-bit file at \<^verbatim>\<open>0x1000\<close> with one segment of two bytes, four in memory, for address \<^verbatim>\<open>0x8000\<close>.\<close>

definition elf_example :: bmem where
  "elf_example = (\<lambda>_. 0)(0x1000 := 0x7F, 0x1001 := 0x45, 0x1002 := 0x4C, 0x1003 := 0x46, 0x1004 := 1,
     0x101F := 52, 0x102D := 1, 0x103B := 84, 0x103E := 0x80, 0x1047 := 2, 0x104B := 4, 0x1054 := 7, 0x1055 := 8)"

lemma elf_example_header:
  "elf_checkFile elf_example 0x1000 = 0" "elf_getNumProgramHeaders elf_example 0x1000 = 1"
  "phaddr elf_example 0x1000 0 = 0x1034" "sbase elf_example 0x1000 False 0 = 0x8000"
  "ssrc elf_example 0x1000 0 = 0x1054" "sfile elf_example 0x1000 0 = 2" "smem elf_example 0x1000 0 = 4"
  by (simp_all add: elf_checkFile_def ISELF32_def elf32_checkFile_def elf_magic_def elf_getNumProgramHeaders_def
      elf32_getNumProgramHeaders_def header32_def rd32_def rd16_def phaddr_def elf32_getProgramHeaderTable_def
      sbase_def seg_base_def elf_getProgramHeaderVaddr_def elf32_getProgramHeaderVaddr_def program32_def phdr32_def
      ssrc_def elf_getProgramHeaderOffset_def elf32_getProgramHeaderOffset_def sfile_def elf_getProgramHeaderFileSize_def
      elf32_getProgramHeaderFileSize_def smem_def elf_getProgramHeaderMemorySize_def elf32_getProgramHeaderMemorySize_def
      elf_example_def)

theorem elf_loadFile_loads_witness:
  "\<exists>m'. elf_loadFile 0x1000 False elf_example = Some (True, m') \<and> m' 0x8000 = 7 \<and> m' 0x8001 = 8 \<and> m' 0x8002 = 0"
proof -
  let ?I = "{a. in_range 0x1000 0x100 a}"
  have "elf_image elf_example 0x1000 ?I"
    unfolding elf_image_def elf_example_header by (simp add: elf_example_header in_range_def) uint_arith
  moreover have "\<not> a - 0x8000 < 4" if "a - 0x1000 < 0x100" for a :: u32
    using that by uint_arith simp_all
  then have "elf_placed elf_example 0x1000 False ?I"
    unfolding elf_placed_def elf_example_header by (simp add: elf_example_header in_range_def)
  ultimately obtain m' where m': "elf_loadFile 0x1000 False elf_example = Some (True, m')"
    "\<forall>k. k < 4 \<longrightarrow> m' (0x8000 + k) = (if k < 2 then elf_example (0x1054 + k) else 0)"
    using elf_loadFile_loads [OF elf_example_header(1), of ?I False] by (auto simp: elf_example_header)
  then have "m' 0x8000 = 7" "m' 0x8001 = 8" "m' 0x8002 = 0"
    using m'(2) [rule_format, of 0] m'(2) [rule_format, of 1] m'(2) [rule_format, of 2]
    by (simp_all add: elf_example_def)
  then show ?thesis
    using m'(1) by blast
qed

section \<open>The memory bounds are the hull of the segments\<close>

definition seg_top :: "bmem \<Rightarrow> u32 \<Rightarrow> bool \<Rightarrow> u16 \<Rightarrow> u64" where
  "seg_top m f phys i = seg_base m f phys i + elf_getProgramHeaderMemorySize m f i"

lemma bounds_loop_eq:
  "bounds_loop m f phys is (lo, hi) = (let segs = filter (\<lambda>i. elf_getProgramHeaderMemorySize m f i \<noteq> 0) is in
     (fold (\<lambda>i l. min (seg_base m f phys i) l) segs lo, fold (\<lambda>i h. max (seg_top m f phys i) h) segs hi))"
  by (induction "is" arbitrary: lo hi) (auto simp: Let_def seg_top_def min_def max_def not_less)

lemma fold_min_Min: "fold (\<lambda>i l. min (g i) l) xs l = Min (insert (l :: u64) (g ` set xs))"
proof (induction xs arbitrary: l)
  case (Cons x xs)
  then show ?case
    by (cases "xs = []") (simp_all add: ac_simps)
qed simp

lemma fold_max_Max: "fold (\<lambda>i l. max (g i) l) xs l = Max (insert (l :: u64) (g ` set xs))"
proof (induction xs arbitrary: l)
  case (Cons x xs)
  then show ?case
    by (cases "xs = []") (simp_all add: ac_simps)
qed simp

lemma elf_checkFile_iff:
  "elf_checkFile m f = 0 \<longleftrightarrow> m f = 0x7F \<and> m (f + 1) = 0x45 \<and> m (f + 2) = 0x4C \<and> m (f + 3) = 0x46 \<and>
     (m (f + 4) = 1 \<or> m (f + 4) = 2)"
  by (auto simp: elf_checkFile_def ISELF32_def elf32_checkFile_def elf64_checkFile_def elf_magic_def)



end
