(* ===== verification/Pager.thy ===== *)
theory Pager
  imports Vfs Elf
begin

text \<open>
  The pager, \<^verbatim>\<open>src/sos/pager.c\<close>: frames for user pages and their limit, page faults, the queue of
  requests that wait for the disk (swapping out, swapping in, loading an executable), copying between
  user memory and the kernel's buffers, and the dispatch of the pager thread. Each handler runs to
  its end before the next message is taken, so a handler is one function on the state. The frames
  hold words; bytes of a frame are read and written in the byte order of the machine.

  Freed memory that is used again, a null pointer followed and a failed assertion are the result
  \<open>None\<close>. Lists are the lists they represent (theory \<open>Lists\<close>); requests are values, and the one being
  worked on is the head of the queue.
\<close>

section \<open>Bytes of frames\<close>

definition byte_shift :: "u32 \<Rightarrow> nat" where
  "byte_shift a = 24 - 8 * unat (a AND 3)"

definition get_byte :: "word_mem \<Rightarrow> u32 \<Rightarrow> char" where
  "get_byte m a = char_of (unat (drop_bit (byte_shift a) (m (a AND NOT 3)) AND 0xFF))"

definition put_byte :: "word_mem \<Rightarrow> u32 \<Rightarrow> char \<Rightarrow> word_mem" where
  "put_byte m a c = m(a AND NOT 3 :=
     (m (a AND NOT 3) AND NOT (push_bit (byte_shift a) 0xFF)) OR push_bit (byte_shift a) (of_nat (of_char c)))"

definition get_bytes :: "word_mem \<Rightarrow> u32 \<Rightarrow> nat \<Rightarrow> char list" where
  "get_bytes m a n = map (\<lambda>i. get_byte m (a + of_nat i)) [0..<n]"

fun put_bytes :: "u32 \<Rightarrow> char list \<Rightarrow> word_mem \<Rightarrow> word_mem" where
  "put_bytes a [] m = m"
| "put_bytes a (c # cs) m = put_bytes (a + 1) cs (put_byte m a c)"

section \<open>State\<close>

datatype pr_stage_t = SWAPIN_OPEN | SWAPIN_LSEEK | SWAPIN_READ | SWAPIN_CLOSE
  | SWAPOUT_OPEN | SWAPOUT_WRITE | SWAPOUT_CLOSE

text \<open>The functions that \<^verbatim>\<open>swapinFinish\<close> and \<^verbatim>\<open>callback\<close> of a request point to.\<close>

datatype swapin_finish = Fin_panic | Fin_finishSwapin | Fin_finishSwapelf
datatype pr_callback = Cb_null | Cb_pagerContinue | Cb_copyInContinue | Cb_copyOutContinue

text \<open>\<^verbatim>\<open>allocPagerRequest\<close> leaves stage, disk address and size unset.\<close>

record PagerRequest =
  pr_stage :: "pr_stage_t option"
  pr_pid :: int
  pr_addr :: u32
  pr_diskAddr :: "u32 option"
  pr_sf :: u32
  pr_rights :: u32
  pr_offset :: int
  pr_size :: "int option"
  pr_swapinFinish :: swapin_finish
  pr_callback :: pr_callback

datatype elfload_stage_t = ELFLOAD_OPEN | ELFLOAD_CHECK_EXEC | ELFLOAD_READ_HEADER | ELFLOAD_CLOSE

record ElfloadRequest =
  er_stage :: elfload_stage_t
  er_path :: string
  er_fd :: int
  er_parent :: int
  er_child :: "int option"
  er_fdout :: "string option"
  er_fderr :: "string option"
  er_fdin :: "string option"

datatype pager_request =
    REQUEST_SWAPOUT PagerRequest
  | REQUEST_SWAPIN PagerRequest
  | REQUEST_ELFLOAD ElfloadRequest

text \<open>The status buffer holds what \<^verbatim>\<open>process_write_status\<close> wrote to the buffer of a thread.\<close>

record pager_st = nfs_st +
  totalPages :: int
  allocLimit :: int
  alloced :: "(int \<times> u32) list"
  swapped :: "(int \<times> u32) list"
  defaultSwapfile :: u32
  swapfiles :: swapfiles
  requests :: "pager_request list"
  requestActive :: bool
  pinnedFrame :: u32
  copyInOutData :: "int \<Rightarrow> u32"
  statusBuffer :: "nat \<Rightarrow> process_t list"

definition FRAME_ALLOC_LIMIT :: int where
  [simp]: "FRAME_ALLOC_LIMIT = 1024"

definition PR_OFFSET_UNDEFINED :: int where
  [simp]: "PR_OFFSET_UNDEFINED = -1"

text \<open>Reading and writing through the address of a page table entry.\<close>

definition rd_entry :: "u32 \<Rightarrow> 'z frames_st_scheme \<Rightarrow> u32 option" where
  "rd_entry e s = do { c_assert (e \<noteq> 0); Some (mem s e) }"

definition wr_entry :: "u32 \<Rightarrow> u32 \<Rightarrow> 'z frames_st_scheme \<Rightarrow> 'z frames_st_scheme option" where
  "wr_entry e w s = do { c_assert (e \<noteq> 0); Some (s\<lparr>mem := (mem s)(e := w)\<rparr>) }"

definition pair_alloc :: "'a \<Rightarrow> 'b \<Rightarrow> 'z kernel_st_scheme \<Rightarrow> ('a \<times> 'b) option" where
  "pair_alloc a b s = do { c_assert (heapOk s); Some (a, b) }"

text \<open>The entry of an address in the page table of a process.\<close>

definition entry_of :: "procslot \<Rightarrow> u32 \<Rightarrow> 'z frames_st_scheme \<Rightarrow> (u32 \<times> 'z frames_st_scheme) option" where
  "entry_of sl addr s = do { pt \<leftarrow> process_get_pagetable sl; pagetableLookup pt addr s }"

section \<open>Frames of user pages\<close>

text \<open>The number of frames of a process is kept in its PCB, when there is one.\<close>

definition pagerFrameFree :: "Process option \<Rightarrow> u32 \<Rightarrow> 'z pager_st_scheme \<Rightarrow>
    (Process option \<times> 'z pager_st_scheme) option" where
  "pagerFrameFree po frame s = do {
     c_assert (frame AND NOT PAGEALIGN = 0);
     let s = frame_free frame s;
     let s = s\<lparr>allocLimit := allocLimit s + 1\<rparr>;
     Some (map_option (\<lambda>p. let p = process_get_info (now s) p in
       p\<lparr>info := (info p)\<lparr>ps_size := ps_size (info p) - 1\<rparr>\<rparr>) po, s) }"

text \<open>For \<^verbatim>\<open>list_delete\<close>: frees the frame of one page if the page belongs to the process.\<close>

definition framesFree :: "int \<times> u32 \<Rightarrow> Process \<times> 'z pager_st_scheme \<Rightarrow>
    (bool \<times> Process \<times> 'z pager_st_scheme) option" where
  "framesFree cur d = (let (p, s) = d in
     if fst cur = ps_pid (info p) then do {
       (e, s) \<leftarrow> pagetableLookup (pagetable p) (snd cur) s;
       w \<leftarrow> rd_entry e s;
       (po, s) \<leftarrow> pagerFrameFree (Some p) (w AND ADDRESS_MASK) s;
       Some (True, the po, s) }
     else Some (False, p, s))"

definition isPageAligned :: "u32 \<Rightarrow> bool" where
  "isPageAligned a \<longleftrightarrow> a AND (PAGESIZE - 1) = 0"

definition mapPage :: "int \<Rightarrow> u32 \<Rightarrow> u32 \<Rightarrow> u32 \<Rightarrow> 'z kernel_st_scheme \<Rightarrow> 'z kernel_st_scheme option" where
  "mapPage sid virt phys rights s = do {
     c_assert (virt AND NOT PAGEALIGN = 0);
     c_assert (phys AND NOT PAGEALIGN = 0);
     Some (l4_do (MapFpage sid virt phys rights) s) }"

definition unmapPage :: "int \<Rightarrow> u32 \<Rightarrow> 'z kernel_st_scheme \<Rightarrow> 'z kernel_st_scheme option" where
  "unmapPage sid virt s = do {
     c_assert (virt AND NOT PAGEALIGN = 0);
     Some (l4_do (UnmapFpage sid virt) s) }"

definition prepareDataIn :: "procslot \<Rightarrow> u32 \<Rightarrow> 'z pager_st_scheme \<Rightarrow> 'z pager_st_scheme option" where
  "prepareDataIn sl vaddr s = do {
     c_assert (vaddr AND NOT PAGEALIGN = 0);
     (e, s) \<leftarrow> entry_of sl vaddr s;
     w \<leftarrow> rd_entry e s;
     let frame = w AND ADDRESS_MASK;
     sid \<leftarrow> process_get_sid sl;
     Some (l4_do (CacheFlushRangeInvalidate L4_rootspace frame (frame + PAGESIZE))
       (l4_do (CacheFlushRange sid vaddr (vaddr + PAGESIZE)) s)) }"

definition prepareDataOut :: "procslot \<Rightarrow> u32 \<Rightarrow> 'z pager_st_scheme \<Rightarrow> 'z pager_st_scheme option" where
  "prepareDataOut sl vaddr s = do {
     c_assert (vaddr AND NOT PAGEALIGN = 0);
     (e, s) \<leftarrow> entry_of sl vaddr s;
     w \<leftarrow> rd_entry e s;
     let frame = w AND ADDRESS_MASK;
     sid \<leftarrow> process_get_sid sl;
     Some (l4_do (CacheFlushRangeInvalidate sid vaddr (vaddr + PAGESIZE))
       (l4_do (CacheFlushRange L4_rootspace frame (frame + PAGESIZE)) s)) }"

text \<open>The second-chance algorithm: a page that was referenced loses its mark and goes to the back.\<close>

partial_function (option) second_chance :: "'z pager_st_scheme \<Rightarrow> ((int \<times> u32) \<times> 'z pager_st_scheme) option" where
  "second_chance s = (case alloced s of [] \<Rightarrow> None
     | found # rest \<Rightarrow> do {
         let s = s\<lparr>alloced := rest\<rparr>;
         sl \<leftarrow> process_lookup (fst found) s;
         c_assert (sl \<noteq> PNull);
         (e, s) \<leftarrow> entry_of sl (snd found) s;
         w \<leftarrow> rd_entry e s;
         if w AND REF_MASK = 0 then Some (found, s)
         else do {
           s \<leftarrow> wr_entry e (w AND NOT REF_MASK) s;
           sid \<leftarrow> process_get_sid sl;
           s \<leftarrow> unmapPage sid (snd found) s;
           second_chance (s\<lparr>alloced := alloced s @ [found]\<rparr>) } })"

definition deleteAllocList :: "'z pager_st_scheme \<Rightarrow> ((int \<times> u32) \<times> 'z pager_st_scheme) option" where
  "deleteAllocList s = do { c_assert (alloced s \<noteq> []); second_chance s }"

text \<open>A new frame for a page of a process in the table; 0 when the limit is reached.\<close>

definition pagerFrameAlloc :: "int \<Rightarrow> u32 \<Rightarrow> 'z pager_st_scheme \<Rightarrow> (u32 \<times> 'z pager_st_scheme) option" where
  "pagerFrameAlloc pid page s = do {
     c_assert (allocLimit s \<ge> 0);
     if allocLimit s = 0 then Some (0, s)
     else do {
       let (frame, s) = frame_alloc FA_PAGERALLOC s;
       pair \<leftarrow> pair_alloc pid page s;
       let s = s\<lparr>alloced := alloced s @ [pair]\<rparr>;
       s \<leftarrow> upd_proc pid (\<lambda>p. let p = process_get_info (now s) p in
         p\<lparr>info := (info p)\<lparr>ps_size := ps_size (info p) + 1\<rparr>\<rparr>) s;
       Some (frame, s\<lparr>allocLimit := allocLimit s - 1\<rparr>) } }"

section \<open>Start and small operations\<close>

text \<open>
  \<^verbatim>\<open>pager_init\<close> starts the pager thread and then waits until that thread has stored its id; the
  model ends before the wait, and \<open>virtualPagerHandler_start\<close> is what the new thread does first.
\<close>

definition pager_init :: "u32 \<Rightarrow> 'z pager_st_scheme \<Rightarrow> 'z pager_st_scheme option" where
  "pager_init virtualPagerHandler s = do {
     let s = s\<lparr>totalPages := FRAME_ALLOC_LIMIT, allocLimit := FRAME_ALLOC_LIMIT, alloced := [], swapped := [],
       requests := []\<rparr>;
     (a, sf, s) \<leftarrow> swapfile_init SWAPFILE_FN s;
     let s = s\<lparr>defaultSwapfile := a, swapfiles := (swapfiles s)(a \<mapsto> sf)\<rparr>;
     (pid, s) \<leftarrow> process_run_rootthread ''pager'' virtualPagerHandler True 254 s;
     upd_proc pid (\<lambda>p. snd (process_set_ipcfilt PS_IPC_BLOCKING p)) s }"

definition virtualPagerHandler_start :: "L4_ThreadId_t \<Rightarrow> 'z kernel_st_scheme \<Rightarrow> 'z kernel_st_scheme" where
  "virtualPagerHandler_start my_tid s = s\<lparr>virtualPager := my_tid\<rparr>"

text \<open>The four bytes of a word in a buffer.\<close>

definition word_bytes :: "u32 \<Rightarrow> char list" where
  "word_bytes w = map (\<lambda>i. char_of (unat (drop_bit (24 - 8 * i) w AND 0xFF))) [0..<4]"

text \<open>
  \<^verbatim>\<open>heapGrow\<close>: the old top of the heap goes to \<open>base\<close> in the buffers, and the heap region of the
  sender grows.
\<close>

definition grow_first :: "u32 \<Rightarrow> Region list \<Rightarrow> Region list" where
  "grow_first nb rs = (let i = length (takeWhile (\<lambda>r. \<not> findHeap r) rs) in
     if i < length rs then rs[i := region_set_size (nb + region_get_size (rs ! i)) (rs ! i)] else rs)"

definition heapGrow :: "int \<Rightarrow> nat \<Rightarrow> u32 \<Rightarrow> 'z pager_st_scheme \<Rightarrow> (int \<times> 'z pager_st_scheme) option" where
  "heapGrow sender base nb s = do {
     sl \<leftarrow> process_lookup sender s;
     rs \<leftarrow> process_get_regions sl;
     heap \<leftarrow> find findHeap rs;
     let s = s\<lparr>copyInOutBuffer :=
       buf_memcpy base (word_bytes (region_get_base heap + region_get_size heap)) (copyInOutBuffer s)\<rparr>;
     s \<leftarrow> upd_proc sender (\<lambda>p. p\<lparr>regions := grow_first nb (regions p)\<rparr>) s;
     Some (1, s) }"

definition memoryUsage :: "'z pager_st_scheme \<Rightarrow> int" where
  "memoryUsage s = totalPages s - allocLimit s"

definition allocPagerRequest :: "int \<Rightarrow> u32 \<Rightarrow> u32 \<Rightarrow> u32 \<Rightarrow> pr_callback \<Rightarrow> 'z kernel_st_scheme \<Rightarrow> PagerRequest option" where
  "allocPagerRequest pid addr rights sf cb s = do {
     c_assert (heapOk s);
     Some \<lparr>pr_stage = None, pr_pid = pid, pr_addr = addr, pr_diskAddr = None, pr_sf = sf, pr_rights = rights,
       pr_offset = PR_OFFSET_UNDEFINED, pr_size = None, pr_swapinFinish = Fin_panic, pr_callback = cb\<rparr> }"

definition setFdStrn :: "int \<Rightarrow> int \<Rightarrow> 'z vfs_st_scheme \<Rightarrow> (string option \<times> 'z vfs_st_scheme) option" where
  "setFdStrn parent fd s =
     (if fd = VFS_NIL_FILE \<or> fd < 0 \<or> fd \<ge> int PROCESS_MAX_FDS then Some (None, s)
      else do {
        sl \<leftarrow> process_lookup parent s;
        if sl = PNull then Some (None, s)
        else do {
          (vfi, s) \<leftarrow> get_vfile parent fd False s;
          case vfi of None \<Rightarrow> Some (None, s)
          | Some i \<Rightarrow> do {
              vf \<leftarrow> vfile_at parent i s;
              if vf_vnode vf = 0 then Some (None, s)
              else do {
                c_assert (heapOk s);
                v \<leftarrow> vnodes s (vf_vnode vf);
                Some (Some (strncpy_field MAX_FILE_NAME (vpath v)), s) } } } })"

definition allocElfloadRequest :: "string \<Rightarrow> int \<Rightarrow> int \<Rightarrow> int \<Rightarrow> int \<Rightarrow> 'z vfs_st_scheme \<Rightarrow>
    (ElfloadRequest option \<times> 'z vfs_st_scheme) option" where
  "allocElfloadRequest path caller fdout fderr fdin s =
     (if \<not> heapOk s then Some (None, s)
      else do {
        (fo, s) \<leftarrow> setFdStrn caller fdout s;
        (fe, s) \<leftarrow> setFdStrn caller fderr s;
        (fi, s) \<leftarrow> setFdStrn caller fdin s;
        Some (Some \<lparr>er_stage = ELFLOAD_OPEN, er_path = strncpy_field MAX_FILE_NAME path, er_fd = VFS_NIL_FILE,
          er_parent = caller, er_child = None, er_fdout = fo, er_fderr = fe, er_fdin = fi\<rparr>, s) })"

definition pagerContinue :: "PagerRequest \<Rightarrow> 'z pager_st_scheme \<Rightarrow> 'z pager_st_scheme option" where
  "pagerContinue pr s = do {
     sl \<leftarrow> process_lookup (pr_pid pr) s;
     replyTo \<leftarrow> process_get_tid sl;
     syscall_reply_v replyTo [] s }"

section \<open>Swap slots\<close>

definition pagerSwapslotAlloc :: "int \<Rightarrow> 'z pager_st_scheme \<Rightarrow> (u32 \<times> 'z pager_st_scheme) option" where
  "pagerSwapslotAlloc pid s = do {
     sf \<leftarrow> swapfiles s (defaultSwapfile s);
     (diskAddr, sf) \<leftarrow> swapslot_alloc sf;
     let s = s\<lparr>swapfiles := (swapfiles s)(defaultSwapfile s \<mapsto> sf)\<rparr>;
     if diskAddr = ADDRESS_NONE then Some (ADDRESS_NONE, s)
     else do {
       pair \<leftarrow> pair_alloc pid diskAddr s;
       Some (diskAddr, s\<lparr>swapped := swapped s @ [pair]\<rparr>) } }"

definition pagerSwapslotFree :: "int \<times> u32 \<Rightarrow> int \<times> u32 \<Rightarrow> 'z pager_st_scheme \<Rightarrow> (bool \<times> 'z pager_st_scheme) option" where
  "pagerSwapslotFree args cur s =
     (if fst cur = fst args \<and> (snd cur = snd args \<or> snd cur = ADDRESS_ALL) then do {
        sf \<leftarrow> swapfiles s (defaultSwapfile s);
        sf \<leftarrow> swapslot_free (snd cur) sf;
        Some (True, s\<lparr>swapfiles := (swapfiles s)(defaultSwapfile s \<mapsto> sf)\<rparr>) }
      else Some (False, s))"

text \<open>\<^verbatim>\<open>list_delete(swapped, pagerSwapslotFree, &args)\<close>.\<close>

definition free_swapslots :: "int \<times> u32 \<Rightarrow> 'z pager_st_scheme \<Rightarrow> 'z pager_st_scheme option" where
  "free_swapslots args s = do {
     (l, s) \<leftarrow> delete_n (pagerSwapslotFree args) (-1) (swapped s) s;
     Some (s\<lparr>swapped := l\<rparr>) }"

section \<open>The end of a process\<close>

definition regionsFree :: "Region \<Rightarrow> 'z pager_st_scheme \<Rightarrow> 'z pager_st_scheme option" where
  "regionsFree r s = do {
     (sfs, s) \<leftarrow> region_free r (swapfiles s) s;
     Some (s\<lparr>swapfiles := sfs\<rparr>) }"

definition processDelete :: "int \<Rightarrow> 'z pager_st_scheme \<Rightarrow> (int \<times> 'z pager_st_scheme) option" where
  "processDelete pid s = do {
     sl \<leftarrow> process_lookup pid s;
     if sl = PNull then Some (1, s)
     else do {
       (r, s) \<leftarrow> process_kill sl s;
       if r \<noteq> 0 then Some (-1, s)
       else do {
         s \<leftarrow> upd_proc pid (process_set_state PS_STATE_ZOMBIE) s;
         sl \<leftarrow> process_lookup pid s;
         p \<leftarrow> deref sl;
         s \<leftarrow> process_close_files sl s;
         s \<leftarrow> process_remove (ps_pid (info p)) s;
         (l, p, s) \<leftarrow> delete_n framesFree (-1) (alloced s) (p, s);
         let s = s\<lparr>alloced := l\<rparr>;
         s \<leftarrow> free_swapslots (ps_pid (info p), ADDRESS_ALL) s;
         s \<leftarrow> pagetableFree (pagetable p) s;
         s \<leftarrow> fold_opt regionsFree (regions p) s;
         s \<leftarrow> process_wake_all (ps_pid (info p)) s;
         Some (0, s) } } }"

section \<open>Page faults\<close>

text \<open>
  The functions that start requests and the pager call each other. What they call is an argument,
  \<open>start\<close> for \<^verbatim>\<open>startRequest\<close> and \<open>pgr\<close> for \<^verbatim>\<open>pager\<close>; the recursion is tied below.
\<close>

definition queueRequest :: "('z pager_st_scheme \<Rightarrow> 'z pager_st_scheme option) \<Rightarrow> pager_request \<Rightarrow>
    'z pager_st_scheme \<Rightarrow> 'z pager_st_scheme option" where
  "queueRequest start rq s =
     (if requests s = [] then do {
        c_assert (\<not> requestActive s);
        c_assert (heapOk s);
        start (s\<lparr>requests := [rq]\<rparr>) }
      else do {
        c_assert (requestActive s);
        c_assert (heapOk s);
        Some (s\<lparr>requests := requests s @ [rq]\<rparr>) })"

text \<open>What \<^verbatim>\<open>pagerAction\<close> does once it has a frame: enter it, marked as referenced, and map it.\<close>

definition map_frame :: "procslot \<Rightarrow> Region \<Rightarrow> u32 \<Rightarrow> u32 \<Rightarrow> u32 \<Rightarrow> 'z pager_st_scheme \<Rightarrow>
    (bool \<times> 'z pager_st_scheme) option" where
  "map_frame sl r e addr frame s = do {
     s \<leftarrow> wr_entry e (frame OR REF_MASK) s;
     sid \<leftarrow> process_get_sid sl;
     s \<leftarrow> mapPage sid (addr AND PAGEALIGN) frame (region_get_rights r) s;
     Some (True, s) }"

definition pagerAction :: "('z pager_st_scheme \<Rightarrow> 'z pager_st_scheme option) \<Rightarrow> PagerRequest \<Rightarrow>
    'z pager_st_scheme \<Rightarrow> (bool \<times> 'z pager_st_scheme) option" where
  "pagerAction start pr s = do {
     sl \<leftarrow> process_lookup (pr_pid pr) s;
     if sl = PNull then Some (False, s)
     else do {
       rs \<leftarrow> process_get_regions sl;
       pid \<leftarrow> process_get_pid sl;
       case find (findRegion (pr_addr pr)) rs of
         None \<Rightarrow> do { (_, s) \<leftarrow> processDelete pid s; Some (False, s) }
       | Some r \<Rightarrow>
           if region_get_rights r AND pr_rights pr = 0
           then do { (_, s) \<leftarrow> processDelete pid s; Some (False, s) }
           else do {
             (e, s) \<leftarrow> entry_of sl (pr_addr pr) s;
             w \<leftarrow> rd_entry e s;
             let frame = w AND ADDRESS_MASK;
             if w AND SWAP_MASK \<noteq> 0
             then do { s \<leftarrow> queueRequest start (REQUEST_SWAPIN pr) s; Some (False, s) }
             else if frame AND ADDRESS_MASK \<noteq> 0 then map_frame sl r e (pr_addr pr) frame s
             else if region_map_directly r then map_frame sl r e (pr_addr pr) (pr_addr pr AND PAGEALIGN) s
             else do {
               (frame, s) \<leftarrow> pagerFrameAlloc pid (pr_addr pr AND PAGEALIGN) s;
               c_assert (frame AND NOT ADDRESS_MASK = 0);
               if frame = 0
               then do { s \<leftarrow> queueRequest start (REQUEST_SWAPIN pr) s; Some (False, s) }
               else map_frame sl r e (pr_addr pr) frame s } } } }"

section \<open>Copying from and to user memory\<close>

definition LO_HALF :: "u32 \<Rightarrow> u32" where
  "LO_HALF w = w AND 0xFFFF"
definition HI_HALF :: "u32 \<Rightarrow> u32" where
  "HI_HALF w = drop_bit 16 w AND 0xFFFF"
definition HI_SHIFT :: "u32 \<Rightarrow> u32" where
  "HI_SHIFT w = push_bit 16 w"

text \<open>The array \<^verbatim>\<open>copyInOutData\<close> has an entry for every thread number.\<close>

definition cio_get :: "int \<Rightarrow> 'z pager_st_scheme \<Rightarrow> u32 option" where
  "cio_get pid s = do { c_assert (0 \<le> pid \<and> pid < MAX_THREADS); Some (copyInOutData s pid) }"

definition cio_set :: "int \<Rightarrow> u32 \<Rightarrow> 'z pager_st_scheme \<Rightarrow> 'z pager_st_scheme option" where
  "cio_set pid w s = do {
     c_assert (0 \<le> pid \<and> pid < MAX_THREADS);
     Some (s\<lparr>copyInOutData := (copyInOutData s)(pid := w)\<rparr>) }"

text \<open>The copy loops: they stop at the size, or when the user's address reaches the next page.\<close>

function copyIn_loop :: "word_mem \<Rightarrow> nat \<Rightarrow> u32 \<Rightarrow> nat \<Rightarrow> nat \<Rightarrow> (nat \<Rightarrow> char) \<Rightarrow> nat \<times> (nat \<Rightarrow> char)" where
  "copyIn_loop m dst src offset sz b =
     (if offset < sz then let b = b(dst := get_byte m src) in
        if isPageAligned (src + 1) then (offset + 1, b)
        else copyIn_loop m (dst + 1) (src + 1) (offset + 1) sz b
      else (offset, b))"
  by auto
termination by (relation "measure (\<lambda>(m, dst, src, offset, sz, b). sz - offset)") auto

function copyOut_loop :: "(nat \<Rightarrow> char) \<Rightarrow> nat \<Rightarrow> u32 \<Rightarrow> nat \<Rightarrow> nat \<Rightarrow> word_mem \<Rightarrow> nat \<times> word_mem" where
  "copyOut_loop b src dst offset sz m =
     (if offset < sz then let m = put_byte m dst (b src) in
        if isPageAligned (dst + 1) then (offset + 1, m)
        else copyOut_loop b (src + 1) (dst + 1) (offset + 1) sz m
      else (offset, m))"
  by auto
termination by (relation "measure (\<lambda>(b, src, dst, offset, sz, m). sz - offset)") auto

declare copyIn_loop.simps [simp del] copyOut_loop.simps [simp del]

definition copyInContinue :: "(PagerRequest \<Rightarrow> 'z pager_st_scheme \<Rightarrow> 'z pager_st_scheme option) \<Rightarrow> PagerRequest \<Rightarrow>
    'z pager_st_scheme \<Rightarrow> 'z pager_st_scheme option" where
  "copyInContinue pgr pr s = do {
     sl \<leftarrow> process_lookup (pr_pid pr) s;
     let addr = pr_addr pr AND PAGEALIGN;
     s \<leftarrow> prepareDataIn sl addr s;
     pid \<leftarrow> process_get_pid sl;
     d \<leftarrow> cio_get pid s;
     let sz = min COPY_BUFSIZ (LO_HALF d);
     let offset = HI_HALF d;
     tid \<leftarrow> process_get_tid sl;
     (e, s) \<leftarrow> entry_of sl addr s;
     w \<leftarrow> rd_entry e s;
     let src = (w AND ADDRESS_MASK) + (pr_addr pr AND NOT PAGEALIGN);
     let (offset, b) = copyIn_loop (mem s) (pager_buffer tid + unat offset) src (unat offset) (unat sz) (copyInOutBuffer s);
     s \<leftarrow> cio_set pid (sz OR push_bit 16 (of_nat offset)) (s\<lparr>copyInOutBuffer := b\<rparr>);
     if offset = unat sz then syscall_reply_v tid [] s
     else pgr (pr\<lparr>pr_addr := (pr_addr pr + PAGESIZE) AND PAGEALIGN\<rparr>) s }"

definition copyOutContinue :: "(PagerRequest \<Rightarrow> 'z pager_st_scheme \<Rightarrow> 'z pager_st_scheme option) \<Rightarrow> PagerRequest \<Rightarrow>
    'z pager_st_scheme \<Rightarrow> 'z pager_st_scheme option" where
  "copyOutContinue pgr pr s = do {
     sl \<leftarrow> process_lookup (pr_pid pr) s;
     let addr = pr_addr pr AND PAGEALIGN;
     pid \<leftarrow> process_get_pid sl;
     d \<leftarrow> cio_get pid s;
     let sz = min COPY_BUFSIZ (LO_HALF d);
     let offset = HI_HALF d;
     tid \<leftarrow> process_get_tid sl;
     (e, s) \<leftarrow> entry_of sl addr s;
     w \<leftarrow> rd_entry e s;
     let dst = (w AND ADDRESS_MASK) + (pr_addr pr AND NOT PAGEALIGN);
     let (offset, m) = copyOut_loop (copyInOutBuffer s) (pager_buffer tid + unat offset) dst (unat offset) (unat sz) (mem s);
     s \<leftarrow> cio_set pid (sz OR HI_SHIFT (of_nat offset)) (s\<lparr>mem := m\<rparr>);
     s \<leftarrow> prepareDataOut sl addr s;
     if offset = unat sz then syscall_reply_v tid [] s
     else pgr (pr\<lparr>pr_addr := (pr_addr pr + PAGESIZE) AND PAGEALIGN\<rparr>) s }"

definition run_callback :: "(PagerRequest \<Rightarrow> 'z pager_st_scheme \<Rightarrow> 'z pager_st_scheme option) \<Rightarrow> PagerRequest \<Rightarrow>
    'z pager_st_scheme \<Rightarrow> 'z pager_st_scheme option" where
  "run_callback pgr pr s = (case pr_callback pr of Cb_null \<Rightarrow> None
     | Cb_pagerContinue \<Rightarrow> pagerContinue pr s
     | Cb_copyInContinue \<Rightarrow> copyInContinue pgr pr s
     | Cb_copyOutContinue \<Rightarrow> copyOutContinue pgr pr s)"

definition pager_body :: "(PagerRequest \<Rightarrow> 'z pager_st_scheme \<Rightarrow> 'z pager_st_scheme option) \<Rightarrow>
    ('z pager_st_scheme \<Rightarrow> 'z pager_st_scheme option) \<Rightarrow> PagerRequest \<Rightarrow>
    'z pager_st_scheme \<Rightarrow> 'z pager_st_scheme option" where
  "pager_body pgr start pr s = do {
     (ok, s) \<leftarrow> pagerAction start pr s;
     if ok then do {
       s \<leftarrow> run_callback pgr pr s;
       if requests s \<noteq> [] \<and> \<not> requestActive s then start s else Some s }
     else Some s }"

section \<open>Starting requests\<close>

text \<open>The head of the queue as a swap request, and changing it in place.\<close>

definition peek_pager :: "'z pager_st_scheme \<Rightarrow> PagerRequest option" where
  "peek_pager s = (case requests s of REQUEST_SWAPIN pr # _ \<Rightarrow> Some pr | REQUEST_SWAPOUT pr # _ \<Rightarrow> Some pr | _ \<Rightarrow> None)"

definition peek_elfload :: "'z pager_st_scheme \<Rightarrow> ElfloadRequest option" where
  "peek_elfload s = (case requests s of REQUEST_ELFLOAD er # _ \<Rightarrow> Some er | _ \<Rightarrow> None)"

fun map_pr :: "(PagerRequest \<Rightarrow> PagerRequest) \<Rightarrow> pager_request \<Rightarrow> pager_request" where
  "map_pr f (REQUEST_SWAPOUT pr) = REQUEST_SWAPOUT (f pr)"
| "map_pr f (REQUEST_SWAPIN pr) = REQUEST_SWAPIN (f pr)"
| "map_pr f (REQUEST_ELFLOAD er) = REQUEST_ELFLOAD er"

definition upd_head :: "(PagerRequest \<Rightarrow> PagerRequest) \<Rightarrow> 'z pager_st_scheme \<Rightarrow> 'z pager_st_scheme" where
  "upd_head f s = s\<lparr>requests := (case requests s of [] \<Rightarrow> [] | rq # rqs \<Rightarrow> map_pr f rq # rqs)\<rparr>"

definition is_swapin :: "'z pager_st_scheme \<Rightarrow> bool" where
  "is_swapin s = (case requests s of REQUEST_SWAPIN pr # _ \<Rightarrow> True | _ \<Rightarrow> False)"

definition is_swapout :: "'z pager_st_scheme \<Rightarrow> bool" where
  "is_swapout s = (case requests s of REQUEST_SWAPOUT pr # _ \<Rightarrow> True | _ \<Rightarrow> False)"

text \<open>\<^verbatim>\<open>swapfile_open\<close> and \<^verbatim>\<open>swapfile_close\<close> through a pointer.\<close>

definition sf_open :: "u32 \<Rightarrow> u8 \<Rightarrow> 'z pager_st_scheme \<Rightarrow> 'z pager_st_scheme option" where
  "sf_open a rights s = do { sf \<leftarrow> swapfiles s a; swapfile_open sf rights s }"

definition sf_close :: "u32 \<Rightarrow> 'z pager_st_scheme \<Rightarrow> 'z pager_st_scheme option" where
  "sf_close a s = do {
     sf \<leftarrow> swapfiles s a;
     (sf, s) \<leftarrow> swapfile_close sf s;
     Some (s\<lparr>swapfiles := (swapfiles s)(a \<mapsto> sf)\<rparr>) }"

definition sf_set_fd :: "u32 \<Rightarrow> int \<Rightarrow> 'z pager_st_scheme \<Rightarrow> 'z pager_st_scheme option" where
  "sf_set_fd a fd s = do {
     sf \<leftarrow> swapfiles s a;
     sf \<leftarrow> swapfile_set_fd fd sf;
     Some (s\<lparr>swapfiles := (swapfiles s)(a \<mapsto> sf)\<rparr>) }"

definition sf_get_fd :: "u32 \<Rightarrow> 'z pager_st_scheme \<Rightarrow> int option" where
  "sf_get_fd a s = do { sf \<leftarrow> swapfiles s a; swapfile_get_fd sf }"

definition startSwapin :: "'z pager_st_scheme \<Rightarrow> 'z pager_st_scheme option" where
  "startSwapin s = do {
     let (f, s) = frame_alloc FA_SWAPPIN s;
     let s = s\<lparr>pinnedFrame := f\<rparr>;
     c_assert (is_swapin s);
     pr \<leftarrow> peek_pager s;
     sl \<leftarrow> process_lookup (pr_pid pr) s;
     (e, s) \<leftarrow> entry_of sl (pr_addr pr) s;
     rs \<leftarrow> process_get_regions sl;
     r \<leftarrow> find (findRegion (pr_addr pr)) rs;
     w \<leftarrow> rd_entry e s;
     (sf, fin) \<leftarrow> (if w AND ELF_MASK \<noteq> 0 then do {
         c_assert (pr_sf pr \<noteq> 0);
         Some (region_get_elffile r, Fin_finishSwapelf) }
       else Some (defaultSwapfile s, Fin_finishSwapin));
     let s = upd_head (\<lambda>pr. pr\<lparr>pr_sf := sf, pr_swapinFinish := fin, pr_size := Some (uint PAGESIZE),
       pr_stage := Some SWAPIN_OPEN\<rparr>) s;
     sf_open sf FM_READ s }"

definition startSwapout :: "'z pager_st_scheme \<Rightarrow> 'z pager_st_scheme option" where
  "startSwapout s = do {
     ((pid, page), s) \<leftarrow> deleteAllocList s;
     sl \<leftarrow> process_lookup pid s;
     c_assert (sl \<noteq> PNull);
     (e, s) \<leftarrow> entry_of sl page s;
     w \<leftarrow> rd_entry e s;
     let frame = w AND ADDRESS_MASK;
     rs \<leftarrow> process_get_regions sl;
     r \<leftarrow> find (findPaRegion page) rs;
     let sf = defaultSwapfile s;
     c_assert (page AND NOT PAGEALIGN = 0);
     s \<leftarrow> prepareDataIn sl page s;
     sid \<leftarrow> process_get_sid sl;
     s \<leftarrow> unmapPage sid page s;
     swapoutPr \<leftarrow> allocPagerRequest pid frame (ucast FM_READ) sf Cb_null s;
     c_assert (heapOk s);
     ppid \<leftarrow> process_get_pid sl;
     (diskAddr, s) \<leftarrow> pagerSwapslotAlloc ppid s;
     c_assert (diskAddr AND NOT PAGEALIGN = 0);
     w \<leftarrow> rd_entry e s;
     s \<leftarrow> wr_entry e (((w OR SWAP_MASK) AND NOT ADDRESS_MASK) OR diskAddr) s;
     let s = s\<lparr>requests := REQUEST_SWAPOUT (swapoutPr\<lparr>pr_diskAddr := Some diskAddr, pr_stage := Some SWAPOUT_OPEN,
       pr_size := Some (uint PAGESIZE)\<rparr>) # requests s\<rparr>;
     sf_open sf FM_WRITE s }"

definition startElfload :: "'z pager_st_scheme \<Rightarrow> 'z pager_st_scheme option" where
  "startElfload s = do {
     er \<leftarrow> peek_elfload s;
     Some (openNonblocking FM_READ (s\<lparr>copyInOutBuffer :=
       buf_strncpy (pager_buffer (pager_get_tid s)) (er_path er) MAX_FILE_NAME (copyInOutBuffer s)\<rparr>)) }"

definition startPagerRequest :: "(PagerRequest \<Rightarrow> 'z pager_st_scheme \<Rightarrow> 'z pager_st_scheme option) \<Rightarrow>
    'z pager_st_scheme \<Rightarrow> 'z pager_st_scheme option" where
  "startPagerRequest pgr s = do {
     nextPr \<leftarrow> peek_pager s;
     sl \<leftarrow> process_lookup (pr_pid nextPr) s;
     (e, s) \<leftarrow> entry_of sl (pr_addr nextPr) s;
     w \<leftarrow> rd_entry e s;
     if w AND SWAP_MASK \<noteq> 0 then startSwapin s
     else do {
       c_assert (pinnedFrame s = 0);
       if allocLimit s > 0 then pgr nextPr (s\<lparr>requestActive := False, requests := tl (requests s)\<rparr>)
       else startSwapout s } }"

definition startRequest_body :: "(PagerRequest \<Rightarrow> 'z pager_st_scheme \<Rightarrow> 'z pager_st_scheme option) \<Rightarrow>
    'z pager_st_scheme \<Rightarrow> 'z pager_st_scheme option" where
  "startRequest_body pgr s = do {
     c_assert (requests s \<noteq> []);
     c_assert (\<not> requestActive s);
     let s = s\<lparr>requestActive := True\<rparr>;
     if peek_elfload s = None then startPagerRequest pgr s else startElfload s }"

section \<open>The recursion\<close>

lemma case_option_mono:
  "mono_option A \<Longrightarrow> (\<And>x. mono_option (B x)) \<Longrightarrow> mono_option (\<lambda>f. case y of None \<Rightarrow> A f | Some x \<Rightarrow> B x f)"
  by (cases y) simp_all

lemma queueRequest_mono [partial_function_mono]:
  "(\<And>s. mono_option (\<lambda>f. S f s)) \<Longrightarrow> mono_option (\<lambda>f. queueRequest (S f) rq s)"
  unfolding queueRequest_def by (intro if_mono bind_mono option.const_mono) simp_all

lemma pagerAction_mono [partial_function_mono]:
  assumes "\<And>s. mono_option (\<lambda>f. S f s)"
  shows "mono_option (\<lambda>f. pagerAction (S f) pr s)"
  unfolding pagerAction_def split_def Let_def
  by (intro if_mono bind_mono option.const_mono case_option_mono queueRequest_mono assms)

lemma copyInContinue_mono [partial_function_mono]:
  assumes "\<And>pr s. mono_option (\<lambda>f. P f pr s)"
  shows "mono_option (\<lambda>f. copyInContinue (P f) pr s)"
  unfolding copyInContinue_def split_def Let_def by (intro if_mono bind_mono option.const_mono assms)

lemma copyOutContinue_mono [partial_function_mono]:
  assumes "\<And>pr s. mono_option (\<lambda>f. P f pr s)"
  shows "mono_option (\<lambda>f. copyOutContinue (P f) pr s)"
  unfolding copyOutContinue_def split_def Let_def by (intro if_mono bind_mono option.const_mono assms)

lemma run_callback_mono [partial_function_mono]:
  assumes "\<And>pr s. mono_option (\<lambda>f. P f pr s)"
  shows "mono_option (\<lambda>f. run_callback (P f) pr s)"
  unfolding run_callback_def
  by (cases "pr_callback pr") (simp_all add: option.const_mono copyInContinue_mono copyOutContinue_mono assms)

lemma pager_body_mono [partial_function_mono]:
  assumes "\<And>pr s. mono_option (\<lambda>f. P f pr s)" and "\<And>s. mono_option (\<lambda>f. S f s)"
  shows "mono_option (\<lambda>f. pager_body (P f) (S f) pr s)"
  unfolding pager_body_def split_def
  by (intro if_mono bind_mono option.const_mono pagerAction_mono run_callback_mono assms)

lemma startPagerRequest_mono [partial_function_mono]:
  assumes "\<And>pr s. mono_option (\<lambda>f. P f pr s)"
  shows "mono_option (\<lambda>f. startPagerRequest (P f) s)"
  unfolding startPagerRequest_def split_def by (intro if_mono bind_mono option.const_mono assms)

lemma startRequest_body_mono [partial_function_mono]:
  assumes "\<And>pr s. mono_option (\<lambda>f. P f pr s)"
  shows "mono_option (\<lambda>f. startRequest_body (P f) s)"
  unfolding startRequest_body_def Let_def
  by (intro if_mono bind_mono option.const_mono startPagerRequest_mono assms)

partial_function (option) pager_run :: "PagerRequest option \<Rightarrow> 'z pager_st_scheme \<Rightarrow> 'z pager_st_scheme option" where
  "pager_run c s = (case c of
     Some pr \<Rightarrow> pager_body (\<lambda>pr. pager_run (Some pr)) (pager_run None) pr s
   | None \<Rightarrow> startRequest_body (\<lambda>pr. pager_run (Some pr)) s)"

definition pager :: "PagerRequest \<Rightarrow> 'z pager_st_scheme \<Rightarrow> 'z pager_st_scheme option" where
  "pager pr = pager_run (Some pr)"

definition startRequest :: "'z pager_st_scheme \<Rightarrow> 'z pager_st_scheme option" where
  "startRequest = pager_run None"

lemma pager_eq: "pager pr s = pager_body pager startRequest pr s"
  unfolding pager_def startRequest_def by (subst pager_run.simps) (simp add: eta_contract_eq)

lemma startRequest_eq: "startRequest s = startRequest_body pager s"
  unfolding pager_def startRequest_def by (subst pager_run.simps) simp

section \<open>Finishing requests\<close>

definition dequeueRequest :: "'z pager_st_scheme \<Rightarrow> 'z pager_st_scheme option" where
  "dequeueRequest s = do {
     c_assert (requestActive s);
     c_assert (requests s \<noteq> []);
     let s = s\<lparr>requestActive := False, requests := tl (requests s)\<rparr>;
     if requests s = [] then Some s else startRequest s }"

text \<open>When the process of the request has died both functions go on with the request they have freed.\<close>

definition finishSwapout :: "'z pager_st_scheme \<Rightarrow> 'z pager_st_scheme option" where
  "finishSwapout s = do {
     c_assert (is_swapout s);
     swapout \<leftarrow> peek_pager s;
     let s = s\<lparr>requests := tl (requests s)\<rparr>;
     sl \<leftarrow> process_lookup (pr_pid swapout) s;
     s \<leftarrow> (case sl of
         PNull \<Rightarrow> do { (_, s) \<leftarrow> pagerFrameFree None (pr_addr swapout) s; Some s }
       | _ \<Rightarrow> do {
           p \<leftarrow> deref sl;
           (po, s) \<leftarrow> pagerFrameFree (Some p) (pr_addr swapout) s;
           set_slot (pr_pid swapout) (PProc (the po)) s });
     c_assert (is_swapin s);
     swapin \<leftarrow> peek_pager s;
     sl \<leftarrow> process_lookup (pr_pid swapin) s;
     c_assert (sl \<noteq> PNull);
     (_, s) \<leftarrow> pagerAction startRequest swapin s;
     (e, s) \<leftarrow> entry_of sl (pr_addr swapin) s;
     w \<leftarrow> rd_entry e s;
     let frame = w AND ADDRESS_MASK;
     let s = (if pinnedFrame s \<noteq> 0
       then (frame_free (pinnedFrame s)
         (s\<lparr>mem := put_bytes frame (get_bytes (mem s) (pinnedFrame s) (unat PAGESIZE)) (mem s)\<rparr>))\<lparr>pinnedFrame := 0\<rparr>
       else s\<lparr>mem := put_bytes frame (replicate (unat PAGESIZE) NUL) (mem s)\<rparr>);
     s \<leftarrow> prepareDataOut sl (pr_addr swapin AND PAGEALIGN) s;
     s \<leftarrow> run_callback pager swapin s;
     dequeueRequest s }"

definition finishSwapin :: "'z pager_st_scheme \<Rightarrow> 'z pager_st_scheme option" where
  "finishSwapin s = do {
     c_assert (is_swapin s);
     rq \<leftarrow> peek_pager s;
     sl \<leftarrow> process_lookup (pr_pid rq) s;
     c_assert (sl \<noteq> PNull);
     let addr = pr_addr rq AND PAGEALIGN;
     (e, s) \<leftarrow> entry_of sl addr s;
     w \<leftarrow> rd_entry e s;
     c_assert (w AND SWAP_MASK \<noteq> 0);
     pid \<leftarrow> process_get_pid sl;
     s \<leftarrow> free_swapslots (pid, w AND ADDRESS_MASK) s;
     s \<leftarrow> wr_entry e ((w AND NOT SWAP_MASK) AND NOT ADDRESS_MASK) s;
     if allocLimit s > 0 then do {
       (_, s) \<leftarrow> pagerAction startRequest rq s;
       w \<leftarrow> rd_entry e s;
       let frame = w AND ADDRESS_MASK;
       let s = s\<lparr>mem := put_bytes frame (get_bytes (mem s) (pinnedFrame s) (unat PAGESIZE)) (mem s)\<rparr>;
       s \<leftarrow> prepareDataOut sl addr s;
       let s = (frame_free (pinnedFrame s) s)\<lparr>pinnedFrame := 0\<rparr>;
       s \<leftarrow> run_callback pager rq s;
       dequeueRequest s }
     else startSwapout s }"

text \<open>The part of the page past the end of the file is cleared, by as much as the region exceeds the file.\<close>

definition finishSwapelf :: "'z pager_st_scheme \<Rightarrow> 'z pager_st_scheme option" where
  "finishSwapelf s = do {
     pr \<leftarrow> peek_pager s;
     sl \<leftarrow> process_lookup (pr_pid pr) s;
     rs \<leftarrow> process_get_regions sl;
     (e, s) \<leftarrow> entry_of sl (pr_addr pr) s;
     r \<leftarrow> find (findRegion (pr_addr pr)) rs;
     fs \<leftarrow> region_get_filesize r;
     let fileTop = region_get_base r + fs;
     s \<leftarrow> (if fileTop AND PAGEALIGN = pr_addr pr AND PAGEALIGN then do {
         c_assert (region_get_size r \<ge> fs);
         Some (s\<lparr>mem := put_bytes (pinnedFrame s + fileTop mod PAGESIZE)
           (replicate (unat (region_get_size r - fs)) NUL) (mem s)\<rparr>) }
       else Some s);
     w \<leftarrow> rd_entry e s;
     s \<leftarrow> wr_entry e (w AND NOT ELF_MASK) s;
     finishSwapin s }"

section \<open>Continuations after an answer of the file system\<close>

definition io_chunk :: "int \<Rightarrow> int" where
  "io_chunk n = (if uint IO_MAX_BUFFER < n then uint IO_MAX_BUFFER else n)"

definition continueSwapin :: "int \<Rightarrow> 'z pager_st_scheme \<Rightarrow> 'z pager_st_scheme option" where
  "continueSwapin vfsRval s = do {
     pr \<leftarrow> peek_pager s;
     stage \<leftarrow> pr_stage pr;
     case stage of
       SWAPIN_OPEN \<Rightarrow> do {
         s \<leftarrow> sf_set_fd (pr_sf pr) vfsRval s;
         sl \<leftarrow> process_lookup (pr_pid pr) s;
         (e, s) \<leftarrow> entry_of sl (pr_addr pr AND ADDRESS_MASK) s;
         fd \<leftarrow> sf_get_fd (pr_sf pr) s;
         w \<leftarrow> rd_entry e s;
         let s = lseekNonblocking fd (w AND ADDRESS_MASK) SEEK_SET s;
         Some (upd_head (\<lambda>pr. pr\<lparr>pr_offset := 0, pr_stage := Some SWAPIN_LSEEK\<rparr>) s) }
     | SWAPIN_LSEEK \<Rightarrow> do {
         fd \<leftarrow> sf_get_fd (pr_sf pr) s;
         sz \<leftarrow> pr_size pr;
         let s = readNonblocking fd (word_of_int (io_chunk (sz - pr_offset pr))) s;
         Some (upd_head (\<lambda>pr. pr\<lparr>pr_stage := Some SWAPIN_READ\<rparr>) s) }
     | SWAPIN_READ \<Rightarrow> do {
         c_assert (vfsRval > 0);
         c_assert (pr_offset pr \<le> uint PAGESIZE);
         let data = map (copyInOutBuffer s) [pager_buffer (virtualPager s)..<pager_buffer (virtualPager s) + nat vfsRval];
         let s = s\<lparr>mem := put_bytes (pinnedFrame s + word_of_int (pr_offset pr)) data (mem s)\<rparr>;
         let offset = pr_offset pr + vfsRval;
         let s = upd_head (\<lambda>pr. pr\<lparr>pr_offset := offset\<rparr>) s;
         sz \<leftarrow> pr_size pr;
         c_assert (offset \<le> sz);
         if offset = sz then do {
           s \<leftarrow> sf_close (pr_sf pr) s;
           Some (upd_head (\<lambda>pr. pr\<lparr>pr_stage := Some SWAPIN_CLOSE\<rparr>) s) }
         else do {
           fd \<leftarrow> sf_get_fd (pr_sf pr) s;
           Some (readNonblocking fd (word_of_int (io_chunk (sz - offset))) s) } }
     | SWAPIN_CLOSE \<Rightarrow> (case pr_swapinFinish pr of Fin_panic \<Rightarrow> None
         | Fin_finishSwapin \<Rightarrow> finishSwapin s | Fin_finishSwapelf \<Rightarrow> finishSwapelf s)
     | _ \<Rightarrow> None }"

definition continueSwapout :: "int \<Rightarrow> 'z pager_st_scheme \<Rightarrow> 'z pager_st_scheme option" where
  "continueSwapout vfsRval s = do {
     pr \<leftarrow> peek_pager s;
     c_assert (pr_offset pr \<le> uint PAGESIZE);
     stage \<leftarrow> pr_stage pr;
     case stage of
       SWAPOUT_OPEN \<Rightarrow> do {
         s \<leftarrow> sf_set_fd (pr_sf pr) vfsRval s;
         fd \<leftarrow> sf_get_fd (pr_sf pr) s;
         diskAddr \<leftarrow> pr_diskAddr pr;
         let s = lseekNonblocking fd diskAddr SEEK_SET s;
         Some (upd_head (\<lambda>pr. pr\<lparr>pr_offset := 0, pr_stage := Some SWAPOUT_WRITE\<rparr>) s) }
     | SWAPOUT_WRITE \<Rightarrow> do {
         sz \<leftarrow> pr_size pr;
         c_assert (pr_offset pr \<le> sz);
         if pr_offset pr = sz then do {
           s \<leftarrow> sf_close (pr_sf pr) s;
           Some (upd_head (\<lambda>pr. pr\<lparr>pr_stage := Some SWAPOUT_CLOSE\<rparr>) s) }
         else do {
           let n = io_chunk (sz - pr_offset pr);
           let data = get_bytes (mem s) (pr_addr pr + word_of_int (pr_offset pr)) (nat n);
           let s = s\<lparr>copyInOutBuffer := buf_memcpy (pager_buffer (pager_get_tid s)) data (copyInOutBuffer s)\<rparr>;
           fd \<leftarrow> sf_get_fd (pr_sf pr) s;
           let s = writeNonblocking fd (word_of_int n) s;
           Some (upd_head (\<lambda>pr. pr\<lparr>pr_offset := pr_offset pr + n\<rparr>) s) } }
     | SWAPOUT_CLOSE \<Rightarrow> finishSwapout s
     | _ \<Rightarrow> None }"

section \<open>Loading executables\<close>

definition finishElfload :: "int \<Rightarrow> 'z pager_st_scheme \<Rightarrow> 'z pager_st_scheme option" where
  "finishElfload rval s = do {
     er \<leftarrow> peek_elfload s;
     sl \<leftarrow> process_lookup (er_parent er) s;
     replyTo \<leftarrow> process_get_tid sl;
     s \<leftarrow> syscall_reply replyTo (word_of_int rval) s;
     dequeueRequest s }"

text \<open>The loop counter is a signed integer: a region of two gigabytes or more would overflow it.\<close>

fun set_elf_pages :: "u32 \<Rightarrow> u32 \<Rightarrow> u32 \<Rightarrow> nat \<Rightarrow> 'z frames_st_scheme \<Rightarrow> 'z frames_st_scheme option" where
  "set_elf_pages pt base addr 0 s = Some s"
| "set_elf_pages pt base addr (Suc n) s = do {
     (e, s) \<leftarrow> pagetableLookup pt base s;
     s \<leftarrow> wr_entry e (addr OR SWAP_MASK OR ELF_MASK) s;
     set_elf_pages pt (base + PAGESIZE) (addr + PAGESIZE) n s }"

definition setRegionOnElf :: "Process \<Rightarrow> Region \<Rightarrow> u32 \<Rightarrow> 'z frames_st_scheme \<Rightarrow> 'z frames_st_scheme option" where
  "setRegionOnElf p r addr s = do {
     c_assert (addr AND NOT PAGEALIGN = 0);
     let n = (unat (region_get_size r) + 4095) div 4096;
     c_assert (n * 4096 < 2 ^ 31);
     set_elf_pages (pagetable p) (region_get_base r) addr n s }"

text \<open>The buffer as memory for the ELF library.\<close>

definition elf_view :: "(nat \<Rightarrow> char) \<Rightarrow> bmem" where
  "elf_view b a = of_nat (of_char (b (unat a)))"

text \<open>One region for every program header, with a swap file of its own for the image.\<close>

fun load_regions :: "string \<Rightarrow> u32 \<Rightarrow> nat list \<Rightarrow> Process \<Rightarrow> 'z pager_st_scheme \<Rightarrow> (Process \<times> 'z pager_st_scheme) option" where
  "load_regions path header [] p s = Some (p, s)"
| "load_regions path header (i # is) p s = do {
     let m = elf_view (copyInOutBuffer s);
     let ph = (of_nat i :: u16);
     let r = region_alloc REGION_OTHER (elf32_getProgramHeaderVaddr m header ph)
       (elf32_getProgramHeaderMemorySize m header ph) (elf32_getProgramHeaderFlags m header ph) False;
     (a, sf, s) \<leftarrow> swapfile_init path s;
     let s = s\<lparr>swapfiles := (swapfiles s)(a \<mapsto> sf)\<rparr>;
     let r = region_set_filesize (elf32_getProgramHeaderFileSize m header ph) (region_set_elffile a r);
     let p = process_add_region r p;
     s \<leftarrow> setRegionOnElf p r (elf32_getProgramHeaderOffset m header ph AND PAGEALIGN) s;
     load_regions path header is p s }"

definition upd_er :: "(ElfloadRequest \<Rightarrow> ElfloadRequest) \<Rightarrow> 'z pager_st_scheme \<Rightarrow> 'z pager_st_scheme" where
  "upd_er f s = s\<lparr>requests := (case requests s of REQUEST_ELFLOAD er # rqs \<Rightarrow> REQUEST_ELFLOAD (f er) # rqs | rqs \<Rightarrow> rqs)\<rparr>"

text \<open>
  After \<^verbatim>\<open>finishElfload\<close> has freed the request, two of the branches still advance its stage: they
  write to freed memory.
\<close>

definition continueElfload :: "int \<Rightarrow> 'z pager_st_scheme \<Rightarrow> 'z pager_st_scheme option" where
  "continueElfload vfsRval s = do {
     er \<leftarrow> peek_elfload s;
     let buf = pager_buffer (pager_get_tid s);
     case er_stage er of
       ELFLOAD_OPEN \<Rightarrow>
         if vfsRval < 0 then None
         else do {
           s \<leftarrow> cio_set (L4_ThreadNo (pager_get_tid s)) 0 s;
           let s = s\<lparr>copyInOutBuffer := buf_strncpy buf (er_path er) MAX_FILE_NAME (copyInOutBuffer s)\<rparr>;
           Some (upd_er (\<lambda>er. er\<lparr>er_fd := vfsRval, er_stage := ELFLOAD_CHECK_EXEC\<rparr>) (statNonblocking s)) }
     | ELFLOAD_CHECK_EXEC \<Rightarrow> do {
         c_assert (vfsRval = 0);
         path \<leftarrow> cstr (copyInOutBuffer s) buf;
         let elfStat = statBuffer s (unat (wordAlign (of_nat (buf + length path + 1))));
         if st_fmode elfStat AND FM_EXEC = 0 then finishElfload (-1) s
         else Some (upd_er (\<lambda>er. er\<lparr>er_stage := ELFLOAD_READ_HEADER\<rparr>) (readNonblocking (er_fd er) IO_MAX_BUFFER s)) }
     | ELFLOAD_READ_HEADER \<Rightarrow> do {
         let header = (of_nat buf :: u32);
         let m = elf_view (copyInOutBuffer s);
         if elf32_checkFile m header \<noteq> 0 then None
         else do {
           (p, s) \<leftarrow> process_init PS_TYPE_PROCESS s;
           (p, s) \<leftarrow> load_regions (er_path er) header [0..<unat (elf32_getNumProgramHeaders m header)] p s;
           child \<leftarrow> er_child er;
           let p = process_set_name (er_path er) p;
           let p = process_get_info (now s) p;
           let p = p\<lparr>info := (info p)\<lparr>ps_pid := child\<rparr>\<rparr>;
           (p, s) \<leftarrow> process_prepare2 p (er_fdout er) (er_fderr er) (er_fdin er) s;
           let pid = ps_pid (info p);
           s \<leftarrow> upd_proc pid (process_set_ip (elf32_getEntryPoint (elf_view (copyInOutBuffer s)) header)) s;
           (_, s) \<leftarrow> process_run pid True s;
           c_assert (child = pid);
           Some (upd_er (\<lambda>er. er\<lparr>er_stage := ELFLOAD_CLOSE\<rparr>) (closeNonblocking (er_fd er) s)) } }
     | ELFLOAD_CLOSE \<Rightarrow> do { child \<leftarrow> er_child er; finishElfload child s } }"

definition vfsHandler :: "int \<Rightarrow> 'z pager_st_scheme \<Rightarrow> 'z pager_st_scheme option" where
  "vfsHandler vfsRval s = (case requests s of [] \<Rightarrow> None
     | REQUEST_SWAPOUT pr # _ \<Rightarrow> continueSwapout vfsRval s
     | REQUEST_SWAPIN pr # _ \<Rightarrow> continueSwapin vfsRval s
     | REQUEST_ELFLOAD er # _ \<Rightarrow> continueElfload vfsRval s)"

section \<open>Messages to the pager thread\<close>

definition copy_start :: "pr_callback \<Rightarrow> u8 \<Rightarrow> L4_ThreadId_t \<Rightarrow> u32 \<Rightarrow> u32 \<Rightarrow> bool \<Rightarrow>
    'z pager_st_scheme \<Rightarrow> 'z pager_st_scheme option" where
  "copy_start cb rights tid addr sz app s = do {
     sl \<leftarrow> process_lookup (L4_ThreadNo tid) s;
     pid \<leftarrow> process_get_pid sl;
     d \<leftarrow> cio_get pid s;
     let newSize = (if app then LO_HALF d + sz else sz);
     let newBase = (if app then HI_HALF d else 0);
     s \<leftarrow> cio_set pid (LO_HALF newSize OR HI_SHIFT newBase) s;
     pr \<leftarrow> allocPagerRequest pid addr (ucast rights) (defaultSwapfile s) cb s;
     pager pr s }"

definition copyIn :: "L4_ThreadId_t \<Rightarrow> u32 \<Rightarrow> u32 \<Rightarrow> bool \<Rightarrow> 'z pager_st_scheme \<Rightarrow> 'z pager_st_scheme option" where
  "copyIn = copy_start Cb_copyInContinue FM_READ"

definition copyOut :: "L4_ThreadId_t \<Rightarrow> u32 \<Rightarrow> u32 \<Rightarrow> bool \<Rightarrow> 'z pager_st_scheme \<Rightarrow> 'z pager_st_scheme option" where
  "copyOut = copy_start Cb_copyOutContinue FM_WRITE"

definition pagerFlush :: "int \<Rightarrow> 'z pager_st_scheme \<Rightarrow> 'z pager_st_scheme" where
  "pagerFlush sender = l4_do (UnmapSpace sender)"

definition process_create :: "L4_ThreadId_t \<Rightarrow> procslot \<Rightarrow> msg \<Rightarrow> 'z pager_st_scheme \<Rightarrow> 'z pager_st_scheme option" where
  "process_create tid sl m s = do {
     (pid, s) \<leftarrow> reserve_pid s;
     (er, s) \<leftarrow> (if pid \<noteq> NIL_PID then do {
         let path = takeWhile (\<lambda>c. c \<noteq> NUL) (map (copyInOutBuffer s) [pager_buffer tid..<pager_buffer tid + MAX_FILE_NAME]);
         parent \<leftarrow> process_get_pid sl;
         allocElfloadRequest path parent (sint (L4_MsgWord m 0)) (sint (L4_MsgWord m 1)) (sint (L4_MsgWord m 2)) s }
       else Some (None, s));
     case er of None \<Rightarrow> syscall_reply tid (- 1) s
     | Some er \<Rightarrow> queueRequest startRequest (REQUEST_ELFLOAD (er\<lparr>er_child := Some pid\<rparr>)) s }"

text \<open>One round of the loop of \<^verbatim>\<open>virtualPagerHandler\<close>, for a message from the space \<open>sender\<close>.\<close>

definition virtualPagerHandler :: "int \<Rightarrow> msg \<Rightarrow> 'z pager_st_scheme \<Rightarrow> 'z pager_st_scheme option" where
  "virtualPagerHandler sender m s = do {
     let tid = sos_sid2tid sender s;
     sl \<leftarrow> process_lookup (L4_ThreadNo tid) s;
     case syscall_of (TAG_SYSLAB m) of
       Some L4_PAGEFAULT \<Rightarrow> do {
         pid \<leftarrow> process_get_pid sl;
         pr \<leftarrow> allocPagerRequest pid (L4_MsgWord m 0) (ucast (msg_label m) AND 7) (defaultSwapfile s) Cb_pagerContinue s;
         pager pr s }
     | Some SOS_COPYIN \<Rightarrow> copyIn tid (L4_MsgWord m 0) (L4_MsgWord m 1) (L4_MsgWord m 2 \<noteq> 0) s
     | Some SOS_COPYOUT \<Rightarrow> copyOut tid (L4_MsgWord m 0) (L4_MsgWord m 1) (L4_MsgWord m 2 \<noteq> 0) s
     | Some SOS_REPLY \<Rightarrow> if sender = L4_rootspace then vfsHandler (sint (L4_MsgWord m 0)) s else Some s
     | Some SOS_MOREMEM \<Rightarrow> do {
         (r, s) \<leftarrow> heapGrow sender (pager_buffer tid) (L4_MsgWord m 0) s;
         syscall_reply tid (word_of_int r) s }
     | Some SOS_MEMLOC \<Rightarrow> do {
         (e, s) \<leftarrow> entry_of sl (L4_MsgWord m 0 AND PAGEALIGN) s;
         w \<leftarrow> rd_entry e s;
         syscall_reply tid w s }
     | Some SOS_MEMUSE \<Rightarrow> syscall_reply tid (word_of_int (memoryUsage s)) s
     | Some SOS_SWAPUSE \<Rightarrow> do {
         sf \<leftarrow> swapfiles s (defaultSwapfile s);
         syscall_reply tid (word_of_int (swapfile_get_usage sf)) s }
     | Some SOS_PHYSUSE \<Rightarrow> syscall_reply tid (word_of_int (frames_allocated s)) s
     | Some SOS_PROCESS_WAIT \<Rightarrow>
         if L4_MsgWord m 0 = - 1 then process_wait_any (L4_ThreadNo tid) s
         else do {
           w \<leftarrow> process_lookup (sint (L4_MsgWord m 0)) s;
           process_wait_for w (L4_ThreadNo tid) s }
     | Some SOS_PROCESS_STATUS \<Rightarrow> do {
         (ps, s) \<leftarrow> process_write_status (L4_MsgWord m 0) s;
         let s = s\<lparr>statusBuffer := (statusBuffer s)(pager_buffer tid := ps)\<rparr>;
         syscall_reply tid (of_nat (length ps)) s }
     | Some SOS_PROCESS_DELETE \<Rightarrow> do {
         (r, s) \<leftarrow> processDelete (sint (L4_MsgWord m 0)) s;
         if word_of_int (L4_ThreadNo tid) = L4_MsgWord m 0 then Some s
         else syscall_reply tid (word_of_int r) s }
     | Some SOS_PROCESS_CREATE \<Rightarrow> process_create tid sl m s
     | Some SOS_DEBUG_FLUSH \<Rightarrow> syscall_reply_v tid [] (pagerFlush sender s)
     | Some L4_EXCEPTION \<Rightarrow> do {
         pid \<leftarrow> process_get_pid sl;
         (_, s) \<leftarrow> processDelete pid s;
         Some s }
     | _ \<Rightarrow> Some s }"

end
