(* ===== verification/Clock.thy ===== *)
theory Clock
  imports Pager
begin

text \<open>
  Interrupts and time: \<^verbatim>\<open>src/sos/irq.c\<close>, the clock driver \<^verbatim>\<open>src/sos/clock.c\<close> with the conversions of
  \<^verbatim>\<open>src/libs/clock/include/nslu2.h\<close>, and the busy-waiting timer \<^verbatim>\<open>src/sos/timer.c\<close>. The record holds
  the drivers' static variables and the last values of the timer's registers; the nodes of the list of
  sleeping threads are a heap, because the interrupt handler deletes a node by copying its successor
  over it. The masks of the microkernel's notifications are not modelled.
\<close>

section \<open>State\<close>

datatype irq_handler = network_irq_h | timestamp_irq_h | timer_irq_h

record IrqInfo =
  irq_no :: int
  irq_request :: "irq_handler option"

record BlockedThread =
  bt_tid :: L4_ThreadId_t
  bt_unblock :: u64
  bt_next :: u32

text \<open>
  \<open>sentinel\<close> is the address of the variable of that name, \<open>bt_addr\<close> what the next \<^verbatim>\<open>malloc\<close> of a node
  returns, and \<open>ost_ts\<close>, \<open>ost_tim0\<close> what reading the counter and the timer gives.
\<close>

record clock_st = pager_st +
  irq_info :: "IrqInfo list"
  ts_overflow :: u64
  bts :: "u32 \<rightharpoonup> BlockedThread"
  blocked_threads :: u32
  sentinel :: u32
  bt_addr :: u32
  ost_ts :: u32
  ost_tim0 :: u32
  ost_tim0_rl :: u32
  ost_sts :: u32
  utimer_p :: "int option"

section \<open>Interrupts\<close>

definition MAX_IRQ :: nat where
  [simp]: "MAX_IRQ = 32"
definition NSLU2_TIMER0_IRQ :: u32 where
  [simp]: "NSLU2_TIMER0_IRQ = 5"
definition NSLU2_TIMESTAMP_IRQ :: u32 where
  [simp]: "NSLU2_TIMESTAMP_IRQ = 14"

definition irq_init :: "'z clock_st_scheme \<Rightarrow> 'z clock_st_scheme" where
  "irq_init s = s\<lparr>irq_info := map (\<lambda>i. i\<lparr>irq_no := - 1\<rparr>) (irq_info s)\<rparr>"

definition irq_add :: "int \<Rightarrow> irq_handler \<Rightarrow> 'z clock_st_scheme \<Rightarrow> 'z clock_st_scheme" where
  "irq_add irq h s =
     (if irq < 0 \<or> irq \<ge> int MAX_IRQ then s
      else s\<lparr>irq_info := (irq_info s)[nat irq := \<lparr>irq_no = irq, irq_request = Some h\<rparr>]\<rparr>)"

text \<open>The table is indexed without a check; the result is null for a number without a driver.\<close>

definition irq_find :: "int \<Rightarrow> 'z clock_st_scheme \<Rightarrow> IrqInfo option option" where
  "irq_find irq s = do {
     c_assert (0 \<le> irq);
     i \<leftarrow> arr_get (irq_info s) (nat irq);
     Some (if irq_no i = - 1 then None else Some i) }"

section \<open>The clock\<close>

definition OST_TS :: u32 where
  [simp]: "OST_TS = 0xC8005000"
definition CLEAR_ST :: u32 where
  [simp]: "CLEAR_ST = 4"
definition CLEAR_TIM0 :: u32 where
  [simp]: "CLEAR_TIM0 = 1"
definition ONESHOT_ENABLE :: u32 where
  [simp]: "ONESHOT_ENABLE = 3"

definition NSLU2_TICKS2US :: "u64 \<Rightarrow> u64" where
  "NSLU2_TICKS2US ticks = ticks * 50 div 3333"
definition NSLU2_US2TICKS :: "u64 \<Rightarrow> u64" where
  "NSLU2_US2TICKS us = us * 3333 div 50"

definition isSentinel :: "u32 \<Rightarrow> 'z clock_st_scheme \<Rightarrow> bool option" where
  "isSentinel bt s = do {
     n \<leftarrow> bts s bt;
     sn \<leftarrow> bts s (sentinel s);
     Some (bt_tid n = bt_tid sn) }"

definition start_timer :: "'z clock_st_scheme \<Rightarrow> int \<times> 'z clock_st_scheme" where
  "start_timer s =
     (let s = s\<lparr>bts := (bts s)(sentinel s \<mapsto> \<lparr>bt_tid = L4_nilthread, bt_unblock = 0, bt_next = 0\<rparr>)\<rparr>;
        s = l4_do (MapFpage L4_rootspace OST_TS OST_TS L4_ReadWriteOnly) s;
        s = s\<lparr>ost_sts := ost_sts s OR CLEAR_ST, ost_ts := 1, ts_overflow := 0\<rparr>;
        s = l4_do (RegisterInterrupt NSLU2_TIMESTAMP_IRQ) s;
        s = s\<lparr>ost_sts := ost_sts s OR CLEAR_TIM0\<rparr>;
        s = l4_do (RegisterInterrupt NSLU2_TIMER0_IRQ) s in
      (0, s))"

definition raw_time_stamp :: "'z clock_st_scheme \<Rightarrow> u64" where
  "raw_time_stamp s = ucast (ost_ts s) + push_bit 32 (ts_overflow s)"

definition time_stamp :: "'z clock_st_scheme \<Rightarrow> u64" where
  "time_stamp s = NSLU2_TICKS2US (raw_time_stamp s)"

definition register_timer :: "u64 \<Rightarrow> L4_ThreadId_t \<Rightarrow> 'z clock_st_scheme \<Rightarrow> (int \<times> 'z clock_st_scheme) option" where
  "register_timer delay client s = do {
     let ts = raw_time_stamp s;
     let cs = NSLU2_US2TICKS delay;
     let cs = (if cs = 0 then 1 else cs);
     let bt = bt_addr s;
     c_assert (bt \<noteq> 0);
     let s = s\<lparr>bts := (bts s)(bt \<mapsto> \<lparr>bt_tid = client, bt_unblock = ts + cs, bt_next = blocked_threads s\<rparr>),
       blocked_threads := bt\<rparr>;
     s \<leftarrow> upd_proc (L4_ThreadNo client) (process_set_state PS_STATE_SLEEP) s;
     let s = (if ost_tim0 s = 0 \<or> push_bit 2 (ucast cs :: u32) < ost_tim0 s
       then s\<lparr>ost_tim0_rl := ucast cs OR ONESHOT_ENABLE, ost_sts := ost_sts s OR CLEAR_TIM0\<rparr> else s);
     Some (0, s) }"

definition stop_timer :: "'z clock_st_scheme \<Rightarrow> int \<times> 'z clock_st_scheme" where
  "stop_timer s = (0, s)"

definition timestamp_irq :: "'z clock_st_scheme \<Rightarrow> int \<times> 'z clock_st_scheme" where
  "timestamp_irq s = (1, s\<lparr>ts_overflow := ts_overflow s + 1, ost_sts := ost_sts s OR CLEAR_ST\<rparr>)"

text \<open>
  The loop of \<^verbatim>\<open>timer_irq\<close>. A thread whose time has come is woken, and its node takes over the fields
  of the next one, which is freed unless it is a sentinel.
\<close>

definition wake_sleeper :: "L4_ThreadId_t \<Rightarrow> 'z proc_st_scheme \<Rightarrow> 'z proc_st_scheme option" where
  "wake_sleeper tid s = do {
     s \<leftarrow> upd_proc (L4_ThreadNo tid) (process_set_state PS_STATE_ALIVE) s;
     syscall_reply tid 0 s }"

partial_function (option) unblock_loop :: "u64 \<Rightarrow> u32 \<Rightarrow> bool \<Rightarrow> u32 \<Rightarrow> 'z clock_st_scheme \<Rightarrow>
    (bool \<times> u32 \<times> 'z clock_st_scheme) option" where
  "unblock_loop ts bt delay nextDelay s =
     (if bt = 0 then Some (delay, nextDelay, s)
      else do {
        e \<leftarrow> isSentinel bt s;
        if e then Some (delay, nextDelay, s)
        else do {
          n \<leftarrow> bts s bt;
          if bt_unblock n \<le> ts then do {
            s \<leftarrow> wake_sleeper (bt_tid n) s;
            let freeMe = bt_next n;
            n' \<leftarrow> bts s freeMe;
            let s = s\<lparr>bts := (bts s)(bt \<mapsto> n')\<rparr>;
            e \<leftarrow> isSentinel freeMe s;
            let s = (if e then s else s\<lparr>bts := (bts s)(freeMe := None)\<rparr>);
            unblock_loop ts bt delay nextDelay s }
          else let d = ucast (bt_unblock n - ts) in
            if d < nextDelay then unblock_loop ts (bt_next n) True d s
            else unblock_loop ts (bt_next n) delay nextDelay s } })"

text \<open>\<open>later\<close> is what the counter reads when the loop is done.\<close>

definition timer_irq :: "u32 \<Rightarrow> 'z clock_st_scheme \<Rightarrow> (int \<times> 'z clock_st_scheme) option" where
  "timer_irq later s = do {
     let ts = raw_time_stamp s;
     c_assert (blocked_threads s \<noteq> 0);
     (delay, nextDelay, s) \<leftarrow> unblock_loop ts (blocked_threads s) False (- 1) s;
     let s = s\<lparr>ost_ts := later, ost_sts := ost_sts s OR CLEAR_TIM0\<rparr>;
     let ts2 = raw_time_stamp s;
     let nextDelay = nextDelay - ucast (ts2 - ts);
     let nextDelay = (if nextDelay \<le> 0 then 1 else nextDelay);
     Some (1, s\<lparr>ost_tim0_rl := (if delay then nextDelay OR ONESHOT_ENABLE else 0)\<rparr>) }"

section \<open>The busy-waiting timer\<close>

record utimer_entry =
  fStart :: u32
  fDiff :: u32
  fTid :: L4_ThreadId_t

definition processExpired :: "u32 \<Rightarrow> utimer_entry \<Rightarrow> 'z kernel_st_scheme \<Rightarrow> (bool \<times> 'z kernel_st_scheme) option" where
  "processExpired tick t s =
     (if fDiff t \<le> tick - fStart t then Some (True, l4_do (Reply (fTid t)) s) else Some (False, s))"

text \<open>One round of the loop of \<^verbatim>\<open>utimer\<close>: at \<open>tick\<close>, with what the receive gives.\<close>

definition utimer :: "u32 \<Rightarrow> (L4_ThreadId_t \<times> utimer_entry) option \<Rightarrow> utimer_entry list \<Rightarrow> 'z kernel_st_scheme \<Rightarrow>
    (utimer_entry list \<times> 'z kernel_st_scheme) option" where
  "utimer tick rcv entryq s = do {
     (entryq, s) \<leftarrow> delete_n (processExpired tick) (- 1) entryq s;
     Some (case rcv of None \<Rightarrow> entryq | Some (wait_tid, entry) \<Rightarrow> entry\<lparr>fTid := wait_tid\<rparr> # entryq, s) }"

definition utimer_init :: "u32 \<Rightarrow> 'z clock_st_scheme \<Rightarrow> 'z clock_st_scheme option" where
  "utimer_init utimer_thread s =
     (if utimer_p s \<noteq> None then Some s
      else do {
        (pid, s) \<leftarrow> process_run_rootthread ''utimer'' utimer_thread False 0 s;
        Some (s\<lparr>utimer_p := Some pid\<rparr>) })"

definition US_TO_TICKS :: "u32 \<Rightarrow> u32" where
  "US_TO_TICKS us = us div (10 * 1000)"

text \<open>The entry that \<^verbatim>\<open>utimer_sleep\<close> sends; the timer thread fills in the sender.\<close>

definition utimer_sleep :: "u32 \<Rightarrow> u32 \<Rightarrow> utimer_entry" where
  "utimer_sleep tick microseconds = \<lparr>fStart = tick, fDiff = US_TO_TICKS microseconds, fTid = L4_nilthread\<rparr>"

end
