(* ===== verification/Syscall.thy ===== *)
theory Syscall
  imports Clock
begin

text \<open>
  The root server's dispatch: \<^verbatim>\<open>syscall_handle\<close> of \<^verbatim>\<open>src/sos/syscall.c\<close> for every system call that goes
  to the root server, and one round of \<^verbatim>\<open>syscall_loop\<close> of \<^verbatim>\<open>src/sos/main.c\<close> with the pager of the
  root server's own threads. The driver of the network (\<^verbatim>\<open>network_irq\<close>) is an argument. What
  \<^verbatim>\<open>SOS_KERNEL_PRINT\<close> prints is recorded; diagnostic messages are not.
\<close>

record sos_st = clock_st +
  kernelOut :: string

section \<open>System calls\<close>

text \<open>
  The private calls are for the threads of the root server. The check goes through
  \<^verbatim>\<open>process_get_info\<close>, which brings the run time of the caller up to date.
\<close>

definition is_rootthread :: "L4_ThreadId_t \<Rightarrow> 'z proc_st_scheme \<Rightarrow> (bool \<times> 'z proc_st_scheme) option" where
  "is_rootthread tid s = do {
     s \<leftarrow> upd_proc (L4_ThreadNo tid) (process_get_info (now s)) s;
     sl \<leftarrow> process_lookup (L4_ThreadNo tid) s;
     p \<leftarrow> deref sl;
     Some (ps_type (info p) = PS_TYPE_ROOTTHREAD, s) }"

definition private_call :: "L4_ThreadId_t \<Rightarrow> ('z proc_st_scheme \<Rightarrow> 'z proc_st_scheme option) \<Rightarrow>
    'z proc_st_scheme \<Rightarrow> 'z proc_st_scheme option" where
  "private_call tid f s = do {
     (ok, s) \<leftarrow> is_rootthread tid s;
     if ok then f s else syscall_reply tid (- 1) s }"

text \<open>
  \<open>later\<close> is what the counter reads the second time: \<^verbatim>\<open>SOS_TIME_STAMP\<close> takes the two halves of the
  time from two readings.
\<close>

definition syscall_handle :: "u32 \<Rightarrow> L4_ThreadId_t \<Rightarrow> msg \<Rightarrow> 'z sos_st_scheme \<Rightarrow> (int \<times> 'z sos_st_scheme) option" where
  "syscall_handle later tid m s = do {
     let pid = L4_ThreadNo tid;
     let buf = pager_buffer tid;
     let w = L4_MsgWord m;
     s \<leftarrow> (case syscall_of (TAG_SYSLAB m) of
         Some SOS_KERNEL_PRINT \<Rightarrow> do {
           let b = (copyInOutBuffer s)(buf + unat COPY_BUFSIZ - 1 := NUL);
           str \<leftarrow> cstr b buf;
           Some (s\<lparr>copyInOutBuffer := b, kernelOut := kernelOut s @ str\<rparr>) }
       | Some SOS_OPEN \<Rightarrow> vfs_open pid buf (ucast (w 0)) (w 1) (w 2) s
       | Some PSOS_OPEN \<Rightarrow> private_call tid (\<lambda>s. do {
           sl \<leftarrow> process_lookup (sint (w 3)) s;
           t \<leftarrow> process_get_tid sl;
           vfs_open (sint (w 3)) (pager_buffer t) (ucast (w 0)) (w 1) (w 2) s }) s
       | Some SOS_CLOSE \<Rightarrow> vfs_close pid (sint (w 0)) s
       | Some PSOS_CLOSE \<Rightarrow> private_call tid (vfs_close (sint (w 1)) (sint (w 0))) s
       | Some SOS_READ \<Rightarrow> vfs_read pid (sint (w 0)) buf (w 1) s
       | Some SOS_WRITE \<Rightarrow> vfs_write pid (sint (w 0)) buf (w 1) s
       | Some SOS_FLUSH \<Rightarrow> vfs_flush pid (sint (w 0)) s
       | Some PSOS_FLUSH \<Rightarrow> private_call tid (vfs_flush (sint (w 1)) (sint (w 0))) s
       | Some SOS_LSEEK \<Rightarrow> vfs_lseek pid (sint (w 0)) (w 1) (w 2) s
       | Some SOS_GETDIRENT \<Rightarrow> vfs_getdirent pid (sint (w 0)) buf (w 1) s
       | Some SOS_STAT \<Rightarrow> do {
           path \<leftarrow> cstr (copyInOutBuffer s) buf;
           vfs_stat pid buf (unat (wordAlign (of_nat (buf + length path + 1)))) s }
       | Some SOS_REMOVE \<Rightarrow> vfs_remove pid buf s
       | Some SOS_DUP \<Rightarrow> vfs_dup pid (sint (w 0)) (sint (w 1)) s
       | Some PSOS_DUP \<Rightarrow> private_call tid (vfs_dup (sint (w 2)) (sint (w 0)) (sint (w 1))) s
       | Some SOS_TIME_STAMP \<Rightarrow>
           syscall_reply_v tid [ucast (time_stamp s), ucast (drop_bit 32 (time_stamp (s\<lparr>ost_ts := later\<rparr>)))] s
       | Some SOS_USLEEP \<Rightarrow> do { (_, s) \<leftarrow> register_timer (ucast (w 0)) tid s; Some s }
       | Some SOS_MY_ID \<Rightarrow> do {
           sl \<leftarrow> process_lookup pid s;
           no \<leftarrow> process_get_pid sl;
           syscall_reply tid (word_of_int no) s }
       | Some SOS_VPAGER \<Rightarrow> syscall_reply tid (word_of_int (L4_ThreadNo (pager_get_tid s))) s
       | _ \<Rightarrow> Some s);
     Some (0, s) }"

section \<open>The loop\<close>

definition L4_FullyAccessible :: u32 where
  [simp]: "L4_FullyAccessible = 7"

text \<open>Page faults of the root server's own threads: the page is mapped to the frame of the same address.\<close>

definition sosPagerHandler :: "int \<Rightarrow> msg \<Rightarrow> 'z kernel_st_scheme \<Rightarrow> 'z kernel_st_scheme" where
  "sosPagerHandler sender m s = (let addr = L4_MsgWord m 0 AND PAGEALIGN in
     l4_do (MapFpage sender addr addr L4_FullyAccessible) s)"

definition SOS_IRQ_NOTIFY_BIT :: nat where
  [simp]: "SOS_IRQ_NOTIFY_BIT = 31"
definition IRQ_MASK :: u32 where
  "IRQ_MASK = push_bit SOS_IRQ_NOTIFY_BIT 1"

text \<open>
  The driver of an interrupt; a result other than 0 asks for the interrupt to be acknowledged. The
  driver of the network also decides whether the loop sends a reply.
\<close>

definition run_irq :: "('z sos_st_scheme \<Rightarrow> (int \<times> bool \<times> 'z sos_st_scheme) option) \<Rightarrow> u32 \<Rightarrow> irq_handler \<Rightarrow>
    'z sos_st_scheme \<Rightarrow> (int \<times> 'z sos_st_scheme) option" where
  "run_irq network_irq later h s = (case h of
     network_irq_h \<Rightarrow> do { (ack, _, s) \<leftarrow> network_irq s; Some (ack, s) }
   | timestamp_irq_h \<Rightarrow> Some (timestamp_irq s)
   | timer_irq_h \<Rightarrow> timer_irq later s)"

text \<open>
  A message as the loop gets it: a notification with its bits and the number of the interrupt, or a
  message from a space. The result says whether the loop answers the caller with its next wait.
\<close>

datatype root_event = Notify u32 int | Message int msg

definition syscall_loop :: "('z sos_st_scheme \<Rightarrow> (int \<times> bool \<times> 'z sos_st_scheme) option) \<Rightarrow> u32 \<Rightarrow> root_event \<Rightarrow>
    'z sos_st_scheme \<Rightarrow> (bool \<times> 'z sos_st_scheme) option" where
  "syscall_loop network_irq later ev s = (case ev of
     Notify bits irq \<Rightarrow>
       if bits AND IRQ_MASK \<noteq> 0 then do {
         info \<leftarrow> irq_find irq s;
         i \<leftarrow> info;
         h \<leftarrow> irq_request i;
         (ack, s) \<leftarrow> run_irq network_irq later h s;
         Some (False, if ack \<noteq> 0 then l4_do (AcknowledgeInterrupt (word_of_int irq)) s else s) }
       else Some (False, s)
   | Message sender m \<Rightarrow>
       (case syscall_of (TAG_SYSLAB m) of
          Some L4_PAGEFAULT \<Rightarrow> Some (True, sosPagerHandler sender m s)
        | Some L4_INTERRUPT \<Rightarrow> do { (_, send, s) \<leftarrow> network_irq s; Some (send, s) }
        | Some L4_EXCEPTION \<Rightarrow> Some (False, s)
        | _ \<Rightarrow> do { (send, s) \<leftarrow> syscall_handle later (sos_sid2tid sender s) m s; Some (send \<noteq> 0, s) }))"

end
