(* ===== verification/VfsInv.thy ===== *)
theory VfsInv
  imports Vfs
begin

text \<open>
  The invariant of the virtual file system: the list of vnodes is well formed and holds every vnode
  there is; the reader and writer counts of each are exactly the number of open files of all
  processes that use it in that mode; every file has as many references as it has descriptors;
  no file points to a vnode that is gone. Every operation of \<^verbatim>\<open>vfs.c\<close> keeps it.
\<close>

section \<open>What operations change\<close>

definition l4_only :: "'z frames_st_scheme \<Rightarrow> 'z frames_st_scheme \<Rightarrow> bool" where
  "l4_only s s' \<longleftrightarrow> s' = s\<lparr>l4 := l4 s'\<rparr>"

lemma l4_only_refl [simp]: "l4_only s s"
  by (simp add: l4_only_def)

lemma l4_onlyE: "l4_only s s' \<Longrightarrow> (\<And>tr. s' = s\<lparr>l4 := tr\<rparr> \<Longrightarrow> P) \<Longrightarrow> P"
  by (auto simp: l4_only_def)

lemma syscall_reply_v_frame: "syscall_reply_v tid ws s = Some s' \<Longrightarrow> l4_only s s'"
  by (auto simp: syscall_reply_v_def l4_only_def send_defs Let_def split: if_splits elim!: bind_SomeE)

lemma reply_pid_frame: "reply_pid pid st s = Some s' \<Longrightarrow> l4_only s s'"
  by (auto simp: reply_pid_def syscall_reply_def elim!: bind_SomeE dest: syscall_reply_v_frame)

lemma upd_proc_SomeD:
  assumes "upd_proc pid f s = Some s'"
  obtains p where "0 \<le> pid" and "nat pid < length (sosProcs s)" and "sosProcs s ! nat pid = PProc p"
    and "s' = s\<lparr>sosProcs := (sosProcs s)[nat pid := PProc (f p)]\<rparr>"
  using assms
  by (auto simp: upd_proc_def process_lookup_def set_slot_def split: if_splits elim!: bind_SomeE deref.elims
      dest!: arr_get_SomeD arr_set_SomeD)

lemma get_vfile_SomeD:
  assumes "get_vfile pid file ipc s = Some (r, s')"
  shows "l4_only s s'" and "r = Some i \<Longrightarrow> s' = s \<and> (\<exists>p. 0 \<le> pid \<and> nat pid < length (sosProcs s) \<and>
      sosProcs s ! nat pid = PProc p \<and> 0 \<le> file \<and> file < 19 \<and> nat file < length (fds p) \<and>
      fds p ! nat file = int i \<and> i < 16 \<and> i < length (files p) \<and> vf_vnode (files p ! i) \<noteq> 0)"
  using assms
  by (auto simp: get_vfile_def process_lookup_def syscall_reply_def Let_def nat_less_iff split: if_splits
      elim!: bind_SomeE deref.elims dest!: arr_get_SomeD syscall_reply_v_frame)

section \<open>Counting the users of a vnode\<close>

definition file_use :: "u8 \<Rightarrow> u32 \<Rightarrow> VFile \<Rightarrow> nat" where
  "file_use m a vf = (if vf_vnode vf = a \<and> vf_fmode vf AND m \<noteq> 0 then 1 else 0)"

definition slot_uses :: "u8 \<Rightarrow> u32 \<Rightarrow> procslot \<Rightarrow> nat" where
  "slot_uses m a sl = (case sl of PProc p \<Rightarrow> sum_list (map (file_use m a) (files p)) | _ \<Rightarrow> 0)"

definition refs :: "u8 \<Rightarrow> u32 \<Rightarrow> procslot list \<Rightarrow> nat" where
  "refs m a procs = sum_list (map (slot_uses m a) procs)"

lemma refs_update:
  assumes "k < length procs" and "procs ! k = PProc p"
  shows "refs m a (procs[k := PProc q]) =
    refs m a procs + slot_uses m a (PProc q) - slot_uses m a (PProc p)"
  using assms by (simp add: refs_def map_update sum_list_update)

lemma slot_uses_le_refs: "k < length procs \<Longrightarrow> slot_uses m a (procs ! k) \<le> refs m a procs"
  unfolding refs_def by (rule member_le_sum_list) simp_all

lemma slot_uses_update:
  assumes "i < length (files p)" and "files q = (files p)[i := vf]"
  shows "slot_uses m a (PProc q) = slot_uses m a (PProc p) + file_use m a vf - file_use m a (files p ! i)"
  using assms by (simp add: slot_uses_def map_update sum_list_update)

lemma file_use_le_slot: "i < length (files p) \<Longrightarrow> file_use m a (files p ! i) \<le> slot_uses m a (PProc p)"
  unfolding slot_uses_def procslot.case by (rule member_le_sum_list) simp_all

text \<open>Changing one file of one process.\<close>

lemma refs_file_update:
  assumes "k < length procs" and "procs ! k = PProc p" and "i < length (files p)" and "files q = (files p)[i := vf]"
  shows "refs m a (procs[k := PProc q]) + file_use m a (files p ! i) = refs m a procs + file_use m a vf"
  using refs_update [OF assms(1,2), of m a q] slot_uses_update [OF assms(3,4), of m a]
    file_use_le_slot [OF assms(3), of m a] slot_uses_le_refs [OF assms(1), of m a] assms(2) by simp

lemma refs_same_files:
  assumes "k < length procs" and "procs ! k = PProc p" and "files q = files p"
  shows "refs m a (procs[k := PProc q]) = refs m a procs"
  using assms by (simp add: refs_update slot_uses_def)

text \<open>There are at most 4096 open files, so the counters never wrap around.\<close>

lemma sum_list_bound: "(\<And>x. x \<in> set xs \<Longrightarrow> f x \<le> b) \<Longrightarrow> sum_list (map f xs) \<le> length xs * (b :: nat)"
  by (induction xs) (auto intro: add_mono)

lemma refs_bound:
  assumes "length procs = 256" and "\<And>p. PProc p \<in> set procs \<Longrightarrow> length (files p) = 16"
  shows "refs m a procs \<le> 4096"
proof -
  have "slot_uses m a sl \<le> 16" if "sl \<in> set procs" for sl
  proof (cases sl)
    case (PProc p)
    then have "slot_uses m a sl \<le> length (files p) * 1"
      unfolding slot_uses_def PProc procslot.case by (intro sum_list_bound) (simp add: file_use_def)
    with that assms(2) PProc show ?thesis by simp
  qed (simp_all add: slot_uses_def)
  then have "refs m a procs \<le> length procs * 16"
    unfolding refs_def by (rule sum_list_bound)
  with assms(1) show ?thesis by simp
qed

section \<open>The invariant\<close>

text \<open>The tables of one process.\<close>

definition fds_ok :: "Process \<Rightarrow> bool" where
  "fds_ok p \<longleftrightarrow> length (fds p) = PROCESS_MAX_FDS \<and> length (files p) = PROCESS_MAX_FILES \<and>
     (\<forall>f\<in>set (fds p). f = VFS_NIL_FILE \<or> 0 \<le> f \<and> f < 16 \<and> vf_vnode (files p ! nat f) \<noteq> 0) \<and>
     (\<forall>i<16. vf_vnode (files p ! i) \<noteq> 0 \<longrightarrow>
        unat (vf_ref (files p ! i)) = count_list (fds p) (int i) \<and> 0 < count_list (fds p) (int i) \<and>
        (vf_fmode (files p ! i) AND FM_READ \<noteq> 0 \<or> vf_fmode (files p ! i) AND FM_WRITE \<noteq> 0))"

definition vinv :: "procslot list \<Rightarrow> (u32 \<rightharpoonup> VNode) \<Rightarrow> u32 \<Rightarrow> bool" where
  "vinv procs h g \<longleftrightarrow> length procs = 256 \<and>
     (\<forall>k<256. \<forall>p. procs ! k = PProc p \<longrightarrow> ps_pid (info p) = int k \<and> fds_ok p \<and>
        (\<forall>i<16. vf_vnode (files p ! i) \<noteq> 0 \<longrightarrow> vf_vnode (files p ! i) \<in> dom h)) \<and>
     (\<exists>as. vlist h g as \<and> set as = dom h) \<and>
     (\<forall>a v. h a = Some v \<longrightarrow> unat (readers v) = refs FM_READ a procs \<and> unat (writers v) = refs FM_WRITE a procs)"

definition vfs_inv :: "'z vfs_st_scheme \<Rightarrow> bool" where
  "vfs_inv s \<longleftrightarrow> vinv (sosProcs s) (vnodes s) (GlobalVNodes s)"

lemma l4_only_vfs_inv: "l4_only s s' \<Longrightarrow> vfs_inv s' = vfs_inv s"
  by (elim l4_onlyE) (simp add: vfs_inv_def)

section \<open>Changes that keep it\<close>

definition same_links :: "(u32 \<rightharpoonup> VNode) \<Rightarrow> (u32 \<rightharpoonup> VNode) \<Rightarrow> bool" where
  "same_links h h' \<longleftrightarrow> dom h' = dom h \<and>
     (\<forall>a v v'. h a = Some v \<longrightarrow> h' a = Some v' \<longrightarrow> vnext v' = vnext v \<and> previous v' = previous v)"

lemma same_links_refl [simp]: "same_links h h"
  by (simp add: same_links_def)

lemma same_links_upd: "h a = Some v \<Longrightarrow> vnext w = vnext v \<Longrightarrow> previous w = previous v \<Longrightarrow> same_links h (h(a \<mapsto> w))"
  by (auto simp: same_links_def)

lemma vlist_same_links: "vlist h g as \<Longrightarrow> same_links h h' \<Longrightarrow> vlist h' g as"
proof (rule vlist_cong [of h g as])
  assume l: "vlist h g as" and e: "same_links h h'"
  fix a assume "a \<in> set as"
  with l e obtain v v' where "h a = Some v" "h' a = Some v'"
    using vlist_get [OF l] by (force simp: same_links_def)
  with e show "vnx h' a = vnx h a \<and> previous (the (h' a)) = previous (the (h a))"
    by (simp add: same_links_def vnx_def)
qed (auto simp: same_links_def)

text \<open>One process changes, and vnodes change but not their links.\<close>

lemma vinv_change:
  assumes inv: "vinv procs h g" and k: "k < 256" and p: "procs ! k = PProc p"
    and "ps_pid (info q) = ps_pid (info p)" and "fds_ok q"
    and "\<And>i. i < 16 \<Longrightarrow> vf_vnode (files q ! i) \<noteq> 0 \<Longrightarrow> vf_vnode (files q ! i) \<in> dom h"
    and links: "same_links h h'"
    and "\<And>a v'. h' a = Some v' \<Longrightarrow> unat (readers v') = refs FM_READ a (procs[k := PProc q]) \<and>
      unat (writers v') = refs FM_WRITE a (procs[k := PProc q])"
  shows "vinv (procs[k := PProc q]) h' g"
proof -
  have "dom h' = dom h"
    using links by (simp add: same_links_def)
  moreover obtain as where "vlist h g as" "set as = dom h"
    using inv by (auto simp: vinv_def)
  ultimately have "\<exists>as. vlist h' g as \<and> set as = dom h'"
    using vlist_same_links [OF _ links] by (intro exI [of _ as]) simp
  then show ?thesis
    using assms \<open>dom h' = dom h\<close> unfolding vinv_def by (auto simp: nth_list_update)
qed

lemma vinv_proc:
  assumes "vinv procs h g" and "k < 256" and "procs ! k = PProc p" and "files q = files p" and "fds q = fds p"
    and "ps_pid (info q) = ps_pid (info p)"
  shows "vinv (procs[k := PProc q]) h g"
  by (rule vinv_change [OF assms(1-3,6)])
     (use assms refs_same_files [of k procs p q] in \<open>auto simp: vinv_def fds_ok_def\<close>)

lemma vinv_fds_ok: "vinv procs h g \<Longrightarrow> k < 256 \<Longrightarrow> procs ! k = PProc p \<Longrightarrow> fds_ok p"
  by (simp add: vinv_def)

lemma vinv_used: "vinv procs h g \<Longrightarrow> k < 256 \<Longrightarrow> procs ! k = PProc p \<Longrightarrow> i < 16 \<Longrightarrow>
    vf_vnode (files p ! i) \<noteq> 0 \<Longrightarrow> \<exists>v. h (vf_vnode (files p ! i)) = Some v"
  by (auto simp: vinv_def)

lemma vinv_counts: "vinv procs h g \<Longrightarrow> h a = Some v \<Longrightarrow>
    unat (readers v) = refs FM_READ a procs \<and> unat (writers v) = refs FM_WRITE a procs"
  by (simp add: vinv_def)

lemma vinv_length: "vinv procs h g \<Longrightarrow> length procs = 256"
  by (simp add: vinv_def)

lemma vinv_nonzero: "vinv procs h g \<Longrightarrow> h a = Some v \<Longrightarrow> a \<noteq> 0"
  using vlist_nonzero by (fastforce simp: vinv_def)

lemma vinv_refs_bound: "vinv procs h g \<Longrightarrow> refs m a procs \<le> 4096"
  by (rule refs_bound) (auto simp: vinv_def fds_ok_def in_set_conv_nth)

text \<open>A file changes, but not what it refers to: its position.\<close>

lemma vinv_file:
  assumes inv: "vinv procs h g" and k: "k < 256" "procs ! k = PProc p" and i: "i < 16"
    and vf: "vf_vnode vf = vf_vnode (files p ! i)" "vf_fmode vf = vf_fmode (files p ! i)" "vf_ref vf = vf_ref (files p ! i)"
  shows "vinv (procs[k := PProc (p\<lparr>files := (files p)[i := vf]\<rparr>)]) h g"
proof -
  let ?q = "p\<lparr>files := (files p)[i := vf]\<rparr>"
  have p: "fds_ok p" "length (files p) = 16"
    using vinv_fds_ok [OF inv k] by (auto simp: fds_ok_def)
  have same: "vf_vnode (files ?q ! j) = vf_vnode (files p ! j)" "vf_fmode (files ?q ! j) = vf_fmode (files p ! j)"
      "vf_ref (files ?q ! j) = vf_ref (files p ! j)" for j
    using vf i p(2) by (cases "j = i"; simp)+
  have "refs m a (procs[k := PProc ?q]) = refs m a procs" for m a
    using refs_file_update [of k procs p i ?q vf m a] k i p(2) vinv_length [OF inv] vf(1,2) by (simp add: file_use_def)
  moreover have "fds_ok ?q"
    using p(1) same unfolding fds_ok_def by simp
  ultimately show ?thesis
    using vinv_counts [OF inv] vinv_used [OF inv k] same
    by (intro vinv_change [OF inv k]) auto
qed

text \<open>A vnode changes, but neither its links nor its counts.\<close>

lemma vinv_vnode:
  assumes "vinv procs h g" and "h a = Some v" and "vnext w = vnext v" and "previous w = previous v"
    and "readers w = readers v" and "writers w = writers v"
  shows "vinv procs (h(a \<mapsto> w)) g"
proof -
  obtain as where "vlist h g as" "set as = dom h"
    using assms(1) by (auto simp: vinv_def)
  then have "\<exists>as. vlist (h(a \<mapsto> w)) g as \<and> set as = dom (h(a \<mapsto> w))"
    using vlist_same_links [OF _ same_links_upd [of h a v w]] assms(2-4) by (intro exI [of _ as]) auto
  then show ?thesis
    using assms unfolding vinv_def by auto
qed

text \<open>A descriptor is set to a file or cleared, and that file changes with it.\<close>

lemma count_list_update:
  "j < length xs \<Longrightarrow> count_list (xs[j := y]) x + (if xs ! j = x then 1 else 0) = count_list xs x + (if y = x then 1 else 0)"
proof (induction xs arbitrary: j)
  case (Cons z zs)
  show ?case
  proof (cases j)
    case (Suc n)
    then show ?thesis
      using Cons.IH [of n] Cons.prems by auto
  qed simp
qed simp

lemma fds_ok_change:
  assumes p: "fds_ok p" and f: "f < 19" and i: "i < 16"
    and "fds p ! f \<in> {VFS_NIL_FILE, int i}"
    and "x = VFS_NIL_FILE \<or> x = int i \<and> vf_vnode vf \<noteq> 0"
    and used: "vf_vnode vf \<noteq> 0 \<Longrightarrow> unat (vf_ref vf) = count_list ((fds p)[f := x]) (int i) \<and>
      0 < unat (vf_ref vf) \<and> (vf_fmode vf AND FM_READ \<noteq> 0 \<or> vf_fmode vf AND FM_WRITE \<noteq> 0)"
    and unused: "vf_vnode vf = 0 \<Longrightarrow> count_list ((fds p)[f := x]) (int i) = 0"
  shows "fds_ok (p\<lparr>fds := (fds p)[f := x], files := (files p)[i := vf]\<rparr>)"
proof -
  have len: "length (fds p) = 19" "length (files p) = 16"
    using p by (simp_all add: fds_ok_def)
  let ?fds = "(fds p)[f := x]" and ?files = "(files p)[i := vf]"
  have cnt: "count_list ?fds (int i') = count_list (fds p) (int i')" if "i' \<noteq> i" for i'
    using count_list_update [of f "fds p" x "int i'"] len f assms(4,5) that by auto
  have fd: "y = VFS_NIL_FILE \<or> 0 \<le> y \<and> y < 16 \<and> vf_vnode (?files ! nat y) \<noteq> 0" if y: "y \<in> set ?fds" for y
  proof (cases "y = int i")
    case True
    have "vf_vnode vf \<noteq> 0"
      using unused y True by (auto simp: count_list_0_iff)
    then show ?thesis
      using True i len by simp
  next
    case False
    with y assms(5) have "y = VFS_NIL_FILE \<or> y \<in> set (fds p)"
      using set_update_subset_insert [of "fds p" f x] by auto
    then have "y = VFS_NIL_FILE \<or> 0 \<le> y \<and> y < 16 \<and> vf_vnode (files p ! nat y) \<noteq> 0"
      using p by (auto simp: fds_ok_def)
    then show ?thesis
      using False by (auto simp: nth_list_update nat_eq_iff)
  qed
  have "unat (vf_ref (?files ! i')) = count_list ?fds (int i') \<and> 0 < count_list ?fds (int i') \<and>
      (vf_fmode (?files ! i') AND FM_READ \<noteq> 0 \<or> vf_fmode (?files ! i') AND FM_WRITE \<noteq> 0)"
    if i': "i' < 16" "vf_vnode (?files ! i') \<noteq> 0" for i'
  proof (cases "i' = i")
    case True
    then show ?thesis
      using used i' len by simp
  next
    case False
    then show ?thesis
      using p i' cnt [OF False] by (simp add: fds_ok_def)
  qed
  then show ?thesis
    using len fd by (simp add: fds_ok_def)
qed

text \<open>No descriptor refers to a file that is not open.\<close>

lemma fds_ok_unused: "fds_ok p \<Longrightarrow> i < 16 \<Longrightarrow> vf_vnode (files p ! i) = 0 \<Longrightarrow> count_list (fds p) (int i) = 0"
  by (auto simp: fds_ok_def count_list_0_iff)

lemma fds_ok_used:
  "fds_ok p \<Longrightarrow> i < 16 \<Longrightarrow> vf_vnode (files p ! i) \<noteq> 0 \<Longrightarrow>
   unat (vf_ref (files p ! i)) = count_list (fds p) (int i) \<and>
   (vf_fmode (files p ! i) AND FM_READ \<noteq> 0 \<or> vf_fmode (files p ! i) AND FM_WRITE \<noteq> 0)"
  by (simp add: fds_ok_def)

lemma increase_refs_OK:
  "increase_refs v mode = (r, w) \<Longrightarrow> r = SOS_VFS_OK \<Longrightarrow>
   w = v\<lparr>readers := readers v + (if mode AND FM_READ \<noteq> 0 then 1 else 0),
         writers := writers v + (if mode AND FM_WRITE \<noteq> 0 then 1 else 0)\<rparr>"
  by (auto simp: increase_refs_def Let_def split: if_splits)

lemma increase_refs_fail: "increase_refs v mode = (r, w) \<Longrightarrow> r \<noteq> SOS_VFS_OK \<Longrightarrow> w = v"
  by (auto simp: increase_refs_def Let_def split: if_splits)

lemma unat_inc: "unat (w :: u32) < 2 ^ 32 - 1 \<Longrightarrow> unat (w + 1) = unat w + 1"
  by (simp add: unat_word_ariths)

lemma unat_dec: "0 < unat (w :: u32) \<Longrightarrow> unat (w - 1) = unat w - 1"
  by (metis One_nat_def unat_minus_one unat_gt_0)

text \<open>The tables and the vnode after an open, a close and a duplication.\<close>

definition open_file :: "u32 \<Rightarrow> u8 \<Rightarrow> nat \<Rightarrow> nat \<Rightarrow> Process \<Rightarrow> Process" where
  "open_file a mode j i p = p\<lparr>fds := (fds p)[j := int i],
     files := (files p)[i := (files p ! i)\<lparr>vf_vnode := a, vf_fmode := mode, vf_fp := 0, vf_ref := 1\<rparr>]\<rparr>"

definition drop_file :: "nat \<Rightarrow> nat \<Rightarrow> Process \<Rightarrow> Process" where
  "drop_file j i p = p\<lparr>fds := (fds p)[j := VFS_NIL_FILE],
     files := (files p)[i := (files p ! i)\<lparr>vf_ref := vf_ref (files p ! i) - 1\<rparr>]\<rparr>"

definition close_file :: "nat \<Rightarrow> nat \<Rightarrow> Process \<Rightarrow> Process" where
  "close_file j i p = p\<lparr>fds := (fds p)[j := VFS_NIL_FILE],
     files := (files p)[i := \<lparr>vf_vnode = 0, vf_fmode = 0, vf_fp = 0, vf_ref = 0\<rparr>]\<rparr>"

definition dup_file :: "nat \<Rightarrow> nat \<Rightarrow> Process \<Rightarrow> Process" where
  "dup_file j i p = p\<lparr>fds := (fds p)[j := int i],
     files := (files p)[i := (files p ! i)\<lparr>vf_ref := vf_ref (files p ! i) + 1\<rparr>]\<rparr>"

lemma vinv_open:
  assumes inv: "vinv procs h g" and k: "k < 256" "procs ! k = PProc p" and v: "h a = Some v"
    and j: "j < 19" "fds p ! j = VFS_NIL_FILE" and i: "i < 16" "vf_vnode (files p ! i) = 0"
    and w: "increase_refs v mode = (SOS_VFS_OK, w)" and m: "mode AND FM_READ \<noteq> 0 \<or> mode AND FM_WRITE \<noteq> 0"
  shows "vinv (procs[k := PProc (open_file a mode j i p)]) (h(a \<mapsto> w)) g"
proof (rule vinv_change [OF inv k])
  let ?vf = "(files p ! i)\<lparr>vf_vnode := a, vf_fmode := mode, vf_fp := 0, vf_ref := 1\<rparr>"
  have ok: "fds_ok p" and len: "length (fds p) = 19" "length (files p) = 16"
    using vinv_fds_ok [OF inv k] by (auto simp: fds_ok_def)
  have a: "a \<noteq> 0"
    using vinv_nonzero [OF inv v] .
  have wd: "w = v\<lparr>readers := readers v + (if mode AND FM_READ \<noteq> 0 then 1 else 0),
         writers := writers v + (if mode AND FM_WRITE \<noteq> 0 then 1 else 0)\<rparr>"
    using increase_refs_OK [OF w] by simp
  have "count_list ((fds p)[j := int i]) (int i) = 1"
    using count_list_update [of j "fds p" "int i" "int i"] fds_ok_unused [OF ok i] j len by simp
  then show "fds_ok (open_file a mode j i p)"
    unfolding open_file_def by (intro fds_ok_change [OF ok]) (use j i a m in auto)
  show "same_links h (h(a \<mapsto> w))"
    using v wd by (intro same_links_upd) auto
  show "vf_vnode (files (open_file a mode j i p) ! i') \<in> dom h"
    if "i' < 16" "vf_vnode (files (open_file a mode j i p) ! i') \<noteq> 0" for i'
    using that vinv_used [OF inv k, of i'] v len by (cases "i' = i") (auto simp: open_file_def)
  fix b v'
  assume b: "(h(a \<mapsto> w)) b = Some v'"
  then have bn: "b \<noteq> 0"
    using a vinv_nonzero [OF inv] by (auto split: if_splits)
  have "refs m b (procs[k := PProc (open_file a mode j i p)]) = refs m b procs + file_use m b ?vf" for m
    using refs_file_update [of k procs p i "open_file a mode j i p" ?vf m b] k i len vinv_length [OF inv] bn
    by (simp add: open_file_def file_use_def)
  moreover have "unat (readers v) < 2 ^ 32 - 1" "unat (writers v) < 2 ^ 32 - 1"
    using vinv_counts [OF inv v] vinv_refs_bound [OF inv, of FM_READ a] vinv_refs_bound [OF inv, of FM_WRITE a] by auto
  ultimately show "unat (readers v') = refs FM_READ b (procs[k := PProc (open_file a mode j i p)]) \<and>
      unat (writers v') = refs FM_WRITE b (procs[k := PProc (open_file a mode j i p)])"
    using b vinv_counts [OF inv] v unat_inc [of "readers v"] unat_inc [of "writers v"]
    by (auto simp: wd file_use_def split: if_splits)
qed (simp add: open_file_def)

lemma vinv_dup:
  assumes inv: "vinv procs h g" and k: "k < 256" "procs ! k = PProc p"
    and j: "j < 19" "fds p ! j = VFS_NIL_FILE" and i: "i < 16" "vf_vnode (files p ! i) \<noteq> 0"
  shows "vinv (procs[k := PProc (dup_file j i p)]) h g"
proof (rule vinv_change [OF inv k])
  let ?vf = "(files p ! i)\<lparr>vf_ref := vf_ref (files p ! i) + 1\<rparr>"
  have ok: "fds_ok p" and len: "length (fds p) = 19" "length (files p) = 16"
    using vinv_fds_ok [OF inv k] by (auto simp: fds_ok_def)
  have "count_list ((fds p)[j := int i]) (int i) = count_list (fds p) (int i) + 1"
    using count_list_update [of j "fds p" "int i" "int i"] j len by simp
  moreover have "unat (vf_ref (files p ! i) + 1) = unat (vf_ref (files p ! i)) + 1"
    using fds_ok_used [OF ok i] count_le_length [of "fds p" "int i"] len by (intro unat_inc) simp
  ultimately show "fds_ok (dup_file j i p)"
    unfolding dup_file_def by (intro fds_ok_change [OF ok]) (use j i fds_ok_used [OF ok i] in auto)
  show "vf_vnode (files (dup_file j i p) ! i') \<in> dom h"
    if "i' < 16" "vf_vnode (files (dup_file j i p) ! i') \<noteq> 0" for i'
    using that vinv_used [OF inv k, of i'] len by (cases "i' = i") (auto simp: dup_file_def)
  have "refs m b (procs[k := PProc (dup_file j i p)]) = refs m b procs" for m b
    using refs_file_update [of k procs p i "dup_file j i p" ?vf m b] k i len vinv_length [OF inv]
    by (simp add: dup_file_def file_use_def)
  then show "unat (readers v') = refs FM_READ b (procs[k := PProc (dup_file j i p)]) \<and>
      unat (writers v') = refs FM_WRITE b (procs[k := PProc (dup_file j i p)])" if "h b = Some v'" for b v'
    using vinv_counts [OF inv that] by simp
qed (simp_all add: dup_file_def)

lemma vinv_drop:
  assumes inv: "vinv procs h g" and k: "k < 256" "procs ! k = PProc p"
    and j: "j < 19" "fds p ! j = int i" and i: "i < 16" "vf_vnode (files p ! i) \<noteq> 0"
    and ref: "vf_ref (files p ! i) - 1 \<noteq> 0"
  shows "vinv (procs[k := PProc (drop_file j i p)]) h g"
proof (rule vinv_change [OF inv k])
  let ?vf = "(files p ! i)\<lparr>vf_ref := vf_ref (files p ! i) - 1\<rparr>"
  have ok: "fds_ok p" and len: "length (fds p) = 19" "length (files p) = 16"
    using vinv_fds_ok [OF inv k] by (auto simp: fds_ok_def)
  have "count_list ((fds p)[j := VFS_NIL_FILE]) (int i) + 1 = count_list (fds p) (int i)"
    using count_list_update [of j "fds p" VFS_NIL_FILE "int i"] j len by simp
  moreover have "unat (vf_ref (files p ! i) - 1) = unat (vf_ref (files p ! i)) - 1"
    using fds_ok_used [OF ok i] calculation by (intro unat_dec) simp
  moreover have "0 < unat (vf_ref (files p ! i) - 1)"
    using ref by (rule iffD2 [OF unat_gt_0])
  ultimately show "fds_ok (drop_file j i p)"
    unfolding drop_file_def by (intro fds_ok_change [OF ok]) (use j i fds_ok_used [OF ok i] in auto)
  show "vf_vnode (files (drop_file j i p) ! i') \<in> dom h"
    if "i' < 16" "vf_vnode (files (drop_file j i p) ! i') \<noteq> 0" for i'
    using that vinv_used [OF inv k, of i'] len by (cases "i' = i") (auto simp: drop_file_def)
  have "refs m b (procs[k := PProc (drop_file j i p)]) = refs m b procs" for m b
    using refs_file_update [of k procs p i "drop_file j i p" ?vf m b] k i len vinv_length [OF inv]
    by (simp add: drop_file_def file_use_def)
  then show "unat (readers v') = refs FM_READ b (procs[k := PProc (drop_file j i p)]) \<and>
      unat (writers v') = refs FM_WRITE b (procs[k := PProc (drop_file j i p)])" if "h b = Some v'" for b v'
    using vinv_counts [OF inv that] by simp
qed (simp_all add: drop_file_def)

lemma decrease_refs_eq:
  "snd (decrease_refs v mode) = v\<lparr>readers := readers v - (if mode AND FM_READ \<noteq> 0 then 1 else 0),
     writers := writers v - (if mode AND FM_WRITE \<noteq> 0 then 1 else 0)\<rparr>"
  by (simp add: decrease_refs_def Let_def)

lemma vinv_close:
  assumes inv: "vinv procs h g" and k: "k < 256" "procs ! k = PProc p"
    and j: "j < 19" "fds p ! j = int i" and i: "i < 16" "vf_vnode (files p ! i) \<noteq> 0"
    and ref: "vf_ref (files p ! i) - 1 = 0" and v: "h (vf_vnode (files p ! i)) = Some v"
  shows "vinv (procs[k := PProc (close_file j i p)])
    (h(vf_vnode (files p ! i) \<mapsto> snd (decrease_refs v (vf_fmode (files p ! i))))) g"
proof (rule vinv_change [OF inv k])
  let ?vf = "\<lparr>vf_vnode = 0, vf_fmode = 0, vf_fp = 0, vf_ref = 0\<rparr>"
  let ?a = "vf_vnode (files p ! i)" and ?m = "vf_fmode (files p ! i)"
  let ?w = "snd (decrease_refs v ?m)"
  have ok: "fds_ok p" and len: "length (fds p) = 19" "length (files p) = 16"
    using vinv_fds_ok [OF inv k] by (auto simp: fds_ok_def)
  have "vf_ref (files p ! i) = 1"
    using ref by simp
  then have "count_list (fds p) (int i) = 1"
    using fds_ok_used [OF ok i] by simp
  then have "count_list ((fds p)[j := VFS_NIL_FILE]) (int i) = 0"
    using count_list_update [of j "fds p" VFS_NIL_FILE "int i"] j len by simp
  then show "fds_ok (close_file j i p)"
    unfolding close_file_def by (intro fds_ok_change [OF ok]) (use j i in auto)
  show "same_links h (h(?a \<mapsto> ?w))"
    using v by (intro same_links_upd) (auto simp: decrease_refs_eq)
  show "vf_vnode (files (close_file j i p) ! i') \<in> dom h"
    if "i' < 16" "vf_vnode (files (close_file j i p) ! i') \<noteq> 0" for i'
    using that vinv_used [OF inv k, of i'] len by (cases "i' = i") (auto simp: close_file_def)
  fix b v'
  assume b: "(h(?a \<mapsto> ?w)) b = Some v'"
  then have bn: "b \<noteq> 0"
    using i(2) vinv_nonzero [OF inv] by (auto split: if_splits)
  have r: "refs m b (procs[k := PProc (close_file j i p)]) + file_use m b (files p ! i) = refs m b procs" for m
    using refs_file_update [of k procs p i "close_file j i p" ?vf m b] k i len vinv_length [OF inv] bn
    by (simp add: close_file_def file_use_def)
  show "unat (readers v') = refs FM_READ b (procs[k := PProc (close_file j i p)]) \<and>
      unat (writers v') = refs FM_WRITE b (procs[k := PProc (close_file j i p)])"
  proof (cases "b = ?a")
    case True
    then show ?thesis
      using b vinv_counts [OF inv v] r [of FM_READ] r [of FM_WRITE] unat_dec [of "readers v"] unat_dec [of "writers v"]
      by (auto simp: decrease_refs_eq file_use_def split: if_splits)
  next
    case False
    then show ?thesis
      using b vinv_counts [OF inv, of b v'] r [of FM_READ] r [of FM_WRITE] by (simp add: file_use_def)
  qed
qed (simp add: close_file_def)

text \<open>A vnode that nobody uses is removed from the list and freed.\<close>

lemma refs_zero_unused:
  assumes "refs m a procs = 0" and "k < length procs" and "procs ! k = PProc p" and "i < length (files p)"
  shows "file_use m a (files p ! i) = 0"
  using slot_uses_le_refs [OF assms(2), of m a] file_use_le_slot [OF assms(4), of m a] assms(1,3) by simp

lemma vinv_free:
  assumes inv: "vfs_inv s" and v: "vnodes s a = Some v" "readers v = 0" "writers v = 0"
    and rm: "remove_vnode a s = Some s1" and fr: "free_vnode a s1 = Some s2"
  shows "vfs_inv s2"
proof -
  obtain as where as: "vlist (vnodes s) (GlobalVNodes s) as" "set as = dom (vnodes s)"
    using inv by (auto simp: vfs_inv_def vinv_def)
  have a: "a \<in> set as"
    using as v by auto
  have an: "a \<noteq> 0"
    using vinv_nonzero inv v by (auto simp: vfs_inv_def)
  obtain h' g' where r: "s1 = s\<lparr>vnodes := h', GlobalVNodes := g'\<rparr>" "vlist h' g' (remove1 a as)"
      "same_payload (vnodes s) h'"
    using remove_vnode_spec [OF as(1) a] rm by (elim exE conjE) (rule that; simp)
  have s2: "s2 = s\<lparr>vnodes := h'(a := None), GlobalVNodes := g'\<rparr>"
    using fr an by (auto simp: free_vnode_def r(1) split: if_splits elim!: bind_SomeE)
  let ?h = "h'(a := None)"
  have d: "distinct as"
    using as(1) by (rule vlist_distinct)
  have dm: "dom ?h = dom (vnodes s) - {a}"
    using same_payload_dom [OF r(3)] by auto
  have "vlist ?h g' (remove1 a as)"
  proof -
    have "vnx ?h b = vnx h' b" "previous (the (?h b)) = previous (the (h' b))" if "b \<in> set (remove1 a as)" for b
      using that d by (auto simp: vnx_def)
    then show ?thesis
      using r(2) chain_cong [of "remove1 a as" "vnx ?h" "vnx h'" g' 0] prev_ok_cong [of "remove1 a as" ?h h' 0] as d dm
      by (auto simp: vlist_def)
  qed
  moreover have "set (remove1 a as) = dom ?h"
    using as d dm by auto
  moreover have "vf_vnode (files p ! i) \<in> dom ?h"
    if "k < 256" "sosProcs s ! k = PProc p" "i < 16" "vf_vnode (files p ! i) \<noteq> 0" for k p i
  proof -
    have ok: "fds_ok p" "length (sosProcs s) = 256"
      using inv that by (auto simp: vfs_inv_def vinv_def)
    have "refs FM_READ a (sosProcs s) = 0" "refs FM_WRITE a (sosProcs s) = 0"
      using inv v vinv_counts [of "sosProcs s" "vnodes s" "GlobalVNodes s" a v] by (auto simp: vfs_inv_def)
    then have "vf_vnode (files p ! i) \<noteq> a"
      using refs_zero_unused [of FM_READ a "sosProcs s" k p i] refs_zero_unused [of FM_WRITE a "sosProcs s" k p i]
        ok that fds_ok_used [OF ok(1) that(3,4)] by (auto simp: file_use_def fds_ok_def split: if_splits)
    then show ?thesis
      using vinv_used [of "sosProcs s" "vnodes s" "GlobalVNodes s" k p i] inv that dm by (auto simp: vfs_inv_def)
  qed
  moreover have "unat (readers w) = refs FM_READ b (sosProcs s) \<and> unat (writers w) = refs FM_WRITE b (sosProcs s)"
    if w: "?h b = Some w" for b w
  proof -
    obtain u where "vnodes s b = Some u" "payload w = payload u"
      using same_payload_get [OF r(3), of b w] w by (auto split: if_splits)
    then show ?thesis
      using vinv_counts [of "sosProcs s" "vnodes s" "GlobalVNodes s" b u] inv payload_fields(5,6) [of w u]
      by (simp add: vfs_inv_def)
  qed
  ultimately show ?thesis
    using inv unfolding vfs_inv_def vinv_def s2 by auto
qed

section \<open>The operations below the file systems keep it\<close>

text \<open>
  \<open>keeps s s'\<close>: the step kept the invariant, and touched nothing of the parts of the state that
  the file systems add (the console and the queue of NFS requests).
\<close>

definition keeps :: "'z vfs_st_scheme \<Rightarrow> 'z vfs_st_scheme \<Rightarrow> bool" where
  "keeps s s' \<longleftrightarrow> (vfs_inv s \<longrightarrow> vfs_inv s' \<and> vfs_st.more s' = vfs_st.more s)"

lemma keepsI: "(vfs_inv s \<Longrightarrow> vfs_inv s') \<Longrightarrow> (vfs_inv s \<Longrightarrow> vfs_st.more s' = vfs_st.more s) \<Longrightarrow> keeps s s'"
  by (simp add: keeps_def)

lemma keeps_refl [simp]: "keeps s s"
  by (simp add: keeps_def)

lemma keeps_trans: "keeps s s' \<Longrightarrow> keeps s' s'' \<Longrightarrow> keeps s s''"
  by (simp add: keeps_def)

lemma more_upd [simp]:
  "vfs_st.more (s\<lparr>l4 := x1\<rparr>) = vfs_st.more s" "vfs_st.more (s\<lparr>sosProcs := x2\<rparr>) = vfs_st.more s"
  "vfs_st.more (s\<lparr>vnodes := x3\<rparr>) = vfs_st.more s" "vfs_st.more (s\<lparr>GlobalVNodes := x4\<rparr>) = vfs_st.more s"
  "vfs_st.more (s\<lparr>copyInOutBuffer := x5\<rparr>) = vfs_st.more s" "vfs_st.more (s\<lparr>statBuffer := x6\<rparr>) = vfs_st.more s"
  by (cases s; simp)+

lemma l4_only_keeps: "l4_only s s' \<Longrightarrow> keeps s s'"
  by (rule keepsI) (auto simp: l4_only_vfs_inv elim: l4_onlyE)

lemma reply_pid_keeps: "reply_pid pid st s = Some s' \<Longrightarrow> keeps s s'"
  by (rule l4_only_keeps) (rule reply_pid_frame)

lemma remove_vnode_more: "remove_vnode a s = Some s' \<Longrightarrow> vfs_st.more s' = vfs_st.more s"
  by (auto simp: remove_vnode_def upd_vnode_def Let_def split: if_splits elim!: bind_SomeE)

lemma free_vnode_more: "free_vnode a s = Some s' \<Longrightarrow> vfs_st.more s' = vfs_st.more s"
  by (auto simp: free_vnode_def split: if_splits elim!: bind_SomeE)

lemma free_unused_keeps:
  assumes "vnodes s a = Some v" and "readers v = 0" and "writers v = 0"
    and "remove_vnode a s = Some s1" and "free_vnode a s1 = Some s2"
  shows "keeps s s2"
  using vinv_free [OF _ assms] remove_vnode_more [OF assms(4)] free_vnode_more [OF assms(5)]
  by (intro keepsI) auto

lemma vfs_open_err_keeps: "vfs_open_err a s = Some s' \<Longrightarrow> keeps s s'"
  by (auto simp: vfs_open_err_def split: if_splits elim!: bind_SomeE intro: free_unused_keeps)

text \<open>The search for free entries.\<close>

lemma first_index_found:
  "first_index P xs \<noteq> VFS_NIL_FILE \<Longrightarrow> \<exists>i. first_index P xs = int i \<and> i < length xs \<and> P (xs ! i)"
  by (auto simp: first_index_def find_Some_iff split: option.splits)

lemma findNextFd_found:
  assumes "findNextFd p = (True, fd1, fd2)"
  shows "\<exists>j i. fd1 = int j \<and> j < length (fds p) \<and> fds p ! j = VFS_NIL_FILE \<and>
    fd2 = int i \<and> i < length (files p) \<and> vf_vnode (files p ! i) = 0"
  using assms first_index_found [of "\<lambda>f. f = VFS_NIL_FILE" "fds p"] first_index_found [of "\<lambda>vf. vf_vnode vf = 0" "files p"]
  by (auto simp: findNextFd_def Let_def)

text \<open>Changing a file and a descriptor of a process.\<close>

lemma upd_vfile_SomeD:
  assumes "upd_vfile pid i f s = Some s'"
  obtains p where "0 \<le> pid" and "nat pid < length (sosProcs s)" and "sosProcs s ! nat pid = PProc p" and "i < length (files p)"
    and "s' = s\<lparr>sosProcs := (sosProcs s)[nat pid := PProc (p\<lparr>files := (files p)[i := f (files p ! i)]\<rparr>)]\<rparr>"
  using assms
  by (auto simp: upd_vfile_def vfile_at_def process_lookup_def split: if_splits elim!: bind_SomeE deref.elims upd_proc_SomeD
      dest!: arr_get_SomeD)

lemma set_fd_SomeD:
  assumes "set_fd pid file x s = Some s'"
  obtains p where "0 \<le> pid" and "nat pid < length (sosProcs s)" and "sosProcs s ! nat pid = PProc p" and "0 \<le> file"
    and "nat file < length (fds p)"
    and "s' = s\<lparr>sosProcs := (sosProcs s)[nat pid := PProc (p\<lparr>fds := (fds p)[nat file := x]\<rparr>)]\<rparr>"
  using assms
  by (auto simp: set_fd_def process_lookup_def split: if_splits elim!: bind_SomeE deref.elims upd_proc_SomeD
      dest!: arr_get_SomeD arr_set_SomeD)

lemma upd_proc_eq:
  "0 \<le> pid \<Longrightarrow> nat pid < length (sosProcs s) \<Longrightarrow> sosProcs s ! nat pid = PProc p \<Longrightarrow>
   upd_proc pid f s = Some (s\<lparr>sosProcs := (sosProcs s)[nat pid := PProc (f p)]\<rparr>)"
  by (simp add: upd_proc_def process_lookup_def set_slot_def)

lemma upd_vfile_eq:
  "0 \<le> pid \<Longrightarrow> nat pid < length (sosProcs s) \<Longrightarrow> sosProcs s ! nat pid = PProc p \<Longrightarrow> i < length (files p) \<Longrightarrow>
   upd_vfile pid i f s = Some (s\<lparr>sosProcs := (sosProcs s)[nat pid := PProc (p\<lparr>files := (files p)[i := f (files p ! i)]\<rparr>)]\<rparr>)"
  by (simp add: upd_vfile_def vfile_at_def process_lookup_def upd_proc_eq)

lemma set_fd_eq:
  "0 \<le> pid \<Longrightarrow> nat pid < length (sosProcs s) \<Longrightarrow> sosProcs s ! nat pid = PProc p \<Longrightarrow> j < length (fds p) \<Longrightarrow>
   set_fd pid (int j) x s = Some (s\<lparr>sosProcs := (sosProcs s)[nat pid := PProc (p\<lparr>fds := (fds p)[j := x]\<rparr>)]\<rparr>)"
  by (simp add: set_fd_def process_lookup_def upd_proc_eq)

lemma vinv_open_state:
  assumes inv: "vfs_inv s" and k: "0 \<le> pid" "nat pid < length (sosProcs s)" "sosProcs s ! nat pid = PProc p"
    and v: "vnodes s self = Some v" and w: "increase_refs v mode = (SOS_VFS_OK, w)"
    and m: "mode AND FM_READ \<noteq> 0 \<or> mode AND FM_WRITE \<noteq> 0"
    and f: "findNextFd p = (True, fd1, fd2)"
    and u: "upd_vfile pid (nat fd2) (\<lambda>vf. vf\<lparr>vf_vnode := self, vf_fmode := mode, vf_fp := 0, vf_ref := 1\<rparr>)
        (s\<lparr>vnodes := (vnodes s)(self \<mapsto> w)\<rparr>) = Some s1"
    and t: "set_fd pid fd1 fd2 s1 = Some s2"
  shows "vfs_inv s2"
proof -
  have inv': "vinv (sosProcs s) (vnodes s) (GlobalVNodes s)"
    using inv by (simp add: vfs_inv_def)
  have k': "nat pid < 256"
    using vinv_length [OF inv'] k(2) by simp
  have len: "length (fds p) = 19" "length (files p) = 16"
    using vinv_fds_ok [OF inv' k' k(3)] by (simp_all add: fds_ok_def)
  obtain j i where ji: "fd1 = int j" "j < 19" "fds p ! j = VFS_NIL_FILE" "fd2 = int i" "i < 16" "vf_vnode (files p ! i) = 0"
    using findNextFd_found [OF f] unfolding len by (elim exE conjE) (rule that)
  let ?s = "s\<lparr>vnodes := (vnodes s)(self \<mapsto> w)\<rparr>"
  let ?p = "p\<lparr>files := (files p)[i := (files p ! i)\<lparr>vf_vnode := self, vf_fmode := mode, vf_fp := 0, vf_ref := 1\<rparr>]\<rparr>"
  have s1: "s1 = ?s\<lparr>sosProcs := (sosProcs s)[nat pid := PProc ?p]\<rparr>"
    using u upd_vfile_eq [of pid ?s p i] k ji len by simp
  have "s2 = ?s\<lparr>sosProcs := (sosProcs s)[nat pid := PProc (?p\<lparr>fds := (fds p)[j := int i]\<rparr>)]\<rparr>"
    using t set_fd_eq [of pid s1 ?p j "int i"] k ji len by (simp add: s1)
  also have "?p\<lparr>fds := (fds p)[j := int i]\<rparr> = open_file self mode j i p"
    by (simp add: open_file_def)
  finally have "s2 = ?s\<lparr>sosProcs := (sosProcs s)[nat pid := PProc (open_file self mode j i p)]\<rparr>" .
  then show ?thesis
    using vinv_open [OF inv' k' k(3) v ji(2,3,5,6) w m] by (simp add: vfs_inv_def)
qed

lemma increase_decrease: "increase_refs v mode = (SOS_VFS_OK, w) \<Longrightarrow> snd (decrease_refs w mode) = v"
  using increase_refs_OK [of v mode SOS_VFS_OK w] by (simp add: decrease_refs_eq)

lemma vnodes_triv [simp]: "vnodes s a = Some v \<Longrightarrow> s\<lparr>vnodes := (vnodes s)(a \<mapsto> v)\<rparr> = s"
  by (simp add: fun_upd_idem)

lemma err_reply_keeps:
  "vfs_open_err a s = Some s1 \<Longrightarrow> reply_pid pid st s1 = Some s' \<Longrightarrow> keeps s s'"
  by (blast intro: keeps_trans vfs_open_err_keeps reply_pid_keeps)

lemma process_lookup_SomeD:
  "process_lookup pid s = Some sl \<Longrightarrow> 0 \<le> pid \<and> nat pid < length (sosProcs s) \<and> sosProcs s ! nat pid = sl"
  by (auto simp: process_lookup_def split: if_splits dest!: arr_get_SomeD)

lemma deref_SomeD: "deref sl = Some p \<Longrightarrow> sl = PProc p"
  by (cases sl) auto

lemma vfs_open_done_keeps:
  assumes eq: "vfs_open_done pid self mode status s = Some s'"
    and m: "mode AND FM_READ \<noteq> 0 \<or> mode AND FM_WRITE \<noteq> 0"
  shows "keeps s s'"
proof -
  obtain sl where sl: "process_lookup pid s = Some sl"
    using eq by (auto simp: vfs_open_done_def elim!: bind_SomeE)
  consider (gone) "sl = PNull" | (failed) "sl \<noteq> PNull" "status \<noteq> SOS_VFS_OK \<or> self = 0"
    | (opened) "sl \<noteq> PNull" "status = SOS_VFS_OK" "self \<noteq> 0"
    by blast
  then show ?thesis
  proof cases
    case gone
    then show ?thesis
      using eq sl by (simp add: vfs_open_done_def vfs_open_err_keeps)
  next
    case failed
    then show ?thesis
      using eq sl by (auto simp: vfs_open_done_def elim!: bind_SomeE intro: err_reply_keeps)
  next
    case opened
    obtain v r w where v: "vnodes s self = Some v" and rw: "increase_refs v mode = (r, w)"
      using eq sl opened by (auto simp: vfs_open_done_def elim!: bind_SomeE) (metis surj_pair)
    show ?thesis
    proof (cases "r = SOS_VFS_OK")
      case False
      then show ?thesis
        using eq sl opened v rw increase_refs_fail [OF rw]
        by (auto simp: vfs_open_done_def elim!: bind_SomeE intro: err_reply_keeps)
    next
      case True
      obtain p where p: "sl = PProc p"
        using eq sl opened v rw True by (auto simp: vfs_open_done_def Let_def elim!: bind_SomeE dest!: deref_SomeD)
      obtain ok fd1 fd2 where fd: "findNextFd p = (ok, fd1, fd2)"
        by (metis surj_pair)
      show ?thesis
      proof (cases ok)
        case False
        then show ?thesis
          using eq sl opened v rw True p fd increase_decrease [of v mode w]
          by (auto simp: vfs_open_done_def upd_vnode_def Let_def elim!: bind_SomeE intro: err_reply_keeps)
      next
        case ok: True
        let ?s = "s\<lparr>vnodes := (vnodes s)(self \<mapsto> w)\<rparr>"
        obtain s1 s2 where s1: "upd_vfile pid (nat fd2) (\<lambda>vf. vf\<lparr>vf_vnode := self, vf_fmode := mode, vf_fp := 0, vf_ref := 1\<rparr>) ?s = Some s1"
          and s2: "set_fd pid fd1 fd2 s1 = Some s2" and r: "reply_pid pid fd1 s2 = Some s'"
          using eq sl opened v rw True p fd ok by (auto simp: vfs_open_done_def Let_def elim!: bind_SomeE)
        have "vfs_st.more s2 = vfs_st.more s"
          using s1 s2 by (auto elim!: upd_vfile_SomeD set_fd_SomeD)
        then have "keeps s s2"
          using vinv_open_state [OF _ _ _ _ v _ m _ s1 s2] process_lookup_SomeD [OF sl] rw True fd ok p
          by (intro keepsI) auto
        with r show ?thesis
          by (blast intro: keeps_trans reply_pid_keeps)
      qed
    qed
  qed
qed

lemma position_keeps:
  assumes "get_vfile pid file ipc s = Some (Some i, s)"
    and "upd_vfile pid i (\<lambda>vf. vf\<lparr>vf_fp := f vf\<rparr>) s = Some s'"
  shows "keeps s s'"
proof (rule upd_vfile_SomeD [OF assms(2)])
  fix p
  assume p: "0 \<le> pid" "nat pid < length (sosProcs s)" "sosProcs s ! nat pid = PProc p" "i < length (files p)"
    and s': "s' = s\<lparr>sosProcs := (sosProcs s)[nat pid := PProc (p\<lparr>files := (files p)[i := (files p ! i)\<lparr>vf_fp := f (files p ! i)\<rparr>]\<rparr>)]\<rparr>"
  show ?thesis
  proof (rule keepsI)
    assume "vfs_inv s"
    then have inv: "vinv (sosProcs s) (vnodes s) (GlobalVNodes s)"
      by (simp add: vfs_inv_def)
    show "vfs_inv s'"
      using vinv_file [OF inv _ p(3), of i "(files p ! i)\<lparr>vf_fp := f (files p ! i)\<rparr>"] p vinv_length [OF inv]
        get_vfile_SomeD(2) [OF assms(1) refl] s'
      by (auto simp: vfs_inv_def)
  qed (simp add: s')
qed

lemma vfs_read_done_keeps:
  assumes "vfs_read_done pid self file pos buf nbyte status s = Some s'"
  shows "keeps s s'"
proof -
  obtain vf s1 where g: "get_vfile pid file True s = Some (vf, s1)"
    using assms by (auto simp: vfs_read_done_def elim!: bind_SomeE)
  show ?thesis
  proof (cases vf)
    case None
    then show ?thesis
      using assms g l4_only_keeps [OF get_vfile_SomeD(1) [OF g]] by (simp add: vfs_read_done_def)
  next
    case (Some i)
    have "s1 = s"
      using get_vfile_SomeD(2) [OF g Some] by simp
    then show ?thesis
      using assms g Some
      by (auto simp: vfs_read_done_def split: if_splits elim!: bind_SomeE
          intro: reply_pid_keeps keeps_trans [OF position_keeps reply_pid_keeps])
  qed
qed

lemma vfs_write_done_keeps:
  assumes "vfs_write_done pid self file offset buf nbyte status s = Some s'"
  shows "keeps s s'"
proof (cases "status < 0")
  case True
  then show ?thesis
    using assms by (simp add: vfs_write_done_def reply_pid_keeps)
next
  case False
  then obtain vf s1 where g: "get_vfile pid file True s = Some (vf, s1)"
    using assms by (auto simp: vfs_write_done_def elim!: bind_SomeE)
  show ?thesis
  proof (cases vf)
    case None
    then show ?thesis
      using assms False g l4_only_keeps [OF get_vfile_SomeD(1) [OF g]] by (simp add: vfs_write_done_def)
  next
    case (Some i)
    have "s1 = s"
      using get_vfile_SomeD(2) [OF g Some] by simp
    then show ?thesis
      using assms g Some False
      by (auto simp: vfs_write_done_def elim!: bind_SomeE
          intro: keeps_trans [OF position_keeps l4_only_keeps [OF syscall_reply_v_frame]])
  qed
qed

section \<open>Closing and duplicating\<close>

text \<open>The files of a process after a descriptor has been closed, and the vnode.\<close>

definition closed_state :: "int \<Rightarrow> nat \<Rightarrow> nat \<Rightarrow> Process \<Rightarrow> VNode \<Rightarrow> 'z vfs_st_scheme \<Rightarrow> 'z vfs_st_scheme" where
  "closed_state pid j i p v s =
     (if vf_ref (files p ! i) - 1 = 0
      then s\<lparr>sosProcs := (sosProcs s)[nat pid := PProc (close_file j i p)],
             vnodes := (vnodes s)(vf_vnode (files p ! i) \<mapsto> snd (decrease_refs v (vf_fmode (files p ! i))))\<rparr>
      else s\<lparr>sosProcs := (sosProcs s)[nat pid := PProc (drop_file j i p)]\<rparr>)"

lemma closed_state_more [simp]: "vfs_st.more (closed_state pid j i p v s) = vfs_st.more s"
  by (simp add: closed_state_def)

lemma vfile_cleared [simp]:
  "(vf :: VFile)\<lparr>vf_ref := 0, vf_vnode := 0, vf_fmode := 0, vf_fp := 0\<rparr> = \<lparr>vf_vnode = 0, vf_fmode = 0, vf_fp = 0, vf_ref = 0\<rparr>"
  by (cases vf) simp

lemma vfs_close_run:
  assumes k: "0 \<le> pid" "nat pid < length (sosProcs s)" "sosProcs s ! nat pid = PProc p"
    and j: "j < 19" "j < length (fds p)" "fds p ! j = int i" and i: "i < 16" "i < length (files p)" "vf_vnode (files p ! i) \<noteq> 0"
    and v: "vnodes s (vf_vnode (files p ! i)) = Some v"
  shows "vfs_close pid (int j) s = (let s' = closed_state pid j i p v s; v' = the (vnodes s' (vf_vnode (files p ! i))) in
    if readers v' = 0 \<and> writers v' = 0 then vnode_close pid (vf_vnode (files p ! i)) (int j) (vf_fmode (files p ! i)) s'
    else reply_pid pid SOS_VFS_OK s')"
proof -
  have lk: "process_lookup pid s = Some (PProc p)"
    using k by (simp add: process_lookup_def)
  have g: "get_vfile pid (int j) False s = Some (Some i, s)"
    using lk j i by (simp add: get_vfile_def process_get_tid_def)
  let ?p = "p\<lparr>fds := (fds p)[j := VFS_NIL_FILE]\<rparr>"
  let ?s = "s\<lparr>sosProcs := (sosProcs s)[nat pid := PProc ?p]\<rparr>"
  let ?t = "s\<lparr>sosProcs := (sosProcs s)[nat pid := PProc (drop_file j i p)]\<rparr>"
  have 1: "set_fd pid (int j) VFS_NIL_FILE s = Some ?s"
    using set_fd_eq [OF k j(2)] by simp
  have 2: "vfile_at pid i ?s = Some (files p ! i)"
    using k i by (simp add: vfile_at_def process_lookup_def)
  have "upd_vfile pid i (\<lambda>vf. vf\<lparr>vf_ref := vf_ref vf - 1\<rparr>) ?s = Some ?t"
    using upd_vfile_eq [of pid ?s ?p i "\<lambda>vf. vf\<lparr>vf_ref := vf_ref vf - 1\<rparr>"] k i by (simp add: drop_file_def)
  moreover have "upd_vfile pid i (\<lambda>vf. vf\<lparr>vf_vnode := 0, vf_fmode := 0, vf_fp := 0\<rparr>) ?t =
      Some (s\<lparr>sosProcs := (sosProcs s)[nat pid := PProc (close_file j i p)]\<rparr>)" if "vf_ref (files p ! i) - 1 = 0"
    using upd_vfile_eq [of pid ?t "drop_file j i p" i "\<lambda>vf. vf\<lparr>vf_vnode := 0, vf_fmode := 0, vf_fp := 0\<rparr>"] k i that
    by (simp add: drop_file_def close_file_def)
  ultimately show ?thesis
    using g 1 2 v unfolding vfs_close_def closed_state_def Let_def upd_vnode_def
    by (cases "vf_ref (files p ! i) - 1 = 0") simp_all
qed

lemma closed_state_inv:
  assumes inv: "vfs_inv s" and k: "0 \<le> pid" "nat pid < length (sosProcs s)" "sosProcs s ! nat pid = PProc p"
    and j: "j < 19" "fds p ! j = int i" and i: "i < 16" "vf_vnode (files p ! i) \<noteq> 0"
    and v: "vnodes s (vf_vnode (files p ! i)) = Some v"
  shows "vfs_inv (closed_state pid j i p v s)"
proof -
  have inv': "vinv (sosProcs s) (vnodes s) (GlobalVNodes s)"
    using inv by (simp add: vfs_inv_def)
  have k': "nat pid < 256"
    using k vinv_length [OF inv'] by simp
  show ?thesis
    using vinv_drop [OF inv' k' k(3) j i] vinv_close [OF inv' k' k(3) j i _ v]
    by (simp add: closed_state_def vfs_inv_def)
qed

lemma upd_vnode_keeps:
  assumes "upd_vnode a f s = Some s'"
    and "\<And>v. vnext (f v) = vnext v \<and> previous (f v) = previous v \<and> readers (f v) = readers v \<and> writers (f v) = writers v"
  shows "keeps s s'"
  using assms vinv_vnode [of "sosProcs s" "vnodes s" "GlobalVNodes s" a]
  by (auto simp: upd_vnode_def vfs_inv_def elim!: bind_SomeE intro!: keepsI)

lemma vnode_close_keeps:
  assumes eq: "vnode_close pid a file mode s = Some s'" and v: "vnodes s a = Some v" "readers v = 0" "writers v = 0"
  shows "keeps s s'"
proof (cases "vops v")
  case OpsNull
  then show ?thesis
    using eq v by (simp add: vnode_close_def)
next
  case OpsConsole
  then show ?thesis
    using eq v by (simp add: vnode_close_def console_close_def vfs_close_done_def reply_pid_keeps)
next
  case OpsNfs
  show ?thesis
  proof (cases "a = 0")
    case True
    then show ?thesis
      using eq v OpsNfs by (simp add: vnode_close_def nfsfs_close_def vfs_close_done_def reply_pid_keeps)
  next
    case False
    let ?s = "s\<lparr>vnodes := (vnodes s)(a \<mapsto> v\<lparr>extra := ExNull\<rparr>)\<rparr>"
    obtain s1 s2 where r: "remove_vnode a ?s = Some s1" "free_vnode a s1 = Some s2" "reply_pid pid SOS_VFS_OK s2 = Some s'"
      and u: "upd_vnode a (\<lambda>v. v\<lparr>extra := ExNull\<rparr>) s = Some ?s"
      using eq v OpsNfs False
      by (auto simp: vnode_close_def nfsfs_close_def free_nfsfile_def vfs_close_done_def upd_vnode_def
          split: if_splits elim!: bind_SomeE)
    have "keeps ?s s2"
      by (rule free_unused_keeps [OF _ _ _ r(1,2), of "v\<lparr>extra := ExNull\<rparr>"]) (simp_all add: v)
    then have "keeps ?s s'"
      using reply_pid_keeps [OF r(3)] by (rule keeps_trans)
    moreover have "keeps s ?s"
      by (rule upd_vnode_keeps [OF u]) simp
    ultimately show ?thesis
      by (rule keeps_trans [rotated])
  qed
qed

lemma vfs_close_keeps:
  assumes "vfs_close pid file s = Some s'"
  shows "keeps s s'"
proof -
  obtain vf s1 where g: "get_vfile pid file False s = Some (vf, s1)"
    using assms by (auto simp: vfs_close_def elim!: bind_SomeE)
  show ?thesis
  proof (cases vf)
    case None
    then show ?thesis
      using assms g l4_only_keeps [OF get_vfile_SomeD(1) [OF g]] by (simp add: vfs_close_def)
  next
    case (Some i)
    obtain p where p: "s1 = s" "0 \<le> pid" "nat pid < length (sosProcs s)" "sosProcs s ! nat pid = PProc p" "0 \<le> file"
        "file < 19" "nat file < length (fds p)" "fds p ! nat file = int i" "i < 16" "i < length (files p)" "vf_vnode (files p ! i) \<noteq> 0"
      using get_vfile_SomeD(2) [OF g Some] by (elim exE conjE) (rule that)
    have "vfs_inv s' \<and> vfs_st.more s' = vfs_st.more s" if inv: "vfs_inv s"
    proof -
      have k: "nat pid < 256"
        using inv p(3) by (simp add: vfs_inv_def vinv_def)
      obtain v where v: "vnodes s (vf_vnode (files p ! i)) = Some v"
        using vinv_used [of "sosProcs s" "vnodes s" "GlobalVNodes s", OF _ k p(4,9,11)] inv by (auto simp: vfs_inv_def)
      let ?s = "closed_state pid (nat file) i p v s"
      have cs: "vfs_inv ?s"
        by (rule closed_state_inv [OF inv p(2-4) _ p(8,9,11) v]) (use p in simp)
      obtain w where w: "vnodes ?s (vf_vnode (files p ! i)) = Some w"
        using v by (cases "vf_ref (files p ! i) - 1 = 0") (auto simp: closed_state_def)
      have "vfs_close pid file s = (if readers w = 0 \<and> writers w = 0
          then vnode_close pid (vf_vnode (files p ! i)) file (vf_fmode (files p ! i)) ?s else reply_pid pid SOS_VFS_OK ?s)"
        using vfs_close_run [OF p(2-4) _ p(7-11) v] p(5,6) w by (simp add: Let_def)
      then have "keeps ?s s'"
        using assms vnode_close_keeps [OF _ w] by (auto split: if_splits intro: reply_pid_keeps)
      with cs show ?thesis
        by (simp add: keeps_def)
    qed
    then show ?thesis
      by (simp add: keeps_def)
  qed
qed

text \<open>Closing changes the table of processes only as \<open>closed_state\<close> says.\<close>

lemma remove_vnode_procs: "remove_vnode a s = Some s' \<Longrightarrow> sosProcs s' = sosProcs s"
  by (auto simp: remove_vnode_def upd_vnode_def Let_def split: if_splits elim!: bind_SomeE)

lemma free_vnode_procs: "free_vnode a s = Some s' \<Longrightarrow> sosProcs s' = sosProcs s"
  by (auto simp: free_vnode_def split: if_splits elim!: bind_SomeE)

lemma reply_pid_procs: "reply_pid pid st s = Some s' \<Longrightarrow> sosProcs s' = sosProcs s"
  by (drule reply_pid_frame) (auto elim: l4_onlyE)

lemma vfs_close_done_procs: "vfs_close_done pid a file mode st s = Some s' \<Longrightarrow> sosProcs s' = sosProcs s"
  by (auto simp: vfs_close_done_def split: if_splits elim!: bind_SomeE
      dest!: remove_vnode_procs free_vnode_procs reply_pid_procs)

lemma free_nfsfile_procs: "free_nfsfile a s = Some s' \<Longrightarrow> sosProcs s' = sosProcs s"
  by (auto simp: free_nfsfile_def upd_vnode_def split: if_splits elim!: bind_SomeE)

lemma vnode_close_procs: "vnode_close pid a file mode s = Some s' \<Longrightarrow> sosProcs s' = sosProcs s"
  by (auto simp: vnode_close_def console_close_def nfsfs_close_def split: vops.splits if_splits elim!: bind_SomeE
      dest!: vfs_close_done_procs free_nfsfile_procs)

lemma vfs_close_procs:
  assumes inv: "vfs_inv s" and k: "0 \<le> pid" "nat pid < length (sosProcs s)" "sosProcs s ! nat pid = PProc p"
    and j: "j < 19" "fds p ! j = int i" and i: "i < 16" "vf_vnode (files p ! i) \<noteq> 0"
    and eq: "vfs_close pid (int j) s = Some s'"
  shows "sosProcs s' = (sosProcs s)[nat pid := PProc (if vf_ref (files p ! i) - 1 = 0 then close_file j i p else drop_file j i p)]"
proof -
  have inv': "vinv (sosProcs s) (vnodes s) (GlobalVNodes s)"
    using inv by (simp add: vfs_inv_def)
  have k': "nat pid < 256"
    using k vinv_length [OF inv'] by simp
  have len: "length (fds p) = 19" "length (files p) = 16"
    using vinv_fds_ok [OF inv' k' k(3)] by (simp_all add: fds_ok_def)
  obtain v where v: "vnodes s (vf_vnode (files p ! i)) = Some v"
    using vinv_used [OF inv' k' k(3) i] by blast
  have "sosProcs s' = sosProcs (closed_state pid j i p v s)"
    using eq vfs_close_run [OF k j(1) _ j(2) i(1) _ i(2) v] j i len
    by (auto simp: Let_def split: if_splits dest: vnode_close_procs reply_pid_procs)
  then show ?thesis
    by (simp add: closed_state_def)
qed

lemma vfs_dup_to_free:
  assumes k: "0 \<le> pid" "nat pid < length (sosProcs s)" "sosProcs s ! nat pid = PProc p"
    and j: "j < 19" "fds p ! j = VFS_NIL_FILE" and i: "i < 16" "vf_vnode (files p ! i) \<noteq> 0"
    and s1: "set_fd pid (int j) (int i) s = Some s1"
    and s2: "upd_vfile pid i (\<lambda>vf. vf\<lparr>vf_ref := vf_ref vf + 1\<rparr>) s1 = Some s2"
  shows "keeps s s2"
proof (rule keepsI)
  let ?p = "p\<lparr>fds := (fds p)[j := int i]\<rparr>"
  have eq: "s2 = s\<lparr>sosProcs := (sosProcs s)[nat pid := PProc (dup_file j i p)]\<rparr>"
    if "length (fds p) = 19" "length (files p) = 16"
  proof -
    have e: "s1 = s\<lparr>sosProcs := (sosProcs s)[nat pid := PProc ?p]\<rparr>"
      using s1 set_fd_eq [of pid s p j "int i"] k j that by simp
    show ?thesis
      using s2 upd_vfile_eq [of pid s1 ?p i "\<lambda>vf. vf\<lparr>vf_ref := vf_ref vf + 1\<rparr>"] k i that by (simp add: e dup_file_def)
  qed
  assume "vfs_inv s"
  then have inv: "vinv (sosProcs s) (vnodes s) (GlobalVNodes s)"
    by (simp add: vfs_inv_def)
  have k': "nat pid < 256"
    using k vinv_length [OF inv] by simp
  have len: "length (fds p) = 19" "length (files p) = 16"
    using vinv_fds_ok [OF inv k' k(3)] by (simp_all add: fds_ok_def)
  show "vfs_inv s2" "vfs_st.more s2 = vfs_st.more s"
    using vinv_dup [OF inv k' k(3) j i] eq [OF len] by (simp_all add: vfs_inv_def)
qed

lemma ipcfilt_keeps:
  assumes "upd_proc pid (\<lambda>p. snd (process_set_ipcfilt f p)) s = Some s'"
  shows "keeps s s'"
proof (rule upd_proc_SomeD [OF assms])
  fix p
  assume p: "0 \<le> pid" "nat pid < length (sosProcs s)" "sosProcs s ! nat pid = PProc p"
    and s': "s' = s\<lparr>sosProcs := (sosProcs s)[nat pid := PProc (snd (process_set_ipcfilt f p))]\<rparr>"
  show ?thesis
  proof (rule keepsI)
    assume "vfs_inv s"
    then have inv: "vinv (sosProcs s) (vnodes s) (GlobalVNodes s)"
      by (simp add: vfs_inv_def)
    show "vfs_inv s'"
      using vinv_proc [OF inv _ p(3), of "snd (process_set_ipcfilt f p)"] p vinv_length [OF inv]
      by (simp add: s' vfs_inv_def process_set_ipcfilt_def)
  qed (simp add: s')
qed

text \<open>Closing the target of a duplication frees the descriptor and leaves the source open.\<close>

lemma vfs_dup_close:
  assumes inv: "vfs_inv s" and k: "0 \<le> pid" "nat pid < length (sosProcs s)" "sosProcs s ! nat pid = PProc p"
    and j: "j < 19" "0 \<le> fds p ! j" and f: "f < 19" "f \<noteq> j" "fds p ! f = int i" "i < 16" "vf_vnode (files p ! i) \<noteq> 0"
    and s1: "upd_proc pid (\<lambda>p. snd (process_set_ipcfilt PS_IPC_NONE p)) s = Some s1"
    and s2: "vfs_close pid (int j) s1 = Some s2"
    and s3: "upd_proc pid (\<lambda>p. snd (process_set_ipcfilt flt p)) s2 = Some s3"
  shows "keeps s s3" and "\<exists>q. nat pid < length (sosProcs s3) \<and> sosProcs s3 ! nat pid = PProc q \<and> fds q ! j = VFS_NIL_FILE \<and>
    fds q ! f = int i \<and> vf_vnode (files q ! i) \<noteq> 0 \<and> length (fds q) = 19"
proof -
  have inv': "vinv (sosProcs s) (vnodes s) (GlobalVNodes s)"
    using inv by (simp add: vfs_inv_def)
  have k': "nat pid < 256"
    using k vinv_length [OF inv'] by simp
  have ok: "fds_ok p" and len: "length (fds p) = 19" "length (files p) = 16"
    using vinv_fds_ok [OF inv' k' k(3)] by (simp_all add: fds_ok_def)
  define p1 where "p1 = snd (process_set_ipcfilt PS_IPC_NONE p)"
  have p1: "fds p1 = fds p" "files p1 = files p"
    by (simp_all add: p1_def process_set_ipcfilt_def)
  have e1: "s1 = s\<lparr>sosProcs := (sosProcs s)[nat pid := PProc p1]\<rparr>"
    using s1 upd_proc_eq [OF k] by (simp add: p1_def)
  show "keeps s s3"
    using ipcfilt_keeps [OF s1] vfs_close_keeps [OF s2] ipcfilt_keeps [OF s3] by (blast intro: keeps_trans)
  have inv1: "vfs_inv s1"
    using ipcfilt_keeps [OF s1] inv by (simp add: keeps_def)
  obtain i' where i': "fds p ! j = int i'" "i' < 16" "vf_vnode (files p ! i') \<noteq> 0"
  proof -
    have "fds p ! j \<in> set (fds p)"
      using j len by simp
    then have "fds p ! j < 16" "vf_vnode (files p ! nat (fds p ! j)) \<noteq> 0"
      using ok j(2) by (auto simp: fds_ok_def)
    then show ?thesis
      using that [of "nat (fds p ! j)"] j(2) by simp
  qed
  have k1: "nat pid < length (sosProcs s1)" "sosProcs s1 ! nat pid = PProc p1"
    using k e1 by simp_all
  define q where "q = (if vf_ref (files p1 ! i') - 1 = 0 then close_file j i' p1 else drop_file j i' p1)"
  have e2: "sosProcs s2 = (sosProcs s1)[nat pid := PProc q]"
    using vfs_close_procs [OF inv1 k(1) k1 j(1) _ i'(2) _ s2] i' by (simp add: p1 q_def)
  have "sosProcs s3 ! nat pid = PProc (snd (process_set_ipcfilt flt q))" "nat pid < length (sosProcs s3)"
    using s3 upd_proc_eq [of pid s2 q] k k1 e2 by auto
  moreover have "fds q = (fds p)[j := VFS_NIL_FILE]"
    by (simp add: q_def close_file_def drop_file_def p1)
  moreover have "vf_vnode (files q ! i) \<noteq> 0"
  proof (cases "i' = i")
    case True
    have "2 \<le> count_list (fds p) (int i)"
      using f(1-3) j(1) i'(1) len True
        count_list_update [of j "fds p" VFS_NIL_FILE "int i"] count_list_update [of f "(fds p)[j := VFS_NIL_FILE]" VFS_NIL_FILE "int i"]
      by simp
    then have "vf_ref (files p ! i) - 1 \<noteq> 0"
      using fds_ok_used [OF ok f(4,5)] by auto
    then show ?thesis
      using f(4,5) len True by (simp add: q_def drop_file_def p1)
  next
    case False
    then show ?thesis
      using f(5) by (simp add: q_def drop_file_def close_file_def p1)
  qed
  ultimately show "\<exists>q. nat pid < length (sosProcs s3) \<and> sosProcs s3 ! nat pid = PProc q \<and> fds q ! j = VFS_NIL_FILE \<and>
    fds q ! f = int i \<and> vf_vnode (files q ! i) \<noteq> 0 \<and> length (fds q) = 19"
    using j(1) f len by (intro exI [of _ "snd (process_set_ipcfilt flt q)"]) (simp add: process_set_ipcfilt_def)
qed

lemma vfs_dup_keeps:
  assumes eq: "vfs_dup pid forig fdup s = Some s'" and ne: "forig \<noteq> fdup"
  shows "keeps s s'"
proof -
  obtain vf s0 where g: "get_vfile pid forig True s = Some (vf, s0)"
    using eq by (auto simp: vfs_dup_def elim!: bind_SomeE)
  show ?thesis
  proof (cases vf)
    case None
    then show ?thesis
      using eq g l4_only_keeps [OF get_vfile_SomeD(1) [OF g]] by (simp add: vfs_dup_def)
  next
    case (Some i)
    obtain p where p: "s0 = s" "0 \<le> pid" "nat pid < length (sosProcs s)" "sosProcs s ! nat pid = PProc p" "0 \<le> forig"
        "forig < 19" "nat forig < length (fds p)" "fds p ! nat forig = int i" "i < 16" "i < length (files p)" "vf_vnode (files p ! i) \<noteq> 0"
      using get_vfile_SomeD(2) [OF g Some] by (elim exE conjE) (rule that)
    have lk: "process_lookup pid s = Some (PProc p)"
      using p by (simp add: process_lookup_def)
    consider (bad) "(fdup < 0 \<or> fdup \<ge> 19) \<and> fdup \<noteq> VFS_NIL_FILE" | (any) "fdup = VFS_NIL_FILE" | (given) "0 \<le> fdup" "fdup < 19"
      by fastforce
    then show ?thesis
    proof cases
      case bad
      then show ?thesis
        using eq g Some p(1) lk by (auto simp: vfs_dup_def intro: reply_pid_keeps)
    next
      case any
      let ?d = "first_index (\<lambda>f. f = VFS_NIL_FILE) (fds p)"
      show ?thesis
      proof (cases "?d = VFS_NIL_FILE")
        case True
        then show ?thesis
          using eq g Some p(1) lk any by (auto simp: vfs_dup_def intro: reply_pid_keeps)
      next
        case False
        then obtain j where j: "?d = int j" "j < length (fds p)" "fds p ! j = VFS_NIL_FILE"
          using first_index_found [OF False] by blast
        obtain s1 s2 where s1: "set_fd pid (int j) (int i) s = Some s1"
          and s2: "upd_vfile pid i (\<lambda>vf. vf\<lparr>vf_ref := vf_ref vf + 1\<rparr>) s1 = Some s2" and r: "reply_pid pid (int j) s2 = Some s'"
          using eq g Some p lk any j by (auto simp: vfs_dup_def Let_def elim!: bind_SomeE)
        have "keeps s s2" if "vfs_inv s"
        proof -
          have "length (fds p) = 19"
            using that p by (auto simp: vfs_inv_def vinv_def fds_ok_def)
          then show ?thesis
            using vfs_dup_to_free [OF p(2-4) _ j(3) p(9,11) s1 s2] j by simp
        qed
        then show ?thesis
          using reply_pid_keeps [OF r] unfolding keeps_def by simp
      qed
    next
      case given
      have "vfs_inv s' \<and> vfs_st.more s' = vfs_st.more s" if inv: "vfs_inv s"
      proof -
        let ?j = "nat fdup"
        have ok: "fds_ok p" and len: "length (fds p) = 19" "length (files p) = 16"
          using inv p by (auto simp: vfs_inv_def vinv_def fds_ok_def)
        have jr: "?j < 19" "fdup = int ?j" and fne: "nat forig \<noteq> ?j"
          using given ne p(5) by auto
        have tid: "process_get_tid (PProc p) = Some (L4_GlobalId (ps_pid (info p)) 1)"
          by (simp add: process_get_tid_def)
        show ?thesis
        proof (cases "fds p ! ?j = VFS_NIL_FILE")
          case True
          then have "get_vfile pid fdup False s = Some (None, s)"
            using lk given len tid by (simp add: get_vfile_def)
          then obtain s1 s2 where s1: "set_fd pid (int ?j) (int i) s = Some s1"
            and s2: "upd_vfile pid i (\<lambda>vf. vf\<lparr>vf_ref := vf_ref vf + 1\<rparr>) s1 = Some s2" and r: "reply_pid pid fdup s2 = Some s'"
            using eq g Some p lk given by (auto simp: vfs_dup_def Let_def elim!: bind_SomeE)
          have "keeps s s2"
            by (rule vfs_dup_to_free [OF p(2-4) jr(1) True p(9,11) s1 s2])
          then show ?thesis
            using reply_pid_keeps [OF r] inv by (simp add: keeps_def)
        next
          case False
          then have fj: "0 \<le> fds p ! ?j" "fds p ! ?j < 16" "vf_vnode (files p ! nat (fds p ! ?j)) \<noteq> 0"
            using ok jr(1) len nth_mem [of ?j "fds p"] by (auto simp: fds_ok_def)
          then have "get_vfile pid fdup False s = Some (Some (nat (fds p ! ?j)), s)"
            using lk given len tid by (simp add: get_vfile_def)
          then obtain s1 s2 s3 q' s4 s5 f where s1: "upd_proc pid (\<lambda>p. snd (process_set_ipcfilt PS_IPC_NONE p)) s = Some s1"
            and s2: "vfs_close pid (int ?j) s1 = Some s2"
            and s3: "upd_proc pid (\<lambda>q. snd (process_set_ipcfilt (process_get_ipcfilt p) q)) s2 = Some s3"
            and q': "process_lookup pid s3 = Some (PProc q')" and f: "arr_get (fds q') (nat forig) = Some f"
            and s4: "set_fd pid (int ?j) f s3 = Some s4"
            and s5: "upd_vfile pid i (\<lambda>vf. vf\<lparr>vf_ref := vf_ref vf + 1\<rparr>) s4 = Some s5" and r: "reply_pid pid fdup s5 = Some s'"
            using eq g Some p lk given by (auto simp: vfs_dup_def Let_def elim!: bind_SomeE dest!: deref_SomeD)
          note c = vfs_dup_close [OF inv p(2-4) jr(1) fj(1) _ fne p(8,9,11) s1 s2 s3]
          have fo: "nat forig < 19"
            using p(6) by simp
          obtain q where q: "nat pid < length (sosProcs s3)" "sosProcs s3 ! nat pid = PProc q" "fds q ! ?j = VFS_NIL_FILE"
              "fds q ! nat forig = int i" "vf_vnode (files q ! i) \<noteq> 0" "length (fds q) = 19"
            using c(2) [OF fo] by (elim exE conjE) (rule that)
          have "f = int i"
            using f q' q fo p(2) by (simp add: process_lookup_def)
          with s4 have s4: "set_fd pid (int ?j) (int i) s3 = Some s4"
            by simp
          have "keeps s3 s5"
            by (rule vfs_dup_to_free [OF p(2) q(1,2) jr(1) q(3) p(9) q(5) s4 s5])
          then show ?thesis
            using c(1) [OF fo] reply_pid_keeps [OF r] inv by (simp add: keeps_def)
        qed
      qed
      then show ?thesis
        by (simp add: keeps_def)
    qed
  qed
qed

end
