(* ===== verification/VfsProps.thy ===== *)
theory VfsProps
  imports VfsInv
begin

text \<open>
  The file system as a transition system: the system calls of \<^verbatim>\<open>vfs.c\<close>, the callbacks of the NFS
  library and the serial line, and the environment. The invariant of \<open>VfsInv\<close> holds in every state
  that is reached.
\<close>

section \<open>The queue of NFS requests\<close>

definition mode_ok :: "u8 \<Rightarrow> bool" where
  "mode_ok mode \<longleftrightarrow> mode AND FM_READ \<noteq> 0 \<or> mode AND FM_WRITE \<noteq> 0"

definition body_ok :: "NfsRequestBody \<Rightarrow> bool" where
  "body_ok body \<longleftrightarrow> (case body of RT_LOOKUP mode \<Rightarrow> mode_ok mode | _ \<Rightarrow> True)"

definition fs_inv :: "'z nfs_st_scheme \<Rightarrow> bool" where
  "fs_inv s \<longleftrightarrow> vfs_inv s \<and> list_all (\<lambda>rq. body_ok (nr_body rq)) (NfsRequests s)"

lemma more_requests:
  "vfs_st.more s' = vfs_st.more s \<Longrightarrow> NfsRequests s' = NfsRequests (s :: 'z nfs_st_scheme)"
  by (cases s; cases s') simp

lemma keeps_fs_inv: "keeps s s' \<Longrightarrow> fs_inv s \<Longrightarrow> fs_inv s'"
  using more_requests [of s' s] by (simp add: fs_inv_def keeps_def)

text \<open>Steps that only touch the queue and the calls to the library.\<close>

definition nfs_only :: "'z nfs_st_scheme \<Rightarrow> 'z nfs_st_scheme \<Rightarrow> bool" where
  "nfs_only s s' \<longleftrightarrow> (\<exists>rqs t calls. s' = s\<lparr>NfsRequests := rqs, tok := t, nfsCalls := calls\<rparr>)"

lemma nfs_only_fs_inv:
  "nfs_only s s' \<Longrightarrow> fs_inv s \<Longrightarrow> list_all (\<lambda>rq. body_ok (nr_body rq)) (NfsRequests s') \<Longrightarrow> fs_inv s'"
  by (auto simp: nfs_only_def fs_inv_def vfs_inv_def)

lemma run_request_frame: "run_request rq s = Some s' \<Longrightarrow> s' = s\<lparr>nfsCalls := nfsCalls s'\<rparr>"
  by (auto simp: run_request_def rq_lookup_run_def rq_read_run_def rq_write_run_def rq_stat_run_def rq_dir_run_def
      rq_rem_run_def nfs_do_def split: NfsRequestBody.splits if_splits elim!: bind_SomeE)

lemma submit_frame:
  assumes "submit body vn pid s = Some s'"
  shows "\<exists>rq calls. s' = s\<lparr>tok := tok s + 1, NfsRequests := NfsRequests s @ [rq], nfsCalls := calls\<rparr> \<and> nr_body rq = body"
proof -
  let ?rq = "\<lparr>nr_ptr = rq_addr s, token = tok s mod (NULL_TOKEN - 1), nr_vnode = vn, nr_pid = pid, nr_body = body\<rparr>"
  let ?s = "s\<lparr>tok := tok s + 1, NfsRequests := NfsRequests s @ [?rq]\<rparr>"
  have "check_request ?rq ?s = Some s'"
    using assms by (auto simp: submit_def create_request_def newtoken_def Let_def split: if_splits elim!: bind_SomeE)
  then have "s' = ?s\<lparr>nfsCalls := nfsCalls s'\<rparr>"
    by (auto simp: check_request_def split: list.splits if_splits dest: run_request_frame)
  then show ?thesis
    by (intro exI [of _ ?rq] exI [of _ "nfsCalls s'"]) simp
qed

lemma submit_fs_inv: "submit body vn pid s = Some s' \<Longrightarrow> body_ok body \<Longrightarrow> fs_inv s \<Longrightarrow> fs_inv s'"
  by (drule submit_frame) (auto simp: fs_inv_def vfs_inv_def)

lemma delete_n_subset: "delete_n (\<lambda>x u. Some (P x, u)) n xs d = Some (ys, d') \<Longrightarrow> set ys \<subseteq> set xs"
proof (induction xs arbitrary: n ys d')
  case (Cons x xs)
  show ?case
  proof (cases "n \<noteq> 0 \<and> P x")
    case True
    then have "delete_n (\<lambda>x u. Some (P x, u)) (n - 1) xs d = Some (ys, d')"
      using Cons.prems by simp
    then show ?thesis
      using Cons.IH [of "n - 1" ys d'] by auto
  next
    case False
    then obtain zs where "delete_n (\<lambda>x u. Some (P x, u)) n xs d = Some (zs, d')" "ys = x # zs"
      using Cons.prems by (auto split: if_splits elim!: bind_SomeE)
    then show ?thesis
      using Cons.IH [of n zs d'] by auto
  qed
qed simp

lemma remove_request_fs_inv:
  assumes "remove_request rq s = Some s'" and "fs_inv s"
  shows "fs_inv s'"
proof -
  obtain rqs u where d: "delete_n (\<lambda>brq u. Some (search_requests (token rq) brq, u)) 1 (NfsRequests s) () = Some (rqs, u)"
    and r: "run_head_request (s\<lparr>NfsRequests := rqs\<rparr>) = Some s'"
    using assms(1) by (auto simp: remove_request_def elim!: bind_SomeE)
  have "s' = s\<lparr>NfsRequests := rqs, nfsCalls := nfsCalls s'\<rparr>"
    using r by (auto simp: run_head_request_def split: list.splits dest: run_request_frame)
  then obtain calls where "s' = s\<lparr>NfsRequests := rqs, nfsCalls := calls\<rparr>" ..
  then show ?thesis
    using assms(2) delete_n_subset [OF d] by (auto simp: fs_inv_def vfs_inv_def list_all_iff)
qed

lemma get_request_mem: "get_request t s = Some rq \<Longrightarrow> rq \<in> set (NfsRequests s)"
  by (auto simp: get_request_def find_Some_iff split: if_splits)

lemma reply_remove_fs_inv:
  "reply_pid pid st s = Some s1 \<Longrightarrow> remove_request rq s1 = Some s' \<Longrightarrow> fs_inv s \<Longrightarrow> fs_inv s'"
  by (blast intro: remove_request_fs_inv keeps_fs_inv reply_pid_keeps)

section \<open>Callbacks\<close>

lemma upd_vnode_fs_inv:
  "upd_vnode a f s = Some s' \<Longrightarrow>
   (\<And>v. vnext (f v) = vnext v \<and> previous (f v) = previous v \<and> readers (f v) = readers v \<and> writers (f v) = writers v) \<Longrightarrow>
   fs_inv s \<Longrightarrow> fs_inv s'"
  by (rule keeps_fs_inv [OF upd_vnode_keeps])

lemma free_nfsfile_fs_inv:
  assumes "free_nfsfile a s = Some s'" and "fs_inv s"
  shows "fs_inv s'"
proof -
  have "s' = s \<or> upd_vnode a (\<lambda>v. v\<lparr>extra := ExNull\<rparr>) s = Some s'"
    using assms(1) by (auto simp: free_nfsfile_def split: if_splits elim!: bind_SomeE)
  then show ?thesis
    using assms(2) by (auto elim: upd_vnode_fs_inv)
qed

lemma open_done_fs_inv:
  "vfs_open_done pid a mode st s = Some s' \<Longrightarrow> mode_ok mode \<Longrightarrow> fs_inv s \<Longrightarrow> fs_inv s'"
  unfolding mode_ok_def by (rule keeps_fs_inv [OF vfs_open_done_keeps])

lemma read_done_fs_inv: "vfs_read_done pid a f pos buf n st s = Some s' \<Longrightarrow> fs_inv s \<Longrightarrow> fs_inv s'"
  by (rule keeps_fs_inv [OF vfs_read_done_keeps])

lemma write_done_fs_inv: "vfs_write_done pid a f pos buf n st s = Some s' \<Longrightarrow> fs_inv s \<Longrightarrow> fs_inv s'"
  by (rule keeps_fs_inv [OF vfs_write_done_keeps])

lemma reply_fs_inv: "reply_pid pid st s = Some s' \<Longrightarrow> fs_inv s \<Longrightarrow> fs_inv s'"
  by (rule keeps_fs_inv [OF reply_pid_keeps])

text \<open>Writes to the copy buffers.\<close>

lemma buffers_fs_inv [simp]:
  "fs_inv (s\<lparr>copyInOutBuffer := b\<rparr>) = fs_inv s" "fs_inv (s\<lparr>statBuffer := c\<rparr>) = fs_inv s"
  "fs_inv (s\<lparr>nfsCalls := d\<rparr>) = fs_inv s" "fs_inv (s\<lparr>console_file := e\<rparr>) = fs_inv s"
  "fs_inv (s\<lparr>serialOut := f\<rparr>) = fs_inv s"
  by (simp_all add: fs_inv_def vfs_inv_def)

lemma lookup_cb_fs_inv:
  assumes eq: "lookup_cb vfs_open_done t st fh attr s = Some s'" and inv: "fs_inv s"
  shows "fs_inv s'"
proof (cases "get_request t s")
  case None
  then show ?thesis
    using eq inv by (simp add: lookup_cb_def)
next
  case (Some rq)
  obtain mode where body: "nr_body rq = RT_LOOKUP mode"
    using eq Some by (auto simp: lookup_cb_def split: NfsRequestBody.splits)
  have m: "mode_ok mode"
    using inv get_request_mem [OF Some] body by (auto simp: fs_inv_def body_ok_def list_all_iff)
  consider (ok) "st = NFS_OK" | (create) "st = NFSERR_NOENT" "mode AND FM_WRITE \<noteq> 0"
    | (err) "st \<noteq> NFS_OK" "\<not> (st = NFSERR_NOENT \<and> mode AND FM_WRITE \<noteq> 0)"
    by blast
  then show ?thesis
  proof cases
    case ok
    then obtain s1 s2 where s1: "upd_vnode (nr_vnode rq) (\<lambda>v. v\<lparr>extra := ExNfs (Some fh), vstat := cp_stats attr\<rparr>) s = Some s1"
      and s2: "vfs_open_done (nr_pid rq) (nr_vnode rq) mode SOS_VFS_OK s1 = Some s2" and s3: "remove_request rq s2 = Some s'"
      using eq Some body by (auto simp: lookup_cb_def split: vextra.splits elim!: bind_SomeE)
    have "fs_inv s1"
      by (rule upd_vnode_fs_inv [OF s1 _ inv]) simp
    then show ?thesis
      using remove_request_fs_inv [OF s3] open_done_fs_inv [OF s2 m] by simp
  next
    case create
    then show ?thesis
      using eq Some body inv by (auto simp: lookup_cb_def nfs_do_def elim!: bind_SomeE)
  next
    case err
    then obtain s1 s2 where s1: "free_nfsfile (nr_vnode rq) s = Some s1"
      and s2: "vfs_open_done (nr_pid rq) (nr_vnode rq) mode (status_nfs2vfs st) s1 = Some s2" and s3: "remove_request rq s2 = Some s'"
      using eq Some body by (auto simp: lookup_cb_def elim!: bind_SomeE split: if_splits)
    show ?thesis
      using remove_request_fs_inv [OF s3] open_done_fs_inv [OF s2 m] free_nfsfile_fs_inv [OF s1 inv] by simp
  qed
qed

lemma read_cb_fs_inv:
  assumes eq: "read_cb vfs_read_done t st attr data s = Some s'" and inv: "fs_inv s"
  shows "fs_inv s'"
proof (cases "get_request t s")
  case None
  then show ?thesis
    using eq inv by (simp add: read_cb_def)
next
  case (Some rq)
  obtain f buf pos n where body: "nr_body rq = RT_READ f buf pos n"
    using eq Some by (auto simp: read_cb_def split: NfsRequestBody.splits)
  show ?thesis
  proof (cases "st = NFS_OK")
    case True
    let ?s = "s\<lparr>copyInOutBuffer := buf_memcpy buf data (copyInOutBuffer s)\<rparr>"
    obtain s1 s2 where s1: "upd_vnode (nr_vnode rq) (\<lambda>v. v\<lparr>vstat := cp_stats attr\<rparr>) ?s = Some s1"
      and s2: "vfs_read_done (nr_pid rq) (nr_vnode rq) f 0 buf (of_nat (length data)) (int (length data)) s1 = Some s2"
      and s3: "remove_request rq s2 = Some s'"
      using eq Some body True by (auto simp: read_cb_def Let_def elim!: bind_SomeE)
    have "fs_inv s1"
      by (rule upd_vnode_fs_inv [OF s1]) (simp_all add: inv)
    then show ?thesis
      using remove_request_fs_inv [OF s3] read_done_fs_inv [OF s2] by simp
  next
    case False
    then show ?thesis
      using eq Some body inv
      by (auto simp: read_cb_def elim!: bind_SomeE intro: remove_request_fs_inv read_done_fs_inv)
  qed
qed

lemma write_cb_fs_inv:
  assumes eq: "write_cb vfs_write_done t st attr s = Some s'" and inv: "fs_inv s"
  shows "fs_inv s'"
proof (cases "get_request t s")
  case None
  then show ?thesis
    using eq inv by (simp add: write_cb_def)
next
  case (Some rq)
  obtain f buf pos n where body: "nr_body rq = RT_WRITE f buf pos n"
    using eq Some by (auto simp: write_cb_def split: NfsRequestBody.splits)
  show ?thesis
  proof (cases "st = NFS_OK")
    case True
    obtain s1 s2 where s1: "upd_vnode (nr_vnode rq) (\<lambda>v. v\<lparr>vstat := cp_stats attr\<rparr>) s = Some s1"
      and s2: "vfs_write_done (nr_pid rq) (nr_vnode rq) f 0 buf n (sint n) s1 = Some s2"
      and s3: "remove_request rq s2 = Some s'"
      using eq Some body True by (auto simp: write_cb_def elim!: bind_SomeE)
    have "fs_inv s1"
      by (rule upd_vnode_fs_inv [OF s1]) (simp_all add: inv)
    then show ?thesis
      using remove_request_fs_inv [OF s3] write_done_fs_inv [OF s2] by simp
  next
    case False
    then show ?thesis
      using eq Some body inv
      by (auto simp: write_cb_def elim!: bind_SomeE intro: remove_request_fs_inv write_done_fs_inv)
  qed
qed

lemma set_body_fs_inv: "fs_inv s \<Longrightarrow> body_ok body \<Longrightarrow> fs_inv (set_body ptr body s)"
  by (auto simp: set_body_def fs_inv_def vfs_inv_def list_all_iff)

lemma getdirent_cb_fs_inv:
  assumes eq: "getdirent_cb t st num names ck s = Some s'" and inv: "fs_inv s"
  shows "fs_inv s'"
  using assms set_body_fs_inv [OF inv]
  by (auto simp: getdirent_cb_def nfs_do_def body_ok_def Let_def split: option.splits NfsRequestBody.splits if_splits
      elim!: bind_SomeE reply_remove_fs_inv)

lemma stat_cb_fs_inv: "stat_cb t st fh attr s = Some s' \<Longrightarrow> fs_inv s \<Longrightarrow> fs_inv s'"
  by (auto simp: stat_cb_def Let_def split: option.splits NfsRequestBody.splits if_splits
      elim!: bind_SomeE dest: reply_fs_inv remove_request_fs_inv)

lemma remove_cb_fs_inv: "remove_cb t st s = Some s' \<Longrightarrow> fs_inv s \<Longrightarrow> fs_inv s'"
  by (auto simp: remove_cb_def split: option.splits NfsRequestBody.splits
      elim!: bind_SomeE dest: reply_fs_inv remove_request_fs_inv)

section \<open>System calls\<close>

lemma console__flush_fs_inv: "console__flush s = Some (st, s') \<Longrightarrow> fs_inv s \<Longrightarrow> fs_inv s'"
  by (auto simp: console__flush_def network_sendstring_def serial_send_def split: if_splits elim!: bind_SomeE)

lemma send_loop_fs_inv:
  assumes "send_loop b base n i st s = Some r"
  shows "fs_inv s \<longrightarrow> fs_inv (snd r)"
proof (rule send_loop.raw_induct [where P = "\<lambda>b base n i st s r. fs_inv s \<longrightarrow> fs_inv (snd r)", OF _ assms], goal_cases)
  case step: (1 send_loop b base n i st s r)
  show ?case
  proof (cases "i < n")
    case False
    then show ?thesis
      using step(2) by auto
  next
    case True
    obtain i' cf where fl: "fill_loop b base n i (console_file s) = (i', cf)"
      by fastforce
    obtain st' s' where f: "(if CONSOLE_BUF_SIZ \<le> buf_used cf \<or> b (base + n - 1) = newline
          then console__flush (s\<lparr>console_file := cf\<rparr>) else Some (st, s\<lparr>console_file := cf\<rparr>)) = Some (st', s')"
      and l: "send_loop b base n i' (if st' < 0 then SOS_VFS_ERROR else sint (of_nat n :: u32)) s' = Some r"
      using step(2) True fl by (auto simp: Let_def elim!: bind_SomeE split: if_splits)
    have "fs_inv s \<longrightarrow> fs_inv s'"
      using f console__flush_fs_inv [of "s\<lparr>console_file := cf\<rparr>" st' s'] by (auto split: if_splits)
    then show ?thesis
      using step(1) [OF l] by simp
  qed
qed

lemma send_loop_fs_inv2: "send_loop b base n i st s = Some (st', s') \<Longrightarrow> fs_inv s \<Longrightarrow> fs_inv s'"
  using send_loop_fs_inv [of b base n i st s "(st', s')"] by simp

lemma vnode_write_fs_inv:
  assumes "vnode_write pid a f pos buf n s = Some s'" and "fs_inv s"
  shows "fs_inv s'"
  using assms
  by (auto simp: vnode_write_def console_write_def nfsfs_write_def body_ok_def split: vops.splits if_splits elim!: bind_SomeE
      elim!: write_done_fs_inv submit_fs_inv send_loop_fs_inv2)

lemma vnode_read_fs_inv:
  assumes "vnode_read pid a f pos buf n s = Some s'" and "fs_inv s"
  shows "fs_inv s'"
  using assms
  by (auto simp: vnode_read_def console_read_def nfsfs_read_def body_ok_def split: vops.splits if_splits elim!: bind_SomeE
      elim!: read_done_fs_inv submit_fs_inv)

lemma vnode_flush_fs_inv: "vnode_flush pid a f s = Some s' \<Longrightarrow> fs_inv s \<Longrightarrow> fs_inv s'"
  by (auto simp: vnode_flush_def console_flush_def nfsfs_flush_def split: vops.splits if_splits elim!: bind_SomeE
      elim!: reply_fs_inv console__flush_fs_inv)

text \<open>Getting a file either finds it and changes nothing, or only replies.\<close>

lemma get_vfile_fs_inv:
  assumes "get_vfile pid f ipc s = Some (r, s1)" and "fs_inv s"
  shows "fs_inv s1"
  using keeps_fs_inv [OF l4_only_keeps [OF get_vfile_SomeD(1) [OF assms(1)]] assms(2)] .

lemma vfs_write_fs_inv: "vfs_write pid f buf n s = Some s' \<Longrightarrow> fs_inv s \<Longrightarrow> fs_inv s'"
  by (auto simp: vfs_write_def split: option.splits if_splits elim!: bind_SomeE
      elim!: get_vfile_fs_inv reply_fs_inv vnode_write_fs_inv)

lemma vfs_read_fs_inv: "vfs_read pid f buf n s = Some s' \<Longrightarrow> fs_inv s \<Longrightarrow> fs_inv s'"
  by (auto simp: vfs_read_def split: option.splits if_splits elim!: bind_SomeE
      elim!: get_vfile_fs_inv reply_fs_inv vnode_read_fs_inv)

lemma vfs_flush_fs_inv: "vfs_flush pid f s = Some s' \<Longrightarrow> fs_inv s \<Longrightarrow> fs_inv s'"
  by (auto simp: vfs_flush_def split: option.splits elim!: bind_SomeE
      elim!: get_vfile_fs_inv vnode_flush_fs_inv)

lemma vfs_lseek_fs_inv:
  assumes "vfs_lseek pid f pos whence s = Some s'" and "fs_inv s"
  shows "fs_inv s'"
proof -
  obtain vf s1 where g: "get_vfile pid f True s = Some (vf, s1)"
    using assms by (auto simp: vfs_lseek_def elim!: bind_SomeE)
  have inv: "fs_inv s1"
    using get_vfile_fs_inv [OF g assms(2)] .
  show ?thesis
  proof (cases vf)
    case None
    then show ?thesis
      using assms g inv by (simp add: vfs_lseek_def)
  next
    case (Some i)
    have s1: "s1 = s"
      using get_vfile_SomeD(2) [OF g Some] by simp
    have pos: "fs_inv s2" if "upd_vfile pid i (\<lambda>vf. vf\<lparr>vf_fp := h vf\<rparr>) s = Some s2" for h s2
      using keeps_fs_inv [OF position_keeps [OF _ that] assms(2)] g Some s1 by simp
    then show ?thesis
      using assms g Some s1
      by (auto simp: vfs_lseek_def split: if_splits elim!: bind_SomeE dest!: pos elim!: reply_fs_inv)
  qed
qed

lemma vfs_getdirent_fs_inv: "vfs_getdirent pid pos name n s = Some s' \<Longrightarrow> fs_inv s \<Longrightarrow> fs_inv s'"
  by (auto simp: vfs_getdirent_def nfsfs_getdirent_def body_ok_def split: if_splits sum.splits elim!: bind_SomeE
      elim!: reply_fs_inv submit_fs_inv)

lemma nfsfs_stat_fs_inv: "nfsfs_stat pid a path buf s = Some s' \<Longrightarrow> fs_inv s \<Longrightarrow> fs_inv s'"
  by (auto simp: nfsfs_stat_def body_ok_def split: if_splits elim!: bind_SomeE elim!: reply_fs_inv submit_fs_inv)

lemma nfsfs_remove_fs_inv: "nfsfs_remove pid a path s = Some s' \<Longrightarrow> fs_inv s \<Longrightarrow> fs_inv s'"
  by (auto simp: nfsfs_remove_def body_ok_def split: if_splits elim!: reply_fs_inv submit_fs_inv)

lemma vfs_stat_fs_inv: "vfs_stat pid path buf s = Some s' \<Longrightarrow> fs_inv s \<Longrightarrow> fs_inv s'"
  by (auto simp: vfs_stat_def vnode_stat_op_def console_stat_def split: if_splits vops.splits elim!: bind_SomeE
      elim!: reply_fs_inv nfsfs_stat_fs_inv)

lemma vfs_remove_fs_inv: "vfs_remove pid path s = Some s' \<Longrightarrow> fs_inv s \<Longrightarrow> fs_inv s'"
  by (auto simp: vfs_remove_def vnode_remove_def console_remove_def split: if_splits vops.splits elim!: bind_SomeE
      elim!: reply_fs_inv nfsfs_remove_fs_inv)

section \<open>Opening a file\<close>

text \<open>A vnode that is added is new to the list, and no process uses it.\<close>

lemma refs_unused:
  assumes "vinv procs h g" and "a \<notin> dom h" and "a \<noteq> 0"
  shows "refs m a procs = 0"
proof -
  have "slot_uses m a sl = 0" if mem: "sl \<in> set procs" for sl
  proof (cases sl)
    case (PProc p)
    obtain k where k: "k < 256" "procs ! k = PProc p"
      using mem vinv_length [OF assms(1)] PProc by (auto simp: in_set_conv_nth)
    have len: "length (files p) = 16"
      using vinv_fds_ok [OF assms(1) k] by (simp add: fds_ok_def)
    have "file_use m a vf = 0" if vf: "vf \<in> set (files p)" for vf
      using vf vinv_used [OF assms(1) k] assms(2,3) len by (auto simp: file_use_def in_set_conv_nth)
    then show ?thesis
      by (simp add: slot_uses_def PProc sum_list_eq_0_iff)
  qed (simp_all add: slot_uses_def)
  then show ?thesis
    by (simp add: refs_def sum_list_eq_0_iff)
qed

lemma vinv_add:
  assumes inv: "vinv (sosProcs s) h (GlobalVNodes s)" and a: "h a = None" "a \<noteq> 0"
    and s: "vnodes s = h(a \<mapsto> w)" "readers w = 0" "writers w = 0"
    and eq: "add_vnode a s = Some s'"
  shows "vfs_inv s' \<and> vfs_st.more s' = vfs_st.more s"
proof -
  obtain as where as: "vlist h (GlobalVNodes s) as" "set as = dom h"
    using inv by (auto simp: vinv_def)
  have na: "a \<notin> set as"
    using as a by auto
  have l: "vlist (vnodes s) (GlobalVNodes s) as"
  proof -
    have "vnx (vnodes s) b = vnx h b" "previous (the (vnodes s b)) = previous (the (h b))" if "b \<in> set as" for b
      using that na s(1) by (auto simp: vnx_def)
    then show ?thesis
      using as chain_cong [of as "vnx (vnodes s)" "vnx h" "GlobalVNodes s" 0] prev_ok_cong [of as "vnodes s" h 0] s(1)
      by (auto simp: vlist_def)
  qed
  have v: "vnodes s a = Some w"
    using s(1) by simp
  obtain h' where r: "add_vnode a s = Some (s\<lparr>vnodes := h', GlobalVNodes := a\<rparr>)" "vlist h' a (a # as)"
      "same_payload (vnodes s) h'"
    using add_vnode_spec [OF l v a(2) na] by (elim exE conjE) (rule that)
  have s': "s' = s\<lparr>vnodes := h', GlobalVNodes := a\<rparr>"
    using eq r(1) by simp
  have dm: "dom h' = insert a (dom h)"
    using same_payload_dom [OF r(3)] s(1) by auto
  have "unat (readers u) = refs FM_READ b (sosProcs s) \<and> unat (writers u) = refs FM_WRITE b (sosProcs s)"
    if u: "h' b = Some u" for b u
  proof -
    obtain x where x: "vnodes s b = Some x" "payload u = payload x"
      using same_payload_get [OF r(3) u] .
    show ?thesis
    proof (cases "b = a")
      case True
      then show ?thesis
        using x s payload_fields(5,6) [of u w] refs_unused [OF inv _ a(2)] a(1) by (simp add: domIff)
    next
      case False
      then show ?thesis
        using x s vinv_counts [OF inv, of b x] payload_fields(5,6) [of u x] by simp
    qed
  qed
  moreover have "\<exists>bs. vlist h' a bs \<and> set bs = dom h'"
    using r(2) as dm by (intro exI [of _ "a # as"]) simp
  ultimately show ?thesis
    using inv dm unfolding s' vfs_inv_def vinv_def by auto
qed

text \<open>When the lookup cannot even be queued the new vnode is gone.\<close>

lemma free_vnode_gone: "free_vnode a s = Some s' \<Longrightarrow> a \<noteq> 0 \<Longrightarrow> vnodes s' a = None"
  by (auto simp: free_vnode_def split: if_splits elim!: bind_SomeE)

lemma reply_pid_vnodes: "reply_pid pid st s = Some s' \<Longrightarrow> vnodes s' = vnodes (s :: 'z vfs_st_scheme)"
  by (drule reply_pid_frame) (auto elim!: l4_onlyE)

lemma open_failed_frees:
  assumes "vfs_open_done pid a mode st s = Some s'" and "st \<noteq> SOS_VFS_OK" and "a \<noteq> 0"
    and v: "vnodes s a = Some v" "readers v = 0" "writers v = 0"
  shows "vnodes s' a = None"
proof -
  obtain s1 where "vfs_open_err a s = Some s1" and r: "s' = s1 \<or> reply_pid pid st s1 = Some s'"
    using assms(1,2) by (auto simp: vfs_open_done_def split: if_splits elim!: bind_SomeE)
  then have "vnodes s1 a = None"
    using assms(3) v by (auto simp: vfs_open_err_def elim!: bind_SomeE free_vnode_gone)
  then show ?thesis
    using r by (auto dest!: reply_pid_vnodes)
qed

lemma add_vnode_gone: "vnodes s a = None \<Longrightarrow> add_vnode a s = None"
  by (simp add: add_vnode_def upd_vnode_def)

lemma nfsfs_open_new:
  assumes eq: "nfsfs_open vfs_open_done pid a path mode s = Some s'" and v: "vnodes s a = Some v" and a: "a \<noteq> 0"
    and live: "vnodes s' a \<noteq> None"
  obtains w t rq calls where
    "s' = s\<lparr>vnodes := (vnodes s)(a \<mapsto> w), tok := t, NfsRequests := NfsRequests s @ [rq], nfsCalls := calls\<rparr>"
    and "readers w = 0" and "writers w = 0" and "nr_body rq = RT_LOOKUP mode"
proof -
  let ?v = "v\<lparr>vpath := path, readers := 0, writers := 0, vstat := (vstat v)\<lparr>st_type := ST_FILE\<rparr>, vnext := 0, previous := 0\<rparr>"
  let ?s = "s\<lparr>vnodes := (vnodes s)(a \<mapsto> ?v)\<rparr>"
  let ?w = "?v\<lparr>extra := ExNfs None, vops := OpsNfs\<rparr>"
  have "heapOk s"
  proof (rule ccontr)
    assume "\<not> heapOk s"
    then have "vfs_open_done pid a mode SOS_VFS_NOMEM ?s = Some s'"
      using eq v a by (simp add: nfsfs_open_def new_nfsfile_def upd_vnode_def)
    then show False
      using open_failed_frees [of pid a mode SOS_VFS_NOMEM ?s s' ?v] a live by simp
  qed
  then have "submit (RT_LOOKUP mode) a pid (s\<lparr>vnodes := (vnodes s)(a \<mapsto> ?w)\<rparr>) = Some s'"
    using eq v a by (simp add: nfsfs_open_def new_nfsfile_def upd_vnode_def)
  from submit_frame [OF this] show ?thesis
    by (elim exE conjE) (rule that [where w = ?w]; simp)
qed

lemma open_new_fs_inv:
  assumes inv: "fs_inv s" and a: "vnodes s a = None" "a \<noteq> 0" and m: "mode_ok mode"
    and o: "nfsfs_open vfs_open_done pid a path mode (s\<lparr>vnodes := (vnodes s)(a \<mapsto> v)\<rparr>) = Some s1"
    and ad: "add_vnode a s1 = Some s'"
  shows "fs_inv s'"
proof -
  have live: "vnodes s1 a \<noteq> None"
    using ad add_vnode_gone [of s1 a] by auto
  obtain w t rq calls where s1: "s1 = s\<lparr>vnodes := (vnodes s)(a \<mapsto> w), tok := t,
      NfsRequests := NfsRequests s @ [rq], nfsCalls := calls\<rparr>"
    and w: "readers w = 0" "writers w = 0" and rq: "nr_body rq = RT_LOOKUP mode"
    by (rule nfsfs_open_new [OF o _ a(2) live]) (simp, rule that, simp_all)
  have "vfs_inv s' \<and> vfs_st.more s' = vfs_st.more s1"
    using vinv_add [of s1 "vnodes s" a w s'] inv a w ad s1 by (simp add: fs_inv_def vfs_inv_def)
  then show ?thesis
    using more_requests [of s' s1] inv rq m s1 by (simp add: fs_inv_def body_ok_def)
qed

lemma vfs_open_fs_inv:
  assumes eq: "vfs_open pid pathp mode rds wrs s = Some s'" and inv: "fs_inv s"
    and fresh: "vnode_addr s = 0 \<or> vnodes s (vnode_addr s) = None"
  shows "fs_inv s'"
proof (cases "mode_ok mode")
  case False
  then show ?thesis
    using eq inv by (auto simp: vfs_open_def mode_ok_def split: if_splits elim!: bind_SomeE reply_fs_inv)
next
  case True
  have new: "fs_inv s'" if o: "nfsfs_open vfs_open_done pid (vnode_addr s) path mode
        (s\<lparr>vnodes := (vnodes s)(vnode_addr s \<mapsto> v)\<rparr>) = Some s1"
      "add_vnode (vnode_addr s) s1 = Some s'" "vnode_addr s \<noteq> 0" for path v s1
    using open_new_fs_inv [OF inv _ _ True o(1,2)] o(3) fresh by simp
  have gone: "R" if "reply_pid pid st (s\<lparr>vnodes := (vnodes s)(vnode_addr s := None)\<rparr>) = Some t"
      "vnodes t (vnode_addr s) \<noteq> None" for st t R
    using reply_pid_vnodes [OF that(1)] that(2) by simp
  show ?thesis
    using eq inv True
    by (auto simp: vfs_open_def new_vnode_def upd_vnode_def free_vnode_def Let_def
        split: if_splits option.splits prod.splits elim!: bind_SomeE reply_fs_inv open_done_fs_inv new gone)
qed

section \<open>Closing, duplicating, and input from the serial line\<close>

lemma serial_read_callback_fs_inv:
  assumes "serial_read_callback vfs_read_done c s = Some s'" and "fs_inv s"
  shows "fs_inv s'"
  using assms
  by (auto simp: serial_read_callback_def Let_def split: if_splits elim!: bind_SomeE read_done_fs_inv)

lemma fold_opt_inv:
  "fold_opt f xs s = Some s' \<Longrightarrow> (\<And>x s s'. f x s = Some s' \<Longrightarrow> P s \<Longrightarrow> P s') \<Longrightarrow> P s \<Longrightarrow> P s'"
  by (induction xs arbitrary: s) (auto elim!: bind_SomeE)

lemma serial_recv_fs_inv:
  assumes "serial_recv_handler vfs_read_done data s = Some s'" and "fs_inv s"
  shows "fs_inv s'"
  using assms fold_opt_inv [where P = fs_inv, OF _ serial_read_callback_fs_inv]
  by (auto simp: serial_recv_handler_def split: if_splits elim!: bind_SomeE)

section \<open>New processes\<close>

lemma vinv_new_proc:
  assumes inv: "vinv procs h g" and k: "k < 256" and old: "\<And>p. procs ! k \<noteq> PProc p"
    and q: "ps_pid (info q) = int k" "(fds q, files q) = vfiles_init"
  shows "vinv (procs[k := PProc q]) h g"
proof -
  have u: "slot_uses m a (PProc q) = 0" if "a \<noteq> 0" for m a
    using q(2) that by (auto simp: vfiles_init_def slot_uses_def file_use_def sum_list_eq_0_iff)
  have "slot_uses m a (procs ! k) = 0" for m a
    using old by (auto simp: slot_uses_def split: procslot.split)
  then have r: "refs m a (procs[k := PProc q]) = refs m a procs" if "a \<noteq> 0" for m a
    using u [OF that] k vinv_length [OF inv] by (simp add: refs_def map_update sum_list_update)
  have ok: "fds_ok q"
    using q(2) by (auto simp: vfiles_init_def fds_ok_def)
  have "ps_pid (info p) = int j \<and> fds_ok p \<and> (\<forall>i<16. vf_vnode (files p ! i) \<noteq> 0 \<longrightarrow> vf_vnode (files p ! i) \<in> dom h)"
    if j: "j < 256" and p: "procs[k := PProc q] ! j = PProc p" for j p
  proof (cases "j = k")
    case True
    then have "p = q"
      using p k vinv_length [OF inv] by simp
    then show ?thesis
      using True q ok by (simp add: vfiles_init_def)
  next
    case False
    then have "procs ! j = PProc p"
      using p by simp
    then show ?thesis
      using inv j by (simp add: vinv_def)
  qed
  moreover have "unat (readers v) = refs FM_READ a (procs[k := PProc q]) \<and> unat (writers v) = refs FM_WRITE a (procs[k := PProc q])"
    if "h a = Some v" for a v
    using vinv_counts [OF inv that] r vinv_nonzero [OF inv that] by simp
  moreover have "length (procs[k := PProc q]) = 256" "\<exists>as. vlist h g as \<and> set as = dom h"
    using inv by (simp_all add: vinv_def)
  ultimately show ?thesis
    unfolding vinv_def by blast
qed

lemma addBuiltinRegions_frame:
  "fds (addBuiltinRegions p) = fds p" "files (addBuiltinRegions p) = files p" "info (addBuiltinRegions p) = info p"
  by (simp_all add: addBuiltinRegions_def process_add_region_def Let_def)

lemma process_set_stdin_frame:
  "fds (process_set_stdin f ok p) = fds p" "files (process_set_stdin f ok p) = files p"
  "info (process_set_stdin f ok p) = info p"
  by (simp_all add: process_set_stdin_def)

lemma set_slot_fs_inv:
  assumes "set_slot pid (PProc q) s = Some s'" and "fs_inv s" and "processExists pid u = Some False" "sosProcs u = sosProcs s"
    and "ps_pid (info q) = pid" and "(fds q, files q) = vfiles_init"
  shows "fs_inv s'"
proof -
  have pid: "0 \<le> pid" "nat pid < length (sosProcs s)" and s': "s' = s\<lparr>sosProcs := (sosProcs s)[nat pid := PProc q]\<rparr>"
    using assms(1) by (auto simp: set_slot_def arr_set_def split: if_splits elim!: bind_SomeE)
  have "sosProcs s ! nat pid \<noteq> PProc p" for p
    using assms(3,4) by (auto simp: processExists_def dest!: process_lookup_SomeD elim!: bind_SomeE split: if_splits)
  then have "vinv ((sosProcs s)[nat pid := PProc q]) (vnodes s) (GlobalVNodes s)"
    using assms(2,5,6) pid vinv_length [of "sosProcs s" "vnodes s" "GlobalVNodes s"]
    by (intro vinv_new_proc) (auto simp: fs_inv_def vfs_inv_def)
  then show ?thesis
    using assms(2) s' by (simp add: fs_inv_def vfs_inv_def)
qed

definition same_fs :: "'z nfs_st_scheme \<Rightarrow> 'z nfs_st_scheme \<Rightarrow> bool" where
  "same_fs s t \<longleftrightarrow> sosProcs t = sosProcs s \<and> vnodes t = vnodes s \<and> GlobalVNodes t = GlobalVNodes s \<and>
     NfsRequests t = NfsRequests s"

lemma same_fs_inv: "same_fs s t \<Longrightarrow> fs_inv s \<Longrightarrow> fs_inv t"
  by (simp add: same_fs_def fs_inv_def vfs_inv_def)

lemma getNextPid_same: "getNextPid s = Some (pid, s') \<Longrightarrow> same_fs s s'"
  by (auto simp: getNextPid_def same_fs_def Let_def elim!: bind_SomeE)

lemma openStdFd_same: "same_fs s (openStdFd pid f d m s)"
  by (simp add: openStdFd_def ipc_send_def same_fs_def Let_def)

lemma ipc_send_same: "same_fs s (ipc_send tid l ty ws s)"
  by (simp add: ipc_send_def same_fs_def)

lemma process_prepare2_slot:
  assumes eq: "process_prepare2 p fdout fderr fdin s = Some (q, s')"
  obtains pid u t where "processExists pid u = Some False" and "same_fs s u" and "same_fs u t"
    and "set_slot pid (PProc q) t = Some s'" and "fds q = fds p" and "files q = files p" and "ps_pid (info q) = pid"
proof -
  obtain pid u where u: "(if ps_pid (info p) = NIL_PID then getNextPid s else Some (ps_pid (info p), s)) = Some (pid, u)"
    and ex: "processExists pid u = Some False"
    using eq by (auto simp: process_prepare2_def Let_def split: if_splits elim!: bind_SomeE)
  have su: "same_fs s u"
    using u by (auto simp: same_fs_def dest: getNextPid_same split: if_splits)
  let ?p = "p\<lparr>info := (info p)\<lparr>ps_pid := pid\<rparr>\<rparr>"
  show ?thesis
  proof (cases "ps_type (info p) = PS_TYPE_ROOTTHREAD")
    case True
    have "pid \<noteq> NIL_PID"
      using ex by (auto simp: processExists_def process_lookup_def elim!: bind_SomeE split: if_splits)
    with True have "set_slot pid (PProc ?p) u = Some s'" "q = ?p"
      using eq u ex by (auto simp: process_prepare2_def Let_def elim!: bind_SomeE)
    then show ?thesis
      using that [OF ex su, of u] by (simp add: same_fs_def)
  next
    case False
    define v where "v = openStdFd pid fdout STDOUT_FN FM_WRITE u"
    define t where "t same = (if same then ipc_send L4_rootserver PSOS_DUP SOS_IPC_SEND
        [word_of_int stdout_fd, word_of_int stderr_fd, word_of_int pid] v
      else openStdFd pid fderr STDOUT_FN FM_WRITE v)" for same
    define r where "r same = (case fdin of None \<Rightarrow> addBuiltinRegions ?p
      | Some f \<Rightarrow> process_set_stdin f (heapOk (t same)) (addBuiltinRegions ?p))" for same
    have "pid \<noteq> NIL_PID"
      using ex by (auto simp: processExists_def process_lookup_def elim!: bind_SomeE split: if_splits)
    with False have "(if fdout = None \<and> fderr = None then Some True else do { a \<leftarrow> fdout; b \<leftarrow> fderr; Some (a = b) }) \<bind>
        (\<lambda>same. set_slot pid (PProc (r same)) (t same) \<bind> (\<lambda>s. Some (r same, s))) = Some (q, s')"
      using eq unfolding process_prepare2_def r_def t_def v_def u Let_def by (simp add: ex)
    then obtain same where s': "set_slot pid (PProc (r same)) (t same) = Some s'" and q: "q = r same"
      by (auto elim!: bind_SomeE)
    have "same_fs u v"
      unfolding v_def by (rule openStdFd_same)
    then have "same_fs u (t same)"
      using openStdFd_same [of v pid fderr] ipc_send_same [of v] by (simp add: t_def same_fs_def)
    moreover have "fds q = fds p" "files q = files p" "ps_pid (info q) = pid"
      unfolding q r_def by (simp_all add: addBuiltinRegions_frame process_set_stdin_frame split: option.split)
    ultimately show ?thesis
      using that [OF ex su, of "t same"] s' q by simp
  qed
qed

lemma process_prepare2_fs_inv:
  assumes eq: "process_prepare2 p fdout fderr fdin s = Some (q, s')" and inv: "fs_inv s"
    and p: "(fds p, files p) = vfiles_init"
  shows "fs_inv s'"
proof (rule process_prepare2_slot [OF eq])
  fix pid u t
  assume a: "processExists pid u = Some False" "same_fs s u" "same_fs u t" "set_slot pid (PProc q) t = Some s'"
    "fds q = fds p" "files q = files p" "ps_pid (info q) = pid"
  show "fs_inv s'"
    using set_slot_fs_inv [OF a(4) _ a(1) _ a(7)] same_fs_inv [OF a(3) same_fs_inv [OF a(2) inv]] a p
    by (simp add: same_fs_def)
qed

lemma upd_proc_fs_inv:
  assumes "upd_proc pid f s = Some s'" and "fs_inv s"
    and "\<And>p. fds (f p) = fds p \<and> files (f p) = files p \<and> ps_pid (info (f p)) = ps_pid (info p)"
  shows "fs_inv s'"
proof (rule upd_proc_SomeD [OF assms(1)])
  fix p
  assume a: "0 \<le> pid" "nat pid < length (sosProcs s)" "sosProcs s ! nat pid = PProc p"
    "s' = s\<lparr>sosProcs := (sosProcs s)[nat pid := PProc (f p)]\<rparr>"
  have inv: "vinv (sosProcs s) (vnodes s) (GlobalVNodes s)"
    using assms(2) by (simp add: fs_inv_def vfs_inv_def)
  have "vinv ((sosProcs s)[nat pid := PProc (f p)]) (vnodes s) (GlobalVNodes s)"
    using vinv_proc [OF inv _ a(3), of "f p"] assms(3) [of p] a(2) vinv_length [OF inv] by simp
  then show ?thesis
    using a(4) assms(2) by (simp add: fs_inv_def vfs_inv_def)
qed

lemma process_init_same:
  assumes "process_init ty s = Some (p, s')"
  shows "same_fs s s' \<and> (fds p, files p) = vfiles_init"
  using assms by (auto simp: process_init_def processAlloc_def pagetable_init_def frame_alloc_def same_fs_def Let_def
      sos_get_new_tid_disable_def split: if_splits elim!: bind_SomeE)

lemma frame_alloc_same: "frame_alloc r s = (a, s') \<Longrightarrow> same_fs s s'"
  by (auto simp: frame_alloc_def same_fs_def Let_def split: if_splits)

lemma processRunPriority_fs_inv:
  assumes eq: "processRunPriority pid ts prio s = Some (tid, s')" and inv: "fs_inv s"
  shows "fs_inv s'"
proof -
  have l4: "fs_inv (t\<lparr>l4 := tr\<rparr>) = fs_inv t" "fs_inv (t\<lparr>last_thread_s := n\<rparr>) = fs_inv t" for t :: "'a nfs_st_scheme" and tr n
    by (simp_all add: fs_inv_def vfs_inv_def)
  show ?thesis
    using eq inv
    by (auto simp: processRunPriority_def sos_thread_new_priority_def sos_task_new_def sos_get_new_tid_def l4_do_def
        process_set_state_def l4 Let_def split: if_splits elim!: bind_SomeE upd_proc_fs_inv)
qed

lemma process_run_rootthread_fs_inv:
  assumes eq: "process_run_rootthread name entry ts prio s = Some (pid, s')" and inv: "fs_inv s"
  shows "fs_inv s'"
proof -
  obtain p s1 q s2 s3 s4 stack s5 s6 tid where s1: "process_init PS_TYPE_ROOTTHREAD s = Some (p, s1)"
    and s2: "process_prepare p s1 = Some (q, s2)"
    and s3: "upd_proc (ps_pid (info q)) (process_set_name name) s2 = Some s3"
    and s4: "upd_proc (ps_pid (info q)) (process_set_ip entry) s3 = Some s4"
    and s5: "frame_alloc FA_STACK s4 = (stack, s5)"
    and s6: "upd_proc (ps_pid (info q)) (process_set_sp (stack + PAGESIZE - 4)) s5 = Some s6"
    and s': "processRunPriority (ps_pid (info q)) ts prio s6 = Some (tid, s')"
    using eq unfolding process_run_rootthread_def Let_def by (auto elim!: bind_SomeE split: prod.splits)
  have "fs_inv s2"
    using s2 process_init_same [OF s1] same_fs_inv [of s s1] inv
    by (auto simp: process_prepare_def elim!: process_prepare2_fs_inv)
  then have "fs_inv s4"
    using upd_proc_fs_inv [OF s3] upd_proc_fs_inv [OF s4] by (simp add: process_set_name_def process_set_ip_def)
  then have "fs_inv s6"
    using upd_proc_fs_inv [OF s6] same_fs_inv [OF frame_alloc_same [OF s5]] by (simp add: process_set_sp_def)
  then show ?thesis
    by (rule processRunPriority_fs_inv [OF s'])
qed

section \<open>Boot\<close>

text \<open>Before \<^verbatim>\<open>vfs_init\<close>: no vnode, and no process has a file.\<close>

definition fs_boot :: "'z vfs_st_scheme \<Rightarrow> bool" where
  "fs_boot s \<longleftrightarrow> length (sosProcs s) = 256 \<and>
     (\<forall>k<256. case sosProcs s ! k of PProc p \<Rightarrow> ps_pid (info p) = int k \<and> (fds p, files p) = vfiles_init | _ \<Rightarrow> True) \<and>
     vnodes s = Map.empty \<and> GlobalVNodes s = 0"

lemma fs_boot_vinv: "fs_boot s \<Longrightarrow> vinv (sosProcs s) Map.empty 0"
  unfolding vinv_def
proof (intro conjI allI impI)
  fix k p
  assume a: "fs_boot s" "k < 256" "sosProcs s ! k = PProc p"
  then have q: "ps_pid (info p) = int k" "(fds p, files p) = vfiles_init"
    by (force simp: fs_boot_def)+
  then show "ps_pid (info p) = int k" "fds_ok p"
    by (auto simp: vfiles_init_def fds_ok_def)
  fix i :: nat
  assume "i < 16" "vf_vnode (files p ! i) \<noteq> 0"
  then show "vf_vnode (files p ! i) \<in> dom Map.empty"
    using q by (simp add: vfiles_init_def)
next
  show "\<exists>as. vlist Map.empty 0 as \<and> set as = dom (Map.empty :: u32 \<rightharpoonup> VNode)"
    by (rule exI [of _ "[]"]) (simp add: vlist_def)
qed (simp_all add: fs_boot_def)

lemma fs_boot_console:
  assumes boot: "fs_boot s" and a: "a \<noteq> 0" and v: "readers v = 0" "writers v = 0" "previous v = 0" "vnext v = 0"
  shows "vinv (sosProcs s) [a \<mapsto> v] a"
proof -
  let ?s = "s\<lparr>vnodes := [a \<mapsto> v]\<rparr>"
  have g: "GlobalVNodes s = 0" "vnodes s = Map.empty"
    using boot by (simp_all add: fs_boot_def)
  have "v\<lparr>vnext := 0, previous := 0\<rparr> = v"
    using v by (cases v) simp
  then have "add_vnode a ?s = Some (?s\<lparr>GlobalVNodes := a\<rparr>)"
    using g by (simp add: add_vnode_def upd_vnode_def)
  from vinv_add [OF _ _ a _ _ _ this, of Map.empty v] show ?thesis
    using fs_boot_vinv [OF boot] g v by (simp add: vfs_inv_def)
qed

lemma vfs_init_fs_inv:
  assumes boot: "fs_boot s" and eq: "vfs_init th s = Some s'"
  shows "fs_inv s'"
proof -
  define v where "v = \<lparr>vpath = ''console'', vstat = CONSOLE_STAT, Max_Readers = 1, Max_Writers = FM_UNLIMITED_RW,
        readers = 0, writers = 0, extra = ExConsole, previous = 0, vnext = 0, vops = OpsConsole\<rparr>"
  have g: "GlobalVNodes s = 0" "vnodes s = Map.empty"
    using boot by (simp_all add: fs_boot_def)
  have a: "vnode_addr s \<noteq> 0"
    using eq by (auto simp: vfs_init_def console_init_def Let_def split: if_splits)
  obtain s1 pid where s1: "sosProcs s1 = sosProcs s" "vnodes s1 = [vnode_addr s \<mapsto> v]" "GlobalVNodes s1 = vnode_addr s"
      "NfsRequests s1 = []"
    and s': "process_run_rootthread ''nfs_timeout'' th True 0 s1 = Some (pid, s')"
    using eq a g unfolding v_def
    by (auto simp: vfs_init_def console_init_def nfsfs_init_def network_register_serialhandler_def Let_def
        split: if_splits elim!: bind_SomeE) (rule that [rotated 4], assumption, simp_all add: v_def)+
  have "vinv (sosProcs s) [vnode_addr s \<mapsto> v] (vnode_addr s)"
    by (rule fs_boot_console [OF boot a]) (simp_all add: v_def)
  then have "fs_inv s1"
    using s1 by (simp add: fs_inv_def vfs_inv_def)
  then show ?thesis
    by (rule process_run_rootthread_fs_inv [OF s'])
qed

section \<open>The file system as a transition system\<close>

text \<open>
  One step is a system call of a process, an answer of the NFS server, input on the serial line, a
  new process, or a change of what the environment decides: the results of the next allocations, the
  contents of the buffers, whether packets leave the machine. Three things are assumed of a step. It
  completes: a call that would use a freed vnode, pass a null pointer or fail an assertion has no
  result in the model and is no step (\<^verbatim>\<open>vfs_open\<close> does so when the limits of a new vnode refuse its first
  user, since it goes on with the vnode it has just freed). A new vnode is allocated where none is. And
  no process duplicates a descriptor onto itself, which breaks the count of the file, as is shown below.
\<close>

inductive fs_step :: "'z nfs_st_scheme \<Rightarrow> 'z nfs_st_scheme \<Rightarrow> bool" where
  st_open: "vfs_open pid pathp mode rds wrs s = Some s' \<Longrightarrow>
    vnode_addr s = 0 \<or> vnodes s (vnode_addr s) = None \<Longrightarrow> fs_step s s'"
| st_close: "vfs_close pid f s = Some s' \<Longrightarrow> fs_step s s'"
| st_read: "vfs_read pid f buf n s = Some s' \<Longrightarrow> fs_step s s'"
| st_write: "vfs_write pid f buf n s = Some s' \<Longrightarrow> fs_step s s'"
| st_flush: "vfs_flush pid f s = Some s' \<Longrightarrow> fs_step s s'"
| st_lseek: "vfs_lseek pid f pos whence s = Some s' \<Longrightarrow> fs_step s s'"
| st_getdirent: "vfs_getdirent pid dpos name n s = Some s' \<Longrightarrow> fs_step s s'"
| st_stat: "vfs_stat pid pathp buf s = Some s' \<Longrightarrow> fs_step s s'"
| st_remove: "vfs_remove pid pathp s = Some s' \<Longrightarrow> fs_step s s'"
| st_dup: "vfs_dup pid f g s = Some s' \<Longrightarrow> f \<noteq> g \<Longrightarrow> fs_step s s'"
| st_lookup_cb: "lookup_cb vfs_open_done t st fh attr s = Some s' \<Longrightarrow> fs_step s s'"
| st_read_cb: "read_cb vfs_read_done t st attr data s = Some s' \<Longrightarrow> fs_step s s'"
| st_write_cb: "write_cb vfs_write_done t st attr s = Some s' \<Longrightarrow> fs_step s s'"
| st_getdirent_cb: "getdirent_cb t st num names ck s = Some s' \<Longrightarrow> fs_step s s'"
| st_stat_cb: "stat_cb t st fh attr s = Some s' \<Longrightarrow> fs_step s s'"
| st_remove_cb: "remove_cb t st s = Some s' \<Longrightarrow> fs_step s s'"
| st_serial: "serial_recv_handler vfs_read_done data s = Some s' \<Longrightarrow> fs_step s s'"
| st_process: "process_prepare2 p fdout fderr fdin s = Some (q, s') \<Longrightarrow> (fds p, files p) = vfiles_init \<Longrightarrow> fs_step s s'"
| st_rootthread: "process_run_rootthread name entry ts prio s = Some (p', s') \<Longrightarrow> fs_step s s'"
| st_env: "fs_step s (s\<lparr>copyInOutBuffer := b, heapOk := ok, vnode_addr := va, vnode_stat := vs, rq_addr := ra, udpOk := u\<rparr>)"

lemma fs_step_inv: "fs_step s s' \<Longrightarrow> fs_inv s \<Longrightarrow> fs_inv s'"
proof (induction rule: fs_step.induct)
  case (st_env s b ok va vs ra u)
  then show ?case
    by (simp add: fs_inv_def vfs_inv_def)
qed (auto elim: vfs_open_fs_inv vfs_read_fs_inv vfs_write_fs_inv vfs_flush_fs_inv vfs_lseek_fs_inv
    vfs_getdirent_fs_inv vfs_stat_fs_inv vfs_remove_fs_inv lookup_cb_fs_inv read_cb_fs_inv write_cb_fs_inv
    getdirent_cb_fs_inv stat_cb_fs_inv remove_cb_fs_inv serial_recv_fs_inv process_prepare2_fs_inv process_run_rootthread_fs_inv
    keeps_fs_inv [OF vfs_close_keeps] keeps_fs_inv [OF vfs_dup_keeps])


text \<open>
  C1. Let \<^verbatim>\<open>vfs_init\<close> have run on the empty table of vnodes, and let any sequence of system calls, of
  answers of the NFS server in any order, of input lines and of new processes follow, with allocations
  failing at any time, in which every call completes, no descriptor is duplicated onto itself and
  new vnodes are allocated at unused addresses. Then the tables of the file system are consistent:
  every file a process has open refers to a vnode in memory, the reference count of a file is the
  number of descriptors that name it, the doubly linked list holds exactly the vnodes in memory, and
  the counts of readers and writers of a vnode are the numbers of files open on it for reading and
  for writing, without wrapping around. Every queued lookup asks to read or to write.
\<close>

theorem fs_consistent:
  assumes "fs_boot s0" and "vfs_init th s0 = Some s" and "fs_step\<^sup>*\<^sup>* s s'"
  shows "fs_inv s'"
  using assms(3)
proof (induction rule: rtranclp_induct)
  case base
  show ?case
    by (rule vfs_init_fs_inv [OF assms(1,2)])
next
  case (step t t')
  then show ?case
    using fs_step_inv by blast
qed

section \<open>Duplicating a descriptor onto itself\<close>

lemma reply_pid_succeeds:
  assumes "0 \<le> pid" and "nat pid < length (sosProcs s)" and "sosProcs s ! nat pid = PProc p" and "ps_pid (info p) = pid"
  shows "\<exists>tr. reply_pid pid st s = Some (s\<lparr>l4 := tr\<rparr>)"
proof -
  have "\<exists>tr. s = s\<lparr>l4 := tr\<rparr>"
    by (rule exI [of _ "l4 s"]) simp
  then show ?thesis
    using assms by (auto simp: reply_pid_def process_lookup_def process_get_tid_def syscall_reply_def syscall_reply_v_def
        l4_do_def ipc_send_def Let_def)
qed

text \<open>A file with more than one descriptor stays open when one of them is closed.\<close>

lemma vfs_close_shared:
  assumes inv: "vfs_inv s" and k: "0 \<le> pid" "nat pid < length (sosProcs s)" "sosProcs s ! nat pid = PProc p"
    and j: "j < 19" "fds p ! j = int i" and i: "i < 16" "vf_vnode (files p ! i) \<noteq> 0" and c: "1 < count_list (fds p) (int i)"
  shows "\<exists>tr. vfs_close pid (int j) s = Some (s\<lparr>sosProcs := (sosProcs s)[nat pid := PProc (drop_file j i p)], l4 := tr\<rparr>)"
proof -
  let ?a = "vf_vnode (files p ! i)"
  have inv': "vinv (sosProcs s) (vnodes s) (GlobalVNodes s)"
    using inv by (simp add: vfs_inv_def)
  have k': "nat pid < 256"
    using k vinv_length [OF inv'] by simp
  have ok: "fds_ok p" and len: "length (fds p) = 19" "length (files p) = 16" and pid: "ps_pid (info p) = pid"
    using inv' k k' by (auto simp: vinv_def fds_ok_def)
  note u = fds_ok_used [OF ok i]
  obtain v where v: "vnodes s ?a = Some v"
    using vinv_used [OF inv' k' k(3) i] by blast
  have "vf_ref (files p ! i) - 1 \<noteq> 0"
    using u c by auto
  then have cs: "closed_state pid j i p v s = s\<lparr>sosProcs := (sosProcs s)[nat pid := PProc (drop_file j i p)]\<rparr>"
    by (simp add: closed_state_def)
  have use: "vf_fmode (files p ! i) AND m \<noteq> 0 \<Longrightarrow> 0 < refs m ?a (sosProcs s)" for m
    using file_use_le_slot [of i p m ?a] slot_uses_le_refs [OF k(2), of m ?a] k(3) i(1) len by (simp add: file_use_def)
  have "\<not> (readers v = 0 \<and> writers v = 0)"
    using use [of FM_READ] use [of FM_WRITE] u vinv_counts [OF inv' v] by auto
  then have "vfs_close pid (int j) s = reply_pid pid SOS_VFS_OK (s\<lparr>sosProcs := (sosProcs s)[nat pid := PProc (drop_file j i p)]\<rparr>)"
    using vfs_close_run [OF k j(1) _ j(2) i(1) _ i(2) v] len j i v by (auto simp: cs Let_def)
  moreover have "ps_pid (info (drop_file j i p)) = pid"
    using pid by (simp add: drop_file_def)
  ultimately show ?thesis
    using reply_pid_succeeds [of pid "s\<lparr>sosProcs := (sosProcs s)[nat pid := PProc (drop_file j i p)]\<rparr>"] k by simp
qed

lemma vfs_dup_self:
  assumes inv: "vfs_inv s" and k: "0 \<le> pid" "nat pid < length (sosProcs s)" "sosProcs s ! nat pid = PProc p"
    and j: "j < 19" "fds p ! j = int i" and c: "1 < count_list (fds p) (int i)"
  shows "\<exists>s' q. vfs_dup pid (int j) (int j) s = Some s' \<and> sosProcs s' = (sosProcs s)[nat pid := PProc q] \<and>
    fds q = (fds p)[j := VFS_NIL_FILE] \<and> vf_vnode (files q ! i) \<noteq> 0 \<and> vf_ref (files q ! i) = vf_ref (files p ! i)"
proof -
  have inv': "vinv (sosProcs s) (vnodes s) (GlobalVNodes s)"
    using inv by (simp add: vfs_inv_def)
  have k': "nat pid < 256"
    using k vinv_length [OF inv'] by simp
  have ok: "fds_ok p" and len: "length (fds p) = 19" "length (files p) = 16" and pid: "ps_pid (info p) = pid"
    using inv' k k' by (auto simp: vinv_def fds_ok_def)
  have "int i \<in> set (fds p)"
    using j len by (metis nth_mem)
  then have i: "i < 16" "vf_vnode (files p ! i) \<noteq> 0"
    using ok by (auto simp: fds_ok_def)
  have g: "get_vfile pid (int j) ipc s = Some (Some i, s)" for ipc
    using k j i len by (simp add: get_vfile_def process_lookup_def process_get_tid_def)
  let ?flt = "process_get_ipcfilt p"
  define p1 where "p1 = snd (process_set_ipcfilt PS_IPC_NONE p)"
  have p1: "fds p1 = fds p" "files p1 = files p" "ps_pid (info p1) = pid"
    using pid by (simp_all add: p1_def process_set_ipcfilt_def)
  let ?s1 = "s\<lparr>sosProcs := (sosProcs s)[nat pid := PProc p1]\<rparr>"
  have s1: "upd_proc pid (\<lambda>p. snd (process_set_ipcfilt PS_IPC_NONE p)) s = Some ?s1"
    using upd_proc_eq [OF k] by (simp add: p1_def)
  have "vfs_inv ?s1"
    using ipcfilt_keeps [OF s1] inv by (simp add: keeps_def)
  moreover have "nat pid < length (sosProcs ?s1)" "sosProcs ?s1 ! nat pid = PProc p1"
    using k by simp_all
  ultimately have "\<exists>tr. vfs_close pid (int j) ?s1 = Some (?s1\<lparr>sosProcs := (sosProcs ?s1)[nat pid := PProc (drop_file j i p1)], l4 := tr\<rparr>)"
    using k(1) j i c p1 by (intro vfs_close_shared) simp_all
  then obtain tr where
    s2: "vfs_close pid (int j) ?s1 = Some (?s1\<lparr>sosProcs := (sosProcs s)[nat pid := PProc (drop_file j i p1)], l4 := tr\<rparr>)"
    by (elim exE) (rule that, simp)
  let ?s2 = "?s1\<lparr>sosProcs := (sosProcs s)[nat pid := PProc (drop_file j i p1)], l4 := tr\<rparr>"
  have s2p: "sosProcs ?s2 ! nat pid = PProc (drop_file j i p1)" "nat pid < length (sosProcs ?s2)"
    using k by simp_all
  define p3 where "p3 = snd (process_set_ipcfilt ?flt (drop_file j i p1))"
  have p3: "fds p3 = (fds p)[j := VFS_NIL_FILE]" "files p3 = (files p)[i := (files p ! i)\<lparr>vf_ref := vf_ref (files p ! i) - 1\<rparr>]"
      "ps_pid (info p3) = pid"
    using p1 by (simp_all add: p3_def process_set_ipcfilt_def drop_file_def)
  let ?s3 = "?s2\<lparr>sosProcs := (sosProcs s)[nat pid := PProc p3]\<rparr>"
  have s3: "upd_proc pid (\<lambda>p. snd (process_set_ipcfilt ?flt p)) ?s2 = Some ?s3"
    using upd_proc_eq [OF k(1) s2p(2,1)] by (simp add: p3_def)
  have "p3\<lparr>fds := (fds p3)[j := VFS_NIL_FILE]\<rparr> = p3"
    using p3(1) by (cases p3) simp
  moreover have "sosProcs ?s3 ! nat pid = PProc p3" "nat pid < length (sosProcs ?s3)" "j < length (fds p3)"
    using k j len p3(1) by simp_all
  ultimately have s4: "set_fd pid (int j) VFS_NIL_FILE ?s3 = Some ?s3"
    using set_fd_eq [of pid ?s3 p3 j VFS_NIL_FILE, OF k(1)] by simp
  define q where "q = p3\<lparr>files := (files p3)[i := (files p3 ! i)\<lparr>vf_ref := vf_ref (files p3 ! i) + 1\<rparr>]\<rparr>"
  let ?s5 = "?s3\<lparr>sosProcs := (sosProcs s)[nat pid := PProc q]\<rparr>"
  have s5: "upd_vfile pid i (\<lambda>vf. vf\<lparr>vf_ref := vf_ref vf + 1\<rparr>) ?s3 = Some ?s5"
    using upd_vfile_eq [of pid ?s3 p3 i] k i len p3 by (simp add: q_def)
  obtain tr' where s6: "reply_pid pid (int j) ?s5 = Some (?s5\<lparr>l4 := tr'\<rparr>)"
    using reply_pid_succeeds [of pid ?s5 q "int j"] k p3(3) by (auto simp: q_def)
  have "vfs_dup pid (int j) (int j) s = Some (?s5\<lparr>l4 := tr'\<rparr>)"
    using g s1 s2 s3 s4 s5 s6 k j i p3 len by (simp add: vfs_dup_def process_lookup_def Let_def)
  then show ?thesis
    using p3 i len by (intro exI [of _ "?s5\<lparr>l4 := tr'\<rparr>"] exI [of _ q]) (simp add: q_def)
qed

text \<open>
  C27. Duplicating a descriptor onto itself breaks the reference count. When a process has a file open
  under two or more descriptors and calls \<^verbatim>\<open>vfs_dup\<close> with one of them as source and target, that
  descriptor is closed, and the count of the file stays as it was: it is one more than the number of
  descriptors that are left, so the invariant of the file system no longer holds.
\<close>

theorem dup_onto_itself:
  assumes "fs_inv s" and "0 \<le> pid" and "pid < 256" and "sosProcs s ! nat pid = PProc p" and "j < 19" and "fds p ! j = int i"
    and "1 < count_list (fds p) (int i)"
  shows "\<exists>s' q. vfs_dup pid (int j) (int j) s = Some s' \<and> sosProcs s' ! nat pid = PProc q \<and> fds q ! j = VFS_NIL_FILE \<and>
    unat (vf_ref (files q ! i)) = count_list (fds q) (int i) + 1 \<and> \<not> fs_inv s'"
proof -
  have inv: "vfs_inv s" and inv': "vinv (sosProcs s) (vnodes s) (GlobalVNodes s)"
    using assms(1) by (simp_all add: fs_inv_def vfs_inv_def)
  have k: "nat pid < length (sosProcs s)" "nat pid < 256"
    using assms(2,3) vinv_length [OF inv'] by simp_all
  have ok: "fds_ok p" "length (fds p) = 19"
    using vinv_fds_ok [OF inv' k(2) assms(4)] by (simp_all add: fds_ok_def)
  then have "int i \<in> set (fds p)"
    using assms(5,6) by (metis nth_mem)
  then have i: "i < 16" "vf_vnode (files p ! i) \<noteq> 0"
    using ok(1) by (auto simp: fds_ok_def)
  obtain s' q where s': "vfs_dup pid (int j) (int j) s = Some s'" "sosProcs s' = (sosProcs s)[nat pid := PProc q]"
      "fds q = (fds p)[j := VFS_NIL_FILE]" "vf_vnode (files q ! i) \<noteq> 0" "vf_ref (files q ! i) = vf_ref (files p ! i)"
    using vfs_dup_self [OF inv assms(2) k(1) assms(4-7)] by (elim exE conjE) (rule that)
  have n: "unat (vf_ref (files q ! i)) = count_list (fds q) (int i) + 1"
    using fds_ok_used [OF ok(1) i] s'(3,5) count_list_update [of j "fds p" VFS_NIL_FILE "int i"] assms(5,6) ok(2) by simp
  have "\<not> fds_ok q"
    using n fds_ok_used [of q i] i(1) s'(4) by auto
  then have "\<not> fs_inv s'"
    using s'(2) k by (auto simp: fs_inv_def vfs_inv_def vinv_def)
  then show ?thesis
    using s' n k assms(5) ok(2) by (intro exI [of _ s'] exI [of _ q]) simp
qed

section \<open>Examples\<close>

definition fs_example :: nfs_st where
  "fs_example = console_st.extend (vfs_st.extend
     (proc_st.extend (procs_example\<lparr>firstFree := 0x1000, totalFrames := 2\<rparr>)
       (vfs_st.fields Map.empty 0 64 CONSOLE_STAT (\<lambda>_. CONSOLE_STAT)))
     (console_st.fields \<lparr>cf_vnode = 0,
        reader = \<lparr>rq_pid = NIL_PID, rq_file = 0, rq_buf = 0, rq_nbyte = 0, rq_rbyte = 0\<rparr>,
        cf_buf = (\<lambda>_. NUL), buf_used = 0\<rparr> True False [] True))
     (nfs_st.fields [] 0 128 [])"

lemmas fs_example_defs = fs_example_def vfs_st.defs proc_st.defs console_st.defs nfs_st.defs procs_example_def

text \<open>Processes that use the console: \<open>w\<close> files of them are open on its vnode, and \<open>out\<close> is what it has sent.\<close>

definition console_vnode :: "u32 \<Rightarrow> VNode" where
  "console_vnode w = \<lparr>vpath = ''console'', vstat = CONSOLE_STAT, Max_Readers = 1, Max_Writers = FM_UNLIMITED_RW, readers = 0,
     writers = w, extra = ExConsole, previous = 0, vnext = 0, vops = OpsConsole\<rparr>"

definition no_file :: VFile where
  "no_file = \<lparr>vf_vnode = 0, vf_fmode = 0, vf_fp = 0, vf_ref = 1\<rparr>"

definition con_file :: "u32 \<Rightarrow> VFile" where
  "con_file n = \<lparr>vf_vnode = 64, vf_fmode = FM_WRITE, vf_fp = 0, vf_ref = n\<rparr>"

definition con_state :: "int \<Rightarrow> int list \<Rightarrow> VFile list \<Rightarrow> u32 \<Rightarrow> char list list \<Rightarrow> 'z nfs_st_scheme \<Rightarrow> bool" where
  "con_state pid ds fs w out s \<longleftrightarrow> 0 < pid \<and> nat pid < length (sosProcs s) \<and>
     (\<exists>p. sosProcs s ! nat pid = PProc p \<and> ps_pid (info p) = pid \<and> ps_state (info p) = PS_STATE_ALIVE \<and>
       ipc_accept (info p) = PS_IPC_ALL \<and> fin p = None \<and> fds p = ds \<and> files p = fs) \<and>
     vnodes s = [64 \<mapsto> console_vnode w] \<and> GlobalVNodes s = 64 \<and>
     serial s \<and> udpOk s \<and> buf_used (console_file s) = 0 \<and> serialOut s = out"

lemma first_index_0: "xs \<noteq> [] \<Longrightarrow> P (xs ! 0) \<Longrightarrow> first_index P xs = 0"
  by (cases xs) (simp_all add: first_index_def upt_conv_Cons del: upt_Suc)

lemmas con_eval = con_state_def console_vnode_def no_file_def con_file_def process_lookup_def Let_def upd_vfile_eq set_fd_def upd_proc_eq
  get_vfile_def vfile_at_def reply_pid_def process_get_tid_def syscall_reply_def syscall_reply_v_def process_get_ipcfilt_def
  process_get_state_def l4_do_def ipc_send_def

lemma con_open:
  assumes "con_state pid (replicate 19 (- 1)) (replicate 16 no_file) 0 out s" and "cstr (copyInOutBuffer s) buf = Some ''console''"
  shows "\<exists>s'. vfs_open pid buf FM_WRITE FM_UNLIMITED_RW FM_UNLIMITED_RW s = Some s' \<and> copyInOutBuffer s' = copyInOutBuffer s \<and>
    con_state pid ((replicate 19 (- 1))[0 := 0]) ((replicate 16 no_file)[0 := con_file 1]) 1 out s'"
proof -
  have v: "vnodes s = [64 \<mapsto> console_vnode 0]"
    using assms(1) by (simp add: con_state_def)
  then have "find_vnode ''console'' s = Some 64"
    using assms(1) by (simp add: con_state_def find_vnode_def find_vnode_loop.simps console_vnode_def)
  then show ?thesis
    using assms v
    by (auto simp: con_eval vfs_open_def findNextFd_alias_def first_index_0 
        vfs_open_done_def increase_refs_def findNextFd_def process_get_stdin_def)
qed

lemma con_write:
  assumes "con_state pid ((replicate 19 (- 1))[0 := 0]) ((replicate 16 no_file)[0 := con_file 1]) 1 [] s"
    and "copyInOutBuffer s buf = CHR ''h''" "copyInOutBuffer s (Suc buf) = CHR ''i''" "copyInOutBuffer s (Suc (Suc buf)) = newline"
  shows "\<exists>s'. vfs_write pid 0 buf 3 s = Some s' \<and>
    con_state pid ((replicate 19 (- 1))[0 := 0]) ((replicate 16 no_file)[0 := con_file 1]) 1 [''hi'' @ [newline, NUL]] s'"
  using assms
  by (auto simp: con_eval vfs_write_def IO_MAX_BUFFER_def vnode_write_def console_write_def console_of_def send_loop.simps
     fill_loop.simps console__flush_def network_sendstring_def serial_send_def serial_pad_def pending_def upt_rec vfs_write_done_def)

lemma con_dup:
  assumes "con_state pid ((replicate 19 (- 1))[0 := 0]) ((replicate 16 no_file)[0 := con_file 1]) 1 out s"
  shows "\<exists>s'. vfs_dup pid 0 1 s = Some s' \<and>
    con_state pid ((replicate 19 (- 1))[0 := 0, 1 := 0]) ((replicate 16 no_file)[0 := con_file 2]) 1 out s'"
  using assms by (auto simp: con_eval vfs_dup_def)

lemma con_close_first:
  assumes "con_state pid ((replicate 19 (- 1))[0 := 0, 1 := 0]) ((replicate 16 no_file)[0 := con_file 2]) 1 out s"
  shows "\<exists>s'. vfs_close pid 0 s = Some s' \<and>
    con_state pid ((replicate 19 (- 1))[0 := 0, 1 := 0, 0 := -1]) ((replicate 16 no_file)[0 := con_file 1]) 1 out s'"
  using assms by (auto simp: con_eval vfs_close_def)

lemma con_close_last:
  assumes "con_state pid ((replicate 19 (- 1))[0 := 0, 1 := 0, 0 := -1]) ((replicate 16 no_file)[0 := con_file 1]) 1 out s"
  shows "\<exists>s'. vfs_close pid 1 s = Some s' \<and>
    con_state pid ((replicate 19 (- 1))[0 := 0, 1 := 0, 0 := -1, 1 := -1]) ((replicate 16 no_file)[0 := no_file\<lparr>vf_ref := 0\<rparr>]) 0 out s'"
  using assms by (auto simp: con_eval vfs_close_def upd_vnode_def decrease_refs_def vnode_close_def console_close_def vfs_close_done_def)

text \<open>Booting, and then a process that opens the console, writes to it, and duplicates and closes the descriptor.\<close>

definition console_input :: "nat \<Rightarrow> char" where
  "console_input = buf_memcpy 163840 (''console'' @ [NUL] @ ''hi'' @ [newline]) (\<lambda>_. NUL)"

lemma fs_example_init:
  "\<exists>s. vfs_init 0x8000 fs_example = Some s \<and> con_state 10 (replicate 19 (- 1)) (replicate 16 no_file) 0 []
     (s\<lparr>copyInOutBuffer := console_input, heapOk := False, vnode_addr := 0, vnode_stat := CONSOLE_STAT, rq_addr := 0, udpOk := True\<rparr>)"
proof -
  have "nextPid_loop (replicate 256 PNull) 4 10 10 True = Some 10"
    by (simp add: nextPid_loop.simps arr_get_def)
  then show ?thesis
    by (simp add: fs_example_defs vfs_init_def console_init_def nfsfs_init_def network_register_serialhandler_def
        process_run_rootthread_def process_init_def processAlloc_def pagetable_init_def frame_alloc_def
        process_prepare_def process_prepare2_def getNextPid_def process_lookup_def arr_get_def arr_set_def
        processExists_def set_slot_def upd_proc_def processRunPriority_def sos_thread_new_priority_def l4_do_def
        process_set_name_def process_set_ip_def process_set_sp_def process_set_state_def L4_nilthread_def
        vfiles_init_def Let_def con_state_def console_vnode_def no_file_def)
qed

lemma console_input_chars:
  "cstr console_input 163840 = Some ''console''" "console_input 163848 = CHR ''h''" "console_input (Suc 163848) = CHR ''i''"
  "console_input (Suc (Suc 163848)) = newline"
  by (simp_all add: console_input_def cstr.simps buf_memcpy_def BUFFER_BYTES_def)

lemma fs_example_calls:
  "\<exists>s s1 s2 s3 s4 s5. vfs_init 0x8000 fs_example = Some s \<and>
    vfs_open 10 163840 FM_WRITE FM_UNLIMITED_RW FM_UNLIMITED_RW (s\<lparr>copyInOutBuffer := console_input, heapOk := False,
      vnode_addr := 0, vnode_stat := CONSOLE_STAT, rq_addr := 0, udpOk := True\<rparr>) = Some s1 \<and>
    vfs_write 10 0 163848 3 s1 = Some s2 \<and> vfs_dup 10 0 1 s2 = Some s3 \<and> vfs_close 10 0 s3 = Some s4 \<and>
    vfs_close 10 1 s4 = Some s5 \<and>
    con_state 10 ((replicate 19 (- 1))[0 := 0, 1 := 0]) ((replicate 16 no_file)[0 := con_file 2]) 1 [''hi'' @ [newline, NUL]] s3 \<and>
    serialOut s5 = [''hi'' @ [newline, NUL]]"
proof -
  obtain s where s: "vfs_init 0x8000 fs_example = Some s" "con_state 10 (replicate 19 (- 1)) (replicate 16 no_file) 0 []
      (s\<lparr>copyInOutBuffer := console_input, heapOk := False, vnode_addr := 0, vnode_stat := CONSOLE_STAT, rq_addr := 0, udpOk := True\<rparr>)"
    using fs_example_init by (elim exE conjE) (rule that)
  obtain s1 where s1: "vfs_open 10 163840 FM_WRITE FM_UNLIMITED_RW FM_UNLIMITED_RW (s\<lparr>copyInOutBuffer := console_input, heapOk := False,
      vnode_addr := 0, vnode_stat := CONSOLE_STAT, rq_addr := 0, udpOk := True\<rparr>) = Some s1" and b1: "copyInOutBuffer s1 = console_input"
    and c1: "con_state 10 ((replicate 19 (- 1))[0 := 0]) ((replicate 16 no_file)[0 := con_file 1]) 1 [] s1"
    using con_open [OF s(2), of 163840] console_input_chars(1) by (elim meta_impE exE conjE) (simp, rule that, simp_all)
  obtain s2 where s2: "vfs_write 10 0 163848 3 s1 = Some s2"
    and c2: "con_state 10 ((replicate 19 (- 1))[0 := 0]) ((replicate 16 no_file)[0 := con_file 1]) 1 [''hi'' @ [newline, NUL]] s2"
    using con_write [OF c1, of 163848] console_input_chars(2-4) b1 by auto
  obtain s3 where s3: "vfs_dup 10 0 1 s2 = Some s3"
    and c3: "con_state 10 ((replicate 19 (- 1))[0 := 0, 1 := 0]) ((replicate 16 no_file)[0 := con_file 2]) 1 [''hi'' @ [newline, NUL]] s3"
    using con_dup [OF c2] by (elim exE conjE) (rule that)
  obtain s4 where s4: "vfs_close 10 0 s3 = Some s4" and c4: "con_state 10 ((replicate 19 (- 1))[0 := 0, 1 := 0, 0 := - 1])
      ((replicate 16 no_file)[0 := con_file 1]) 1 [''hi'' @ [newline, NUL]] s4"
    using con_close_first [OF c3] by (elim exE conjE) (rule that)
  obtain s5 where s5: "vfs_close 10 1 s4 = Some s5" and "serialOut s5 = [''hi'' @ [newline, NUL]]"
    using con_close_last [OF c4] by (auto simp: con_state_def)
  with s s1 s2 s3 s4 c3 show ?thesis
    by (intro exI conjI)
qed

lemma fs_boot_example: "fs_boot fs_example"
  by (simp add: fs_boot_def fs_example_defs)

theorem fs_consistent_witness:
  "\<exists>s s1 s2 s3 s4 s5. vfs_init 0x8000 fs_example = Some s \<and>
    vfs_open 10 163840 FM_WRITE FM_UNLIMITED_RW FM_UNLIMITED_RW (s\<lparr>copyInOutBuffer := console_input, heapOk := False,
      vnode_addr := 0, vnode_stat := CONSOLE_STAT, rq_addr := 0, udpOk := True\<rparr>) = Some s1 \<and>
    vfs_write 10 0 163848 3 s1 = Some s2 \<and> vfs_dup 10 0 1 s2 = Some s3 \<and> vfs_close 10 0 s3 = Some s4 \<and>
    vfs_close 10 1 s4 = Some s5 \<and> serialOut s5 = [''hi'' @ [newline, NUL]] \<and> fs_inv s3 \<and> fs_inv s5"
proof -
  let ?e = "\<lambda>s :: nfs_st. s\<lparr>copyInOutBuffer := console_input, heapOk := False, vnode_addr := 0, vnode_stat := CONSOLE_STAT,
      rq_addr := 0, udpOk := True\<rparr>"
  obtain s s1 s2 s3 s4 s5 where r: "vfs_init 0x8000 fs_example = Some s"
      "vfs_open 10 163840 FM_WRITE FM_UNLIMITED_RW FM_UNLIMITED_RW (?e s) = Some s1"
      "vfs_write 10 0 163848 3 s1 = Some s2" "vfs_dup 10 0 1 s2 = Some s3" "vfs_close 10 0 s3 = Some s4" "vfs_close 10 1 s4 = Some s5"
      "serialOut s5 = [''hi'' @ [newline, NUL]]"
    using fs_example_calls by (elim exE conjE) (rule that)
  have "fs_step s (?e s)"
    by (rule st_env)
  moreover have "fs_step (?e s) s1" "fs_step s1 s2" "fs_step s2 s3" "fs_step s3 s4" "fs_step s4 s5"
    using st_open [OF r(2)] st_write [OF r(3)] st_dup [OF r(4)] st_close [OF r(5)] st_close [OF r(6)] by simp_all
  ultimately have "fs_step\<^sup>*\<^sup>* s s3" "fs_step\<^sup>*\<^sup>* s s5"
    by (meson converse_rtranclp_into_rtranclp rtranclp.rtrancl_refl)+
  then have "fs_inv s3" "fs_inv s5"
    using fs_consistent [OF fs_boot_example r(1)] by blast+
  with r show ?thesis
    by (intro exI conjI)
qed

theorem dup_onto_itself_witness:
  "\<exists>(s :: nfs_st) s' q. fs_inv s \<and> vfs_dup 10 0 0 s = Some s' \<and> sosProcs s' ! 10 = PProc q \<and> fds q ! 0 = VFS_NIL_FILE \<and>
     unat (vf_ref (files q ! 0)) = count_list (fds q) 0 + 1 \<and> \<not> fs_inv s'"
proof -
  let ?e = "\<lambda>s :: nfs_st. s\<lparr>copyInOutBuffer := console_input, heapOk := False, vnode_addr := 0, vnode_stat := CONSOLE_STAT,
      rq_addr := 0, udpOk := True\<rparr>"
  obtain s s1 s2 s3 where r: "vfs_init 0x8000 fs_example = Some s"
      "vfs_open 10 163840 FM_WRITE FM_UNLIMITED_RW FM_UNLIMITED_RW (?e s) = Some s1"
      "vfs_write 10 0 163848 3 s1 = Some s2" "vfs_dup 10 0 1 s2 = Some s3"
      "con_state 10 ((replicate 19 (- 1))[0 := 0, 1 := 0]) ((replicate 16 no_file)[0 := con_file 2]) 1 [''hi'' @ [newline, NUL]] s3"
    using fs_example_calls by (elim exE conjE) (rule that)
  have "fs_inv (?e s)"
    by (rule fs_step_inv [OF st_env vfs_init_fs_inv [OF fs_boot_example r(1)]])
  then have inv: "fs_inv s3"
    using fs_step_inv [OF st_open [OF r(2)]] fs_step_inv [OF st_write [OF r(3)]] fs_step_inv [OF st_dup [OF r(4)]] by simp
  obtain p where p: "sosProcs s3 ! 10 = PProc p" "fds p = (replicate 19 (- 1))[0 := 0, 1 := 0]"
    using r(5) by (auto simp: con_state_def)
  have "1 < count_list (fds p) (int 0)" "fds p ! 0 = int 0"
    by (simp_all add: p(2) numeral_eq_Suc)
  then show ?thesis
    using dup_onto_itself [OF inv, of 10 p 0 0] p(1) inv by auto
qed

end
