(* ===== verification/Spaces.thy ===== *)
theory Spaces
  imports Pager VfsProps
begin

text \<open>
  The address spaces the pager keeps for the processes, seen as maps: \<open>user_entry s pid a\<close> is the
  page table entry of address \<open>a\<close> in the space of process \<open>pid\<close>. The tables live in frames of the
  same memory as everything else, so the invariant \<open>spaces_inv\<close> keeps the frames of different tables
  apart; with it, a lookup and a store through an entry act on one page of one process only.
\<close>

section \<open>Page tables depend on their own frames only\<close>

lemma pt_cong:
  assumes pt: "pt_inv s pt"
    and eq: "\<forall>e\<in>pt_frames s pt. \<forall>i<1024. mem s' (word_at e i) = mem s (word_at e i)"
  shows "pt_inv s' pt" and "pt_frames s' pt = pt_frames s pt"
    and "points s' pt x w = points s pt x w" and "pt_entry s' pt w = pt_entry s pt w"
proof -
  have l2: "level2 s' pt i = level2 s pt i" if "i < 1024" for i
    using eq that by (simp add: level2_def pt_frames_def)
  show "pt_inv s' pt"
    using pt by (simp add: pt_inv_def l2)
  show "pt_frames s' pt = pt_frames s pt"
    by (auto simp: pt_frames_def l2)
  show "points s' pt x w = points s pt x w"
    by (simp add: points_def l2)
  have "mem s' (word_at (level2 s pt (offs1 w)) (offs2 w)) = mem s (word_at (level2 s pt (offs1 w)) (offs2 w))"
    if "level2 s pt (offs1 w) \<noteq> 0"
    using eq that by (auto simp: pt_frames_def)
  then show "pt_entry s' pt w = pt_entry s pt w"
    by (simp add: pt_entry_def l2 Let_def)
qed

section \<open>Processes and their spaces\<close>

definition proc_of :: "'z proc_st_scheme \<Rightarrow> int \<Rightarrow> Process option" where
  "proc_of s pid = (case process_lookup pid s of Some (PProc p) \<Rightarrow> Some p | _ \<Rightarrow> None)"

definition user_entry :: "'z proc_st_scheme \<Rightarrow> int \<Rightarrow> u32 \<Rightarrow> u32" where
  "user_entry s pid a = (case proc_of s pid of None \<Rightarrow> 0 | Some p \<Rightarrow> pt_entry s (pagetable p) a)"

definition space_frames :: "'z proc_st_scheme \<Rightarrow> int \<Rightarrow> u32 set" where
  "space_frames s pid = (case proc_of s pid of None \<Rightarrow> {} | Some p \<Rightarrow> pt_frames s (pagetable p))"

definition spaces_inv :: "'z proc_st_scheme \<Rightarrow> u32 list \<Rightarrow> u32 set \<Rightarrow> bool" where
  "spaces_inv s F A \<longleftrightarrow> frames_inv s F A \<and>
     (\<forall>pid p. proc_of s pid = Some p \<longrightarrow> ps_pid (info p) = pid \<and> pt_inv s (pagetable p)) \<and>
     (\<forall>pid. space_frames s pid \<subseteq> A) \<and>
     (\<forall>pid pid'. pid \<noteq> pid' \<longrightarrow> space_frames s pid \<inter> space_frames s pid' = {})"

lemma proc_of_lookup: "proc_of s pid = Some p \<longleftrightarrow> process_lookup pid s = Some (PProc p)"
  by (auto simp: proc_of_def split: option.splits procslot.splits)

lemma space_frames_proc: "proc_of s pid = Some p \<Longrightarrow> space_frames s pid = pt_frames s (pagetable p)"
  by (simp add: space_frames_def)

lemma user_entry_proc: "proc_of s pid = Some p \<Longrightarrow> user_entry s pid a = pt_entry s (pagetable p) a"
  by (simp add: user_entry_def)

lemma space_sub: "spaces_inv s F A \<Longrightarrow> e \<in> space_frames s pid \<Longrightarrow> e \<in> A"
  unfolding spaces_inv_def by blast

lemma space_is_frame: "spaces_inv s F A \<Longrightarrow> e \<in> space_frames s pid \<Longrightarrow> is_frame e"
  using space_sub [of s F A e pid] by (simp add: spaces_inv_def frames_inv_def)

lemma space_disj:
  "spaces_inv s F A \<Longrightarrow> e \<in> space_frames s pid \<Longrightarrow> e \<in> space_frames s pid' \<Longrightarrow> pid = pid'"
  unfolding spaces_inv_def by blast

lemma space_proc:
  assumes "spaces_inv s F A" and "proc_of s pid = Some p"
  shows "pt_inv s (pagetable p)" and "pt_frames s (pagetable p) \<subseteq> A" and "ps_pid (info p) = pid" and "frames_inv s F A"
  using assms space_sub [OF assms(1), of _ pid] by (auto simp: spaces_inv_def space_frames_proc)

text \<open>Changing the memory: what the tables say is decided by their frames.\<close>

lemma proc_of_cong: "sosProcs s' = sosProcs s \<Longrightarrow> proc_of s' pid = proc_of s pid"
  by (simp add: proc_of_def process_lookup_def)

lemma space_cong:
  assumes inv: "spaces_inv s F A" and pr: "proc_of s' pid = proc_of s pid"
    and eq: "\<forall>e\<in>space_frames s pid. \<forall>i<1024. mem s' (word_at e i) = mem s (word_at e i)"
  shows "space_frames s' pid = space_frames s pid" and "user_entry s' pid w = user_entry s pid w"
    and "proc_of s pid = Some p \<Longrightarrow> pt_inv s' (pagetable p)"
    and "proc_of s pid = Some p \<Longrightarrow> points s' (pagetable p) x w = points s (pagetable p) x w"
proof -
  have pt: "pt_inv s (pagetable p)" if "proc_of s pid = Some p" for p
    using inv that by (simp add: spaces_inv_def)
  note c = pt_cong [OF pt, where s' = s']
  show "space_frames s' pid = space_frames s pid"
    using eq pr c(2) by (auto simp: space_frames_def split: option.splits)
  show "user_entry s' pid w = user_entry s pid w"
    using eq pr c(4) by (auto simp: user_entry_def space_frames_def split: option.splits)
  show "pt_inv s' (pagetable p)" if "proc_of s pid = Some p"
    using c(1) [OF that] eq that by (simp add: space_frames_def)
  show "points s' (pagetable p) x w = points s (pagetable p) x w" if "proc_of s pid = Some p"
    using c(3) [OF that] eq that by (simp add: space_frames_def)
qed

text \<open>Everything here reads the memory, the allocator's variables and the process table only.\<close>

lemma spaces_same:
  assumes "mem s' = mem s" and "firstFree s' = firstFree s" and "totalInUse s' = totalInUse s" and "sosProcs s' = sosProcs s"
  shows "proc_of s' = proc_of s" and "user_entry s' = user_entry s" and "space_frames s' = space_frames s"
    and "spaces_inv s' F A = spaces_inv s F A"
proof -
  show p: "proc_of s' = proc_of s"
    using assms(4) by (simp add: fun_eq_iff proc_of_def process_lookup_def)
  have l: "level2 s' = level2 s"
    using assms(1) by (simp add: fun_eq_iff level2_def)
  have e: "pt_entry s' = pt_entry s" "pt_inv s' = pt_inv s" "pt_frames s' = pt_frames s"
    by (simp_all add: fun_eq_iff pt_entry_def pt_inv_def pt_frames_def l assms(1) Let_def)
  show "user_entry s' = user_entry s" and f: "space_frames s' = space_frames s"
    by (simp_all add: fun_eq_iff user_entry_def space_frames_def p e split: option.splits)
  show "spaces_inv s' F A = spaces_inv s F A"
    by (simp add: spaces_inv_def p e f frames_inv_def assms)
qed

section \<open>Lookups and stores\<close>

lemma spaces_store:
  fixes s :: "'z proc_st_scheme" and v :: u32
  assumes inv: "spaces_inv s F A" and pr: "proc_of s pid = Some p" and px: "points s (pagetable p) x addr"
  defines "s' \<equiv> s\<lparr>mem := (mem s)(x := v)\<rparr>"
  shows "spaces_inv s' F A" and "space_frames s' q = space_frames s q"
    and "user_entry s' q w = (if q = pid \<and> unat w div 4096 = unat addr div 4096 then v else user_entry s q w)"
proof -
  note sp = space_proc [OF inv pr]
  note st = pt_store_spec [OF sp(1,4,2) px, of v, folded s'_def]
  let ?e = "level2 s (pagetable p) (offs1 addr)"
  have e: "?e \<in> pt_frames s (pagetable p)" "is_frame ?e" and x: "x = word_at ?e (offs2 addr)"
    using px sp(1) by (auto simp: points_def pt_frames_def pt_inv_def)
  have pq: "proc_of s' q = proc_of s q" for q
    by (simp add: s'_def proc_of_def process_lookup_def)
  have other: "\<forall>e\<in>space_frames s q. \<forall>i<1024. mem s' (word_at e i) = mem s (word_at e i)" if "q \<noteq> pid" for q
  proof (intro ballI allI impI)
    fix f i
    assume f: "f \<in> space_frames s q" and i: "i < (1024::nat)"
    have "is_frame f"
      using space_is_frame [OF inv f] .
    moreover have "f \<noteq> ?e"
      using space_disj [OF inv f, of pid] e(1) pr that by (auto simp: space_frames_proc)
    ultimately show "mem s' (word_at f i) = mem s (word_at f i)"
      using e(2) i by (simp add: s'_def x word_at_inj)
  qed
  note oc = space_cong [OF inv pq other]
  show sf: "space_frames s' q = space_frames s q" for q
    using st(3) oc(1) pq pr by (cases "q = pid") (auto simp: space_frames_def)
  show "user_entry s' q w = (if q = pid \<and> unat w div 4096 = unat addr div 4096 then v else user_entry s q w)"
    using st(5) oc(2) pq pr by (cases "q = pid") (auto simp: user_entry_def)
  have "pt_inv s' (pagetable p')" if "proc_of s q = Some p'" for q p'
    using st(1) oc(3) that pr by (cases "q = pid") auto
  then show "spaces_inv s' F A"
    using inv st(2) by (simp add: spaces_inv_def sf pq)
qed

text \<open>An entry that is not 0 is found without taking a frame.\<close>

lemma entry_of_present:
  assumes inv: "spaces_inv s F A" and pr: "proc_of s pid = Some p" and e: "user_entry s pid a \<noteq> 0"
  obtains x where "entry_of (PProc p) a s = Some (x, s)" "points s (pagetable p) x a" "x \<noteq> 0" "mem s x = user_entry s pid a"
proof -
  note pt = space_proc(1) [OF inv pr]
  have l2: "level2 s (pagetable p) (offs1 a) \<noteq> 0"
    using e pr by (auto simp: user_entry_proc pt_entry_def Let_def)
  let ?x = "word_at (level2 s (pagetable p) (offs1 a)) (offs2 a)"
  have "entry_of (PProc p) a s = Some (?x, s)"
    using pagetableLookup_present [OF pt l2] by (simp add: entry_of_def process_get_pagetable_def)
  moreover have "points s (pagetable p) ?x a"
    using l2 by (simp add: points_def)
  moreover have "?x \<noteq> 0"
    using l2 pt by (intro word_at_nonzero) (auto simp: pt_inv_def)
  ultimately show thesis
    using that points_read pr by (metis user_entry_proc)
qed

section \<open>Resident pages\<close>

text \<open>A page of the list \<^verbatim>\<open>alloced\<close>: its process is in the table and its entry holds a frame.\<close>

definition frame_of :: "'z proc_st_scheme \<Rightarrow> int \<times> u32 \<Rightarrow> u32" where
  "frame_of s x = user_entry s (fst x) (snd x) AND ADDRESS_MASK"

definition referenced :: "'z proc_st_scheme \<Rightarrow> int \<times> u32 \<Rightarrow> bool" where
  "referenced s x \<longleftrightarrow> user_entry s (fst x) (snd x) AND REF_MASK \<noteq> 0"

definition resident :: "'z proc_st_scheme \<Rightarrow> int \<times> u32 \<Rightarrow> bool" where
  "resident s x \<longleftrightarrow> proc_of s (fst x) \<noteq> None \<and> snd x AND 0xFFF = 0 \<and> frame_of s x \<noteq> 0"

lemma page_eq_iff:
  assumes "(page :: u32) AND 0xFFF = 0"
  shows "unat w div 4096 = unat page div 4096 \<longleftrightarrow> w AND 0xFFFFF000 = page"
proof -
  have "unat page = unat page div 4096 * 4096"
    using assms unfolding page_aligned_iff by (metis add.right_neutral div_mult_mod_eq)
  then show ?thesis
    by (metis page_div nonzero_mult_div_cancel_right word_unat_eq_iff zero_neq_numeral)
qed

section \<open>The second-chance algorithm\<close>

lemma clear_ref_frame [simp]: "(w AND - 3) AND 0xFFFFF000 = (w AND 0xFFFFF000 :: u32)"
proof -
  have "(- 3 :: u32) AND 0xFFFFF000 = 0xFFFFF000"
    by simp
  then show ?thesis
    by (simp only: and.assoc)
qed

lemma clear_ref_ref [simp]: "(w AND - 3) AND (2 :: u32) = 0"
  by (simp add: and.assoc)

text \<open>
  Pages \<open>pre\<close> at the front that are referenced are passed over: their marks are cleared, they are
  unmapped, in order, and go to the back.
\<close>

definition passed_over :: "(int \<times> u32) list \<Rightarrow> 'z pager_st_scheme \<Rightarrow> 'z pager_st_scheme \<Rightarrow> bool" where
  "passed_over pre s s' \<longleftrightarrow>
     (\<forall>q w. user_entry s' q w =
        (if (q, w AND PAGEALIGN) \<in> set pre then user_entry s q w AND NOT REF_MASK else user_entry s q w)) \<and>
     (\<exists>m al. s' = s\<lparr>mem := m, l4 := l4 s @ map (\<lambda>(pid, page). UnmapFpage pid page) pre, alloced := al\<rparr>)"

lemma passed_over_Nil: "passed_over [] s s"
proof -
  have "s = s\<lparr>mem := mem s, l4 := l4 s, alloced := alloced s\<rparr>"
    by simp
  then show ?thesis
    unfolding passed_over_def by (metis append_Nil2 empty_iff list.simps(8) list.set(1))
qed

lemma passed_over_append:
  assumes "passed_over xs s s1" and "passed_over ys s1 s2" and "set xs \<inter> set ys = {}"
  shows "passed_over (xs @ ys) s s2"
proof -
  have "\<exists>m al. s2 = s\<lparr>mem := m, l4 := l4 s @ map (\<lambda>(pid, page). UnmapFpage pid page) (xs @ ys), alloced := al\<rparr>"
    using assms(1,2) by (fastforce simp: passed_over_def)
  moreover have "user_entry s2 q w = (if (q, w AND PAGEALIGN) \<in> set (xs @ ys) then user_entry s q w AND NOT REF_MASK
      else user_entry s q w)" for q w
    using assms by (auto simp: passed_over_def)
  ultimately show ?thesis
    by (simp add: passed_over_def)
qed

lemma passed_procs: "passed_over pre s s' \<Longrightarrow> sosProcs s' = sosProcs s"
  by (auto simp: passed_over_def)

lemma resident_passed:
  assumes "passed_over pre s s'"
  shows "resident s' x = resident s x" and "frame_of s' x = frame_of s x"
    and "snd x AND 0xFFF = 0 \<Longrightarrow> referenced s' x \<longleftrightarrow> referenced s x \<and> x \<notin> set pre"
proof -
  note pr = proc_of_cong [OF passed_procs [OF assms]]
  have e: "user_entry s' q w = (if (q, w AND PAGEALIGN) \<in> set pre then user_entry s q w AND NOT REF_MASK else user_entry s q w)" for q w
    using assms by (simp add: passed_over_def)
  show f: "frame_of s' x = frame_of s x"
    by (simp add: frame_of_def e)
  show "resident s' x = resident s x"
    by (simp add: resident_def f pr)
  show "referenced s' x \<longleftrightarrow> referenced s x \<and> x \<notin> set pre" if "snd x AND 0xFFF = 0"
    using page_aligned_page [OF that] by (cases x) (simp add: referenced_def e)
qed

lemma second_chance_step:
  assumes inv: "spaces_inv s F A" and al: "alloced s = x # rest" and x: "resident s x"
  shows "\<exists>s'. second_chance s = (if referenced s x then second_chance s' else Some (x, s\<lparr>alloced := rest\<rparr>)) \<and>
    passed_over [x] s s' \<and> alloced s' = rest @ [x] \<and> spaces_inv s' F A"
proof -
  obtain pid page where xp: "x = (pid, page)"
    by (cases x)
  have e: "user_entry s pid page \<noteq> 0" and pg: "page AND 0xFFF = 0"
    using x by (auto simp: resident_def frame_of_def xp)
  obtain p where p: "proc_of s pid = Some p"
    using x by (auto simp: resident_def xp)
  let ?s = "s\<lparr>alloced := rest\<rparr>" and ?w = "user_entry s pid page"
  note same = spaces_same [of ?s s, simplified]
  have lk: "process_lookup pid ?s = Some (PProc p)"
    using p by (simp add: proc_of_lookup process_lookup_def split: if_splits)
  have inv1: "spaces_inv ?s F A" and p1: "proc_of ?s pid = Some p" and e1: "user_entry ?s pid page \<noteq> 0"
    using inv p e by (simp_all add: same)
  obtain a where a: "entry_of (PProc p) page ?s = Some (a, ?s)" "points ?s (pagetable p) a page" "a \<noteq> 0"
      "mem ?s a = ?w"
    using entry_of_present [OF inv1 p1 e1] by (auto simp: same)
  let ?m = "(mem s)(a := ?w AND NOT REF_MASK)"
  let ?s' = "s\<lparr>mem := ?m, l4 := l4 s @ [UnmapFpage pid page], alloced := rest @ [x]\<rparr>"
  note st = spaces_store [OF inv1 p1 a(2), of "?w AND NOT REF_MASK"]
  have eu: "user_entry ?s' = user_entry (?s\<lparr>mem := ?m\<rparr>)"
    and iu: "spaces_inv ?s' F A = spaces_inv (?s\<lparr>mem := ?m\<rparr>) F A"
    by (rule spaces_same; simp)+
  have mu: "?s\<lparr>mem := ?m\<rparr> = ?s\<lparr>mem := (mem ?s)(a := ?w AND NOT REF_MASK)\<rparr>"
    by simp
  have pid: "ps_pid (info p) = pid"
    using space_proc(3) [OF inv p] .
  have "second_chance s = (if referenced s x then second_chance ?s' else Some (x, ?s))"
    using a pg pid
    by (subst second_chance.simps)
      (simp add: al xp lk referenced_def rd_entry_def wr_entry_def process_get_sid_def process_get_pid_def
        unmapPage_def l4_do_def not_pagealign)
  moreover have "user_entry ?s' q w =
      (if (q, w AND PAGEALIGN) \<in> set [x] then user_entry s q w AND NOT REF_MASK else user_entry s q w)" for q w
    unfolding eu mu st(3) page_eq_iff [OF pg] using p pt_entry_page [of s "pagetable p" w]
    by (auto simp: same xp user_entry_proc)
  then have "passed_over [x] s ?s'"
    by (auto simp: passed_over_def xp)
  moreover have "spaces_inv ?s' F A"
    using st(1) unfolding iu mu .
  ultimately show ?thesis
    by (intro exI [of _ ?s']) simp
qed

lemma second_chance_pass:
  assumes "spaces_inv s F A" and "alloced s = pre @ post" and "distinct pre" and "\<forall>x\<in>set pre. resident s x \<and> referenced s x"
  shows "\<exists>s'. second_chance s = second_chance s' \<and> passed_over pre s s' \<and> alloced s' = post @ pre \<and> spaces_inv s' F A"
  using assms
proof (induction pre arbitrary: s post)
  case Nil
  then show ?case
    using passed_over_Nil by (intro exI [of _ s]) simp
next
  case (Cons x pre)
  obtain s1 where s1: "second_chance s = second_chance s1" "passed_over [x] s s1" "alloced s1 = pre @ (post @ [x])"
      "spaces_inv s1 F A"
    using second_chance_step [of s F A x "pre @ post"] Cons.prems by auto
  have "\<forall>y\<in>set pre. resident s1 y \<and> referenced s1 y"
  proof
    fix y
    assume "y \<in> set pre"
    then have "resident s y" "referenced s y" "y \<noteq> x"
      using Cons.prems by auto
    then show "resident s1 y \<and> referenced s1 y"
      using resident_passed [OF s1(2), of y] by (simp add: resident_def)
  qed
  from Cons.IH [OF s1(4,3) _ this] obtain s2 where s2: "second_chance s1 = second_chance s2" "passed_over pre s1 s2"
      "alloced s2 = (post @ [x]) @ pre" "spaces_inv s2 F A"
    using Cons.prems by auto
  have "passed_over (x # pre) s s2"
    using passed_over_append [OF s1(2) s2(2)] Cons.prems by simp
  with s1 s2 show ?case
    by (intro exI [of _ s2]) simp
qed

text \<open>
  C12. The page replacement of the pager (\<^verbatim>\<open>deleteAllocList\<close>) always ends, and what it does is the
  second-chance policy: the referenced pages at the front of the queue are passed over -- each loses
  its reference mark, is unmapped so that the next access sets the mark again, and goes to the back --
  and the first unreferenced page is taken off. When every page is referenced, all are passed over once
  and the oldest is taken. No other entry of any page table changes, and the queue keeps all other pages.
\<close>

theorem second_chance_evicts:
  assumes "spaces_inv s F A" and "alloced s \<noteq> []" and "distinct (alloced s)" and "\<forall>x\<in>set (alloced s). resident s x"
  shows "\<exists>s'. deleteAllocList s =
      Some (hd (dropWhile (referenced s) (alloced s) @ takeWhile (referenced s) (alloced s)), s') \<and>
    alloced s' = tl (dropWhile (referenced s) (alloced s) @ takeWhile (referenced s) (alloced s)) \<and>
    passed_over (takeWhile (referenced s) (alloced s)) s s' \<and> spaces_inv s' F A"
proof -
  let ?pre = "takeWhile (referenced s) (alloced s)" and ?post = "dropWhile (referenced s) (alloced s)"
  have "\<forall>x\<in>set ?pre. resident s x \<and> referenced s x"
    using assms(4) by (auto dest: set_takeWhileD)
  then obtain s1 where s1: "second_chance s = second_chance s1" "passed_over ?pre s s1" "alloced s1 = ?post @ ?pre"
      "spaces_inv s1 F A"
    using second_chance_pass [OF assms(1), of ?pre ?post] assms(3) by auto
  obtain x rest where xr: "?post @ ?pre = x # rest"
    using assms(2) by (metis append_is_Nil_conv append_Nil2 neq_Nil_conv takeWhile_dropWhile_id)
  have x: "x \<in> set (alloced s)"
    using xr by (metis list.set_intros(1) set_append takeWhile_dropWhile_id Un_commute)
  have "\<not> referenced s x \<or> x \<in> set ?pre"
    using xr hd_dropWhile [of "referenced s" "alloced s"] by (cases ?post) auto
  then have "\<not> referenced s1 x"
    using resident_passed(3) [OF s1(2), of x] x assms(4) by (auto simp: resident_def)
  moreover have "resident s1 x"
    using resident_passed(1) [OF s1(2), of x] x assms(4) by auto
  ultimately have "second_chance s1 = Some (x, s1\<lparr>alloced := rest\<rparr>)"
    using second_chance_step [OF s1(4), of x rest] s1(3) xr by auto
  moreover have "passed_over ?pre s (s1\<lparr>alloced := rest\<rparr>)"
    using s1(2) spaces_same(2) [of "s1\<lparr>alloced := rest\<rparr>" s1] by (fastforce simp: passed_over_def)
  moreover have "spaces_inv (s1\<lparr>alloced := rest\<rparr>) F A"
    using s1(4) spaces_same(4) [of "s1\<lparr>alloced := rest\<rparr>" s1] by simp
  ultimately show ?thesis
    using s1(1) xr assms(2) by (simp add: deleteAllocList_def)
qed

text \<open>
  Two processes: number 5 has a referenced page at \<open>0x0\<close> and an unreferenced one at \<open>0x1000\<close>, and
  number 6 has a referenced page at \<open>0x0\<close>; the frame \<open>0x8000\<close> is free. Both may read and write their
  first two pages.
\<close>

definition space_example :: "int \<Rightarrow> u32 \<Rightarrow> Process" where
  "space_example pid pt = proc_example pid WAIT_NOBODY\<lparr>pagetable := pt,
     regions := [region_alloc REGION_OTHER 0 0x2000 6 False]\<rparr>"

lemma space_example_simps [simp]:
  "pagetable (space_example pid pt) = pt" "ps_pid (info (space_example pid pt)) = pid"
  "regions (space_example pid pt) = [region_alloc REGION_OTHER 0 0x2000 6 False]"
  by (simp_all add: space_example_def proc_example_def)

definition spaces_example :: pager_st where
  "spaces_example = nfs_st.extend (fs_example\<lparr>
     mem := (\<lambda>_. 0)(0x1000 := 0x2000, 0x2000 := 0x5002, 0x2004 := 0x6000, 0x3000 := 0x4000, 0x4000 := 0x7002),
     firstFree := 0x8000, totalInUse := 7,
     sosProcs := (replicate 256 PNull)[5 := PProc (space_example 5 0x1000), 6 := PProc (space_example 6 0x3000)]\<rparr>)
     (pager_st.fields 4 1 [(5, 0), (6, 0), (5, 0x1000)] [] 0 Map.empty [] False 0 (\<lambda>_. 0) (\<lambda>_. []))"

lemmas spaces_example_defs = spaces_example_def nfs_st.defs pager_st.defs fs_example_defs

lemma spaces_example_proc:
  "proc_of spaces_example pid = (if pid = 5 then Some (space_example 5 0x1000) else if pid = 6 then Some (space_example 6 0x3000) else None)"
  by (auto simp: proc_of_def process_lookup_def spaces_example_defs arr_get_def nth_list_update nat_eq_iff
      split: option.splits procslot.splits)

lemma spaces_example_mem:
  "mem spaces_example = (\<lambda>_. 0)(0x1000 := 0x2000, 0x2000 := 0x5002, 0x2004 := 0x6000, 0x3000 := 0x4000, 0x4000 := 0x7002)"
  by (simp add: spaces_example_defs)

lemma spaces_example_level2:
  assumes "i < 1024"
  shows "level2 spaces_example 0x1000 i = (if i = 0 then 0x2000 else 0)"
    and "level2 spaces_example 0x3000 i = (if i = 0 then 0x4000 else 0)"
proof -
  have f: "is_frame 0x1000" "is_frame 0x2000" "is_frame 0x3000" "is_frame 0x4000"
    by (simp_all add: is_frame_def)
  have m: "mem spaces_example = (\<lambda>_. 0)(word_at 0x1000 0 := 0x2000, word_at 0x2000 0 := 0x5002,
      word_at 0x2000 1 := 0x6000, word_at 0x3000 0 := 0x4000, word_at 0x4000 0 := 0x7002)"
    by (simp add: spaces_example_mem word_at_def)
  show "level2 spaces_example 0x1000 i = (if i = 0 then 0x2000 else 0)"
      "level2 spaces_example 0x3000 i = (if i = 0 then 0x4000 else 0)"
    using f assms by (simp_all add: level2_def m word_at_inj del: word_at_0)
qed

lemma spaces_example_inv:
  "spaces_inv spaces_example [0x8000] {0x1000, 0x2000, 0x3000, 0x4000, 0x5000, 0x6000, 0x7000}"
proof -
  have "space_frames spaces_example pid = (if pid = 5 then {0x1000, 0x2000} else if pid = 6 then {0x3000, 0x4000} else {})" for pid
    using spaces_example_level2 by (auto simp: space_frames_def spaces_example_proc pt_frames_def image_iff)
  moreover have "pt_inv spaces_example 0x1000" "pt_inv spaces_example 0x3000"
    using spaces_example_level2 by (simp_all add: pt_inv_def is_frame_def)
  moreover have "frames_inv spaces_example [0x8000] {0x1000, 0x2000, 0x3000, 0x4000, 0x5000, 0x6000, 0x7000}"
    by (simp add: frames_inv_def is_frame_def spaces_example_defs)
  ultimately show ?thesis
    by (auto simp: spaces_inv_def spaces_example_proc split: if_splits)
qed

lemma spaces_example_entry:
  "user_entry spaces_example 5 0 = 0x5002" "user_entry spaces_example 5 0x1000 = 0x6000" "user_entry spaces_example 6 0 = 0x7002"
  using spaces_example_level2 [of 0]
  by (simp_all add: user_entry_def spaces_example_proc pt_entry_def offs1_def offs2_def spaces_example_mem word_at_def)

lemma spaces_example_resident:
  "alloced spaces_example = [(5, 0), (6, 0), (5, 0x1000)]" "\<forall>x\<in>set (alloced spaces_example). resident spaces_example x"
  "referenced spaces_example (5, 0)" "referenced spaces_example (6, 0)" "\<not> referenced spaces_example (5, 0x1000)"
proof -
  show a: "alloced spaces_example = [(5, 0), (6, 0), (5, 0x1000)]"
    by (simp add: spaces_example_defs)
  show "\<forall>x\<in>set (alloced spaces_example). resident spaces_example x"
    by (simp add: a resident_def frame_of_def spaces_example_proc spaces_example_entry)
qed (simp_all add: referenced_def spaces_example_entry)

theorem second_chance_evicts_witness:
  "\<exists>s'. deleteAllocList spaces_example = Some ((5, 0x1000), s') \<and> alloced s' = [(5, 0), (6, 0)] \<and>
     passed_over [(5, 0), (6, 0)] spaces_example s'"
  using second_chance_evicts [OF spaces_example_inv] spaces_example_resident by auto

end
