(* ===== verification/ClockProps.thy ===== *)
theory ClockProps
  imports Clock Spaces
begin

text \<open>
  Sleeping threads: the list of the clock driver holds exactly the threads that sleep, an interrupt of
  the timer wakes those whose time has come and no others, and no sleeper is ever lost.
\<close>

section \<open>The list of sleepers\<close>

text \<open>
  \<open>sleepers h a as xs\<close>: the nodes from \<open>a\<close> on, at the addresses \<open>as\<close>, hold the threads and times \<open>xs\<close>; the
  last address is that of a sentinel.
\<close>

fun sleepers :: "(u32 \<rightharpoonup> BlockedThread) \<Rightarrow> u32 \<Rightarrow> u32 list \<Rightarrow> (L4_ThreadId_t \<times> u64) list \<Rightarrow> bool" where
  "sleepers h a [b] [] \<longleftrightarrow> a = b \<and> a \<noteq> 0 \<and> (case h b of None \<Rightarrow> False | Some n \<Rightarrow> bt_tid n = L4_nilthread)"
| "sleepers h a (b # bs) ((t, u) # xs) \<longleftrightarrow> a = b \<and> a \<noteq> 0 \<and> t \<noteq> L4_nilthread \<and>
     (case h b of None \<Rightarrow> False | Some n \<Rightarrow> bt_tid n = t \<and> bt_unblock n = u \<and> sleepers h (bt_next n) bs xs)"
| "sleepers h a _ _ \<longleftrightarrow> False"

definition timers :: "'z clock_st_scheme \<Rightarrow> (L4_ThreadId_t \<times> u64) list \<Rightarrow> bool" where
  "timers s xs \<longleftrightarrow> (\<exists>as. sleepers (bts s) (blocked_threads s) as xs \<and> distinct as) \<and>
     (\<exists>n. bts s (sentinel s) = Some n \<and> bt_tid n = L4_nilthread)"

lemma sleepers_cong: "(\<And>x. x \<in> set as \<Longrightarrow> h' x = h x) \<Longrightarrow> sleepers h' a as xs = sleepers h a as xs"
  by (induction h a as xs rule: sleepers.induct) (auto split: option.splits)

lemma sleepers_dom: "sleepers h a as xs \<Longrightarrow> x \<in> set as \<Longrightarrow> h x \<noteq> None"
  by (induction h a as xs rule: sleepers.induct) (auto split: option.splits)

lemma sleepers_not_Nil: "sleepers h a as xs \<Longrightarrow> \<exists>bs. as = a # bs"
  by (induction h a as xs rule: sleepers.induct) auto

section \<open>Waking\<close>

text \<open>A thread that can be woken, and what waking it asks of the microkernel.\<close>

definition wakeable :: "'z proc_st_scheme \<Rightarrow> L4_ThreadId_t \<Rightarrow> bool" where
  "wakeable s t \<longleftrightarrow> t \<noteq> L4_nilthread \<and> t \<noteq> L4_rootserver \<and>
     (\<exists>p. proc_of s (fst t) = Some p \<and> process_get_ipcfilt p \<noteq> PS_IPC_NONE)"

definition wake_calls :: "'z proc_st_scheme \<Rightarrow> L4_ThreadId_t \<Rightarrow> l4_call list" where
  "wake_calls s t = [CacheFlushAll,
     Ipc t (if process_get_ipcfilt (the (proc_of s (fst t))) = PS_IPC_BLOCKING then SOS_IPC_SEND else SOS_IPC_REPLY)
       (syscall_word SOS_REPLY) [0]]"

lemma upd_proc_proc:
  assumes "proc_of s pid = Some p"
  shows "\<exists>P. upd_proc pid f s = Some (s\<lparr>sosProcs := P\<rparr>) \<and>
    (\<forall>q. proc_of (s\<lparr>sosProcs := P\<rparr>) q = (if q = pid then Some (f p) else proc_of s q))"
proof -
  have k: "0 \<le> pid" "nat pid < length (sosProcs s)" "sosProcs s ! nat pid = PProc p"
    using assms by (auto simp: proc_of_lookup process_lookup_def arr_get_def split: if_splits)
  then have "upd_proc pid f s = Some (s\<lparr>sosProcs := (sosProcs s)[nat pid := PProc (f p)]\<rparr>)"
    by (simp add: upd_proc_eq)
  moreover have "proc_of (s\<lparr>sosProcs := (sosProcs s)[nat pid := PProc (f p)]\<rparr>) q = (if q = pid then Some (f p) else proc_of s q)" for q
    using k by (auto simp: proc_of_def process_lookup_def arr_get_def nth_list_update nat_eq_iff2 split: option.splits if_splits)
  ultimately show ?thesis
    by blast
qed

lemma wake_sleeper_spec:
  assumes "wakeable s t"
  shows "\<exists>P. wake_sleeper t s = Some (s\<lparr>sosProcs := P, l4 := l4 s @ wake_calls s t\<rparr>) \<and>
    (\<forall>q. proc_of (s\<lparr>sosProcs := P, l4 := l4 s @ wake_calls s t\<rparr>) q =
      (if q = fst t then map_option (process_set_state PS_STATE_ALIVE) (proc_of s q) else proc_of s q))"
proof -
  obtain p where p: "proc_of s (fst t) = Some p" "process_get_ipcfilt p \<noteq> PS_IPC_NONE" "t \<noteq> (0, 0)" "t \<noteq> (0, 1)"
    using assms by (auto simp: wakeable_def)
  obtain P where P: "upd_proc (fst t) (process_set_state PS_STATE_ALIVE) s = Some (s\<lparr>sosProcs := P\<rparr>)"
      "\<And>q. proc_of (s\<lparr>sosProcs := P\<rparr>) q = (if q = fst t then Some (process_set_state PS_STATE_ALIVE p) else proc_of s q)"
    using upd_proc_proc [OF p(1), of "process_set_state PS_STATE_ALIVE"] by blast
  have lk: "process_lookup (fst t) (s\<lparr>sosProcs := P\<rparr>) = Some (PProc (process_set_state PS_STATE_ALIVE p))"
    using P(2) [of "fst t"] by (simp add: proc_of_lookup)
  have "wake_sleeper t s = Some (s\<lparr>sosProcs := P, l4 := l4 s @ wake_calls s t\<rparr>)"
    using p P(1) lk
    by (simp add: wake_sleeper_def syscall_reply_def syscall_reply_v_def process_set_state_def process_get_state_def
        process_get_ipcfilt_def l4_do_def ipc_send_def wake_calls_def)
  moreover have "proc_of (s\<lparr>sosProcs := P, l4 := l4 s @ wake_calls s t\<rparr>) q = proc_of (s\<lparr>sosProcs := P\<rparr>) q" for q
    by (rule proc_of_cong) simp
  ultimately show ?thesis
    using P(2) p(1) by auto
qed

section \<open>The loop of the interrupt handler\<close>

text \<open>What remains to be waited for: whether anybody does, and the shortest time.\<close>

fun next_delay :: "u64 \<Rightarrow> (L4_ThreadId_t \<times> u64) list \<Rightarrow> bool \<times> u32 \<Rightarrow> bool \<times> u32" where
  "next_delay ts [] dn = dn"
| "next_delay ts ((t, u) # xs) (d, nd) = next_delay ts xs
     (if u \<le> ts then (d, nd) else if ucast (u - ts) < nd then (True, ucast (u - ts)) else (d, nd))"

definition expired :: "u64 \<Rightarrow> (L4_ThreadId_t \<times> u64) list \<Rightarrow> L4_ThreadId_t list" where
  "expired ts xs = map fst (filter (\<lambda>x. snd x \<le> ts) xs)"

definition woken_procs :: "L4_ThreadId_t list \<Rightarrow> 'z proc_st_scheme \<Rightarrow> procslot list \<Rightarrow> bool" where
  "woken_procs tids s P \<longleftrightarrow> (\<forall>q. proc_of (s\<lparr>sosProcs := P\<rparr>) q =
     (if q \<in> fst ` set tids then map_option (process_set_state PS_STATE_ALIVE) (proc_of s q) else proc_of s q))"

lemma sleepers_move:
  "sleepers h b (b # cs) xs \<Longrightarrow> h' a = h b \<Longrightarrow> a \<noteq> 0 \<Longrightarrow> (\<And>x. x \<in> set cs \<Longrightarrow> h' x = h x) \<Longrightarrow> sleepers h' a (a # cs) xs"
  by (cases "(h, b, b # cs, xs)" rule: sleepers.cases) (auto split: option.splits simp: sleepers_cong [of cs h' h])

lemma wake_calls_same:
  assumes "woken_procs tids s P" and "sosProcs s' = P"
  shows "wakeable s' t = wakeable s t" and "wakeable s t \<Longrightarrow> wake_calls s' t = wake_calls s t"
proof -
  have "proc_of s' q = proc_of (s\<lparr>sosProcs := P\<rparr>) q" for q
    using assms(2) by (simp add: proc_of_def process_lookup_def)
  then have pq: "proc_of s' q = (if q \<in> fst ` set tids then map_option (process_set_state PS_STATE_ALIVE) (proc_of s q) else proc_of s q)" for q
    using assms(1) by (simp add: woken_procs_def)
  have f: "process_get_ipcfilt (process_set_state st p) = process_get_ipcfilt p" for st p
    by (simp add: process_get_ipcfilt_def process_set_state_def)
  show "wakeable s' t = wakeable s t"
    by (auto simp: wakeable_def pq f)
  show "wake_calls s' t = wake_calls s t" if "wakeable s t"
    using that by (auto simp: wake_calls_def wakeable_def pq f)
qed

lemma woken_procs_trans:
  assumes "woken_procs ts1 s P1" and "woken_procs ts2 s' P2" and "sosProcs s' = P1"
  shows "woken_procs (ts1 @ ts2) s P2"
proof -
  have "proc_of s' q = proc_of (s\<lparr>sosProcs := P1\<rparr>) q" "proc_of (s'\<lparr>sosProcs := P2\<rparr>) q = proc_of (s\<lparr>sosProcs := P2\<rparr>) q" for q
    using assms(3) by (simp_all add: proc_of_def process_lookup_def)
  moreover have "map_option (process_set_state st) (map_option (process_set_state st) po) = map_option (process_set_state st) po" for st po
    by (cases po) (simp_all add: process_set_state_def)
  ultimately show ?thesis
    using assms(1,2) by (auto simp: woken_procs_def)
qed

lemma isSentinel_node:
  assumes "bts s (sentinel s) = Some sn" and "bt_tid sn = L4_nilthread" and "bts s a = Some n"
  shows "isSentinel a s = Some (bt_tid n = L4_nilthread)"
  using assms by (simp add: isSentinel_def)

lemma unblock_loop_spec:
  fixes s :: "'z clock_st_scheme"
  assumes "sleepers (bts s) a as xs" and "distinct as" and "bts s (sentinel s) = Some sn" and "bt_tid sn = L4_nilthread"
    and "\<forall>x\<in>set xs. wakeable s (fst x)"
  shows "\<exists>P h as'. unblock_loop ts a d nd s = Some (fst (next_delay ts xs (d, nd)), snd (next_delay ts xs (d, nd)),
      s\<lparr>sosProcs := P, l4 := l4 s @ concat (map (wake_calls s) (expired ts xs)), bts := h\<rparr>) \<and>
    sleepers h a as' (filter (\<lambda>x. \<not> snd x \<le> ts) xs) \<and> distinct as' \<and> set as' \<subseteq> set as \<and>
    (\<forall>x. x \<notin> set as \<longrightarrow> h x = bts s x) \<and> h (sentinel s) = Some sn \<and> woken_procs (expired ts xs) s P"
  using assms
proof (induction xs arbitrary: a as s d nd)
  case Nil
  obtain n where n: "as = [a]" "a \<noteq> 0" "bts s a = Some n" "bt_tid n = L4_nilthread"
    using Nil.prems(1) by (cases "(bts s, a, as, [] :: (L4_ThreadId_t \<times> u64) list)" rule: sleepers.cases) (auto split: option.splits)
  have "unblock_loop ts a d nd s = Some (d, nd, s)"
    using n isSentinel_node [OF Nil.prems(3,4) n(3)] by (subst unblock_loop.simps) simp
  moreover have "s = s\<lparr>sosProcs := sosProcs s, l4 := l4 s, bts := bts s\<rparr>"
    by simp
  ultimately show ?case
    using Nil.prems n
    by (intro exI [of _ "sosProcs s"] exI [of _ "bts s"] exI [of _ "[a]"]) (simp add: expired_def woken_procs_def)
next
  case (Cons x xs)
  obtain t u where x: "x = (t, u)"
    by (cases x)
  obtain n bs where n: "as = a # bs" "a \<noteq> 0" "t \<noteq> L4_nilthread" "bts s a = Some n" "bt_tid n = t" "bt_unblock n = u"
      and rest: "sleepers (bts s) (bt_next n) bs xs"
    using Cons.prems(1) unfolding x
    by (cases "(bts s, a, as, (t, u) # xs)" rule: sleepers.cases) (auto split: option.splits)
  have ns: "isSentinel a s = Some False"
    using isSentinel_node [OF Cons.prems(3,4) n(4)] n by simp
  show ?case
  proof (cases "u \<le> ts")
    case True
    have wt: "wakeable s t"
      using Cons.prems(5) x by simp
    obtain P1 where P1: "wake_sleeper t s = Some (s\<lparr>sosProcs := P1, l4 := l4 s @ wake_calls s t\<rparr>)" "woken_procs [t] s P1"
      using wake_sleeper_spec [OF wt] proc_of_cong [of "s\<lparr>sosProcs := P, l4 := l4 s @ wake_calls s t\<rparr>" "s\<lparr>sosProcs := P\<rparr>" for P]
      by (auto simp: woken_procs_def)
    obtain b cs where b: "bt_next n = b" "bs = b # cs"
      using sleepers_not_Nil [OF rest] by blast
    obtain n' where n': "bts s b = Some n'"
      using sleepers_dom [OF rest, of b] b by auto
    have ab: "a \<noteq> b" "sentinel s \<noteq> a" "a \<notin> set cs" "b \<notin> set cs" "distinct cs"
      using Cons.prems(2-4) n b by auto
    define h3 where "h3 = (if bt_tid n' = L4_nilthread then (bts s)(a \<mapsto> n') else (bts s)(a \<mapsto> n', b := None))"
    define s3 where "s3 = s\<lparr>sosProcs := P1, l4 := l4 s @ wake_calls s t, bts := h3\<rparr>"
    have step: "unblock_loop ts a d nd s = unblock_loop ts a d nd s3"
      using n ns P1(1) b n' ab True Cons.prems(3,4)
      by (subst unblock_loop.simps) (simp add: isSentinel_def s3_def h3_def)
    have sl: "sleepers (bts s3) a (a # cs) xs"
      by (rule sleepers_move [OF rest [unfolded b]]) (use ab n(2) n' in \<open>auto simp: s3_def h3_def\<close>)
    have sn: "bts s3 (sentinel s3) = Some sn"
      using Cons.prems(3,4) ab n' by (auto simp: s3_def h3_def)
    have p3: "sosProcs s3 = P1"
      by (simp add: s3_def)
    note same = wake_calls_same [OF P1(2) p3]
    have w3: "\<forall>x\<in>set xs. wakeable s3 (fst x)"
      using Cons.prems(5) same(1) by simp
    have calls: "map (wake_calls s3) (expired ts xs) = map (wake_calls s) (expired ts xs)"
      using Cons.prems(5) same(2) by (auto simp: expired_def)
    have "distinct (a # cs)"
      using ab by simp
    from Cons.IH [OF sl this sn Cons.prems(4) w3, of d nd] obtain P h as' where
      r: "unblock_loop ts a d nd s3 = Some (fst (next_delay ts xs (d, nd)), snd (next_delay ts xs (d, nd)),
          s3\<lparr>sosProcs := P, l4 := l4 s3 @ concat (map (wake_calls s3) (expired ts xs)), bts := h\<rparr>)"
        "sleepers h a as' (filter (\<lambda>x. \<not> snd x \<le> ts) xs)" "distinct as'" "set as' \<subseteq> set (a # cs)"
        "\<forall>x. x \<notin> set (a # cs) \<longrightarrow> h x = bts s3 x" "h (sentinel s3) = Some sn" "woken_procs (expired ts xs) s3 P"
      by (elim exE conjE) (rule that)
    have "woken_procs ([t] @ expired ts xs) s P"
      using woken_procs_trans [OF P1(2) r(7) p3] .
    moreover have "\<forall>x. x \<notin> set as \<longrightarrow> h x = bts s x"
      using r(5) n(1) b(2) by (simp add: s3_def h3_def)
    ultimately show ?thesis
      using True step r(1-4,6) n(1) b(2) unfolding calls
      by (intro exI [of _ P] exI [of _ h] exI [of _ as']) (auto simp: x expired_def s3_def)
  next
    case False
    let ?dn = "if ucast (u - ts) < nd then (True, ucast (u - ts)) else (d, nd)"
    have step: "unblock_loop ts a d nd s = unblock_loop ts (bt_next n) (fst ?dn) (snd ?dn) s"
      using n ns False by (subst unblock_loop.simps) (simp add: Let_def)
    have "distinct bs" "\<forall>x\<in>set xs. wakeable s (fst x)"
      using Cons.prems n(1) by auto
    from Cons.IH [OF rest this(1) Cons.prems(3,4) this(2), of "fst ?dn" "snd ?dn"] obtain P h as' where
      r: "unblock_loop ts (bt_next n) (fst ?dn) (snd ?dn) s = Some (fst (next_delay ts xs ?dn), snd (next_delay ts xs ?dn),
          s\<lparr>sosProcs := P, l4 := l4 s @ concat (map (wake_calls s) (expired ts xs)), bts := h\<rparr>)"
        "sleepers h (bt_next n) as' (filter (\<lambda>x. \<not> snd x \<le> ts) xs)" "distinct as'" "set as' \<subseteq> set bs"
        "\<forall>x. x \<notin> set bs \<longrightarrow> h x = bts s x" "h (sentinel s) = Some sn" "woken_procs (expired ts xs) s P"
      unfolding prod.collapse by (elim exE conjE) (rule that)
    have a: "a \<notin> set bs"
      using Cons.prems(2) n(1) by simp
    then have "sleepers h a (a # as') (filter (\<lambda>x. \<not> snd x \<le> ts) (x # xs))"
      using r(2,5) n False by (simp add: x)
    moreover have "distinct (a # as')" "set (a # as') \<subseteq> set as"
      using r(3,4) a n(1) by auto
    moreover have "next_delay ts (x # xs) (d, nd) = next_delay ts xs ?dn"
      using False by (simp add: x)
    ultimately show ?thesis
      using step r(1,5-7) n(1) False by (intro exI [of _ P] exI [of _ h] exI [of _ "a # as'"]) (auto simp: x expired_def)
  qed
qed

lemma next_delay_waits:
  "fst (next_delay ts xs (d, nd)) \<longleftrightarrow> d \<or> (\<exists>x\<in>set xs. \<not> snd x \<le> ts \<and> ucast (snd x - ts) < nd)"
proof (induction xs arbitrary: d nd)
  case (Cons x xs)
  obtain t u where x: "x = (t, u)"
    by (cases x)
  consider "u \<le> ts" | "\<not> u \<le> ts" "ucast (u - ts) < nd" | "\<not> u \<le> ts" "\<not> ucast (u - ts) < nd"
    by blast
  then show ?case
    by cases (auto simp: x Cons.IH)
qed simp

lemma timers_irq:
  assumes "timers s xs" and "\<forall>x\<in>set xs. wakeable s (fst x)"
  shows "\<exists>s'. timer_irq later s = Some (1, s') \<and> timers s' (filter (\<lambda>x. \<not> snd x \<le> raw_time_stamp s) xs) \<and>
    l4 s' = l4 s @ concat (map (wake_calls s) (expired (raw_time_stamp s) xs)) \<and>
    woken_procs (expired (raw_time_stamp s) xs) s (sosProcs s') \<and>
    (ost_tim0_rl s' = 0 \<longleftrightarrow> (\<forall>x\<in>set xs. snd x \<le> raw_time_stamp s \<or> ucast (snd x - raw_time_stamp s) = (- 1 :: u32)))"
proof -
  let ?ts = "raw_time_stamp s"
  obtain as sn where t: "sleepers (bts s) (blocked_threads s) as xs" "distinct as" "bts s (sentinel s) = Some sn" "bt_tid sn = L4_nilthread"
    using assms(1) by (auto simp: timers_def)
  obtain P h as' where r: "unblock_loop ?ts (blocked_threads s) False (- 1) s =
        Some (fst (next_delay ?ts xs (False, - 1)), snd (next_delay ?ts xs (False, - 1)),
          s\<lparr>sosProcs := P, l4 := l4 s @ concat (map (wake_calls s) (expired ?ts xs)), bts := h\<rparr>)"
      "sleepers h (blocked_threads s) as' (filter (\<lambda>x. \<not> snd x \<le> ?ts) xs)" "distinct as'" "h (sentinel s) = Some sn"
      "woken_procs (expired ?ts xs) s P"
    using unblock_loop_spec [OF t assms(2), of ?ts False "- 1"] by (elim exE conjE) (rule that)
  have b0: "blocked_threads s \<noteq> 0"
    using t(1) by (cases "(bts s, blocked_threads s, as, xs)" rule: sleepers.cases) auto
  have or3: "(x OR 3 :: u32) \<noteq> 0" for x
  proof
    assume "x OR 3 = 0"
    then have "bit (x OR 3) 0 = bit (0 :: u32) 0"
      by simp
    then show False
      by (simp add: bit_simps)
  qed
  have "(ucast (v :: u64) < (- 1 :: u32)) = (ucast v \<noteq> (- 1 :: u32))" for v
    by (simp add: less_le)
  then have "fst (next_delay ?ts xs (False, - 1)) \<longleftrightarrow> \<not> (\<forall>x\<in>set xs. snd x \<le> ?ts \<or> ucast (snd x - ?ts) = (- 1 :: u32))"
    unfolding next_delay_waits by auto
  then show ?thesis
    using r t b0 or3 by (auto simp: timer_irq_def timers_def Let_def)
qed

text \<open>
  C14. Let every sleeper be a thread that can be woken: its process exists and takes messages. A timer
  interrupt wakes exactly the sleepers whose time has come: each of them is set running and gets its
  reply, in the order of the list, the others stay on the list in their order, and the list, from which
  nodes are deleted by copying, is well-formed again. The timer is set for another interrupt exactly when
  some sleeper is left whose remaining time is not 0xFFFFFFFF modulo 2^32. So it stays off when nobody is
  left, and, which is a defect of the code, also when the only sleepers left have that remaining time.
\<close>

theorem timer_irq_wakes:
  assumes "timers s xs" and "\<forall>x\<in>set xs. wakeable s (fst x)"
  shows "\<exists>s'. timer_irq later s = Some (1, s') \<and> timers s' (filter (\<lambda>x. \<not> snd x \<le> raw_time_stamp s) xs) \<and>
    l4 s' = l4 s @ concat (map (wake_calls s) (expired (raw_time_stamp s) xs)) \<and>
    woken_procs (expired (raw_time_stamp s) xs) s (sosProcs s') \<and>
    (ost_tim0_rl s' = 0 \<longleftrightarrow> (\<forall>x\<in>set xs. snd x \<le> raw_time_stamp s \<or> ucast (snd x - raw_time_stamp s) = (- 1 :: u32)))"
  by (rule timers_irq [OF assms])

section \<open>Runs of the clock driver\<close>

text \<open>
  A thread goes to sleep, an interrupt is handled, time passes, or another part of the system runs: it
  may send messages and change processes, but does not end those that can be woken.
\<close>

inductive clock_step :: "'z clock_st_scheme \<Rightarrow> 'z clock_st_scheme \<Rightarrow> bool" where
  ck_register: "register_timer delay t s = Some (r, s') \<Longrightarrow> wakeable s t \<Longrightarrow> bts s (bt_addr s) = None \<Longrightarrow> clock_step s s'"
| ck_timer: "timer_irq later s = Some (r, s') \<Longrightarrow> clock_step s s'"
| ck_timestamp: "timestamp_irq s = (r, s') \<Longrightarrow> clock_step s s'"
| ck_time: "clock_step s (s\<lparr>ost_ts := ticks, ost_tim0 := left, bt_addr := a\<rparr>)"
| ck_other: "bts s' = bts s \<Longrightarrow> blocked_threads s' = blocked_threads s \<Longrightarrow> sentinel s' = sentinel s \<Longrightarrow>
    \<forall>t. wakeable s t \<longrightarrow> wakeable s' t \<Longrightarrow> l4 s' = l4 s @ tr \<Longrightarrow> clock_step s s'"

definition deadline :: "u64 \<Rightarrow> 'z clock_st_scheme \<Rightarrow> u64" where
  "deadline delay s = raw_time_stamp s + (if NSLU2_US2TICKS delay = 0 then 1 else NSLU2_US2TICKS delay)"

lemma wakeable_cong:
  assumes "\<And>q. proc_of s' q = (if q = pid then map_option (process_set_state st) (proc_of s q) else proc_of s q)"
  shows "wakeable s' t = wakeable s t"
proof -
  have "process_get_ipcfilt (process_set_state st p) = process_get_ipcfilt p" for p
    by (simp add: process_get_ipcfilt_def process_set_state_def)
  then show ?thesis
    by (auto simp: wakeable_def assms)
qed

lemma register_timers:
  assumes r: "register_timer delay t s = Some (r, s')" and t: "timers s xs" and fresh: "bts s (bt_addr s) = None"
    and nil: "wakeable s t"
  shows "timers s' ((t, deadline delay s) # xs)" and "wakeable s' q = wakeable s q" and "l4 s' = l4 s"
proof -
  obtain as sn where as: "sleepers (bts s) (blocked_threads s) as xs" "distinct as" "bts s (sentinel s) = Some sn" "bt_tid sn = L4_nilthread"
    using t by (auto simp: timers_def)
  obtain p where p: "proc_of s (fst t) = Some p"
    using nil by (auto simp: wakeable_def)
  define s1 where "s1 = s\<lparr>bts := (bts s)(bt_addr s \<mapsto> \<lparr>bt_tid = t, bt_unblock = deadline delay s, bt_next = blocked_threads s\<rparr>),
      blocked_threads := bt_addr s\<rparr>"
  have "proc_of s1 (fst t) = Some p"
    using p proc_of_cong [of s1 s] by (simp add: s1_def)
  then obtain P where P: "upd_proc (fst t) (process_set_state PS_STATE_SLEEP) s1 = Some (s1\<lparr>sosProcs := P\<rparr>)"
      "\<And>q. proc_of (s1\<lparr>sosProcs := P\<rparr>) q = (if q = fst t then Some (process_set_state PS_STATE_SLEEP p) else proc_of s1 q)"
    using upd_proc_proc [of s1 "fst t" p "process_set_state PS_STATE_SLEEP"] by blast
  have s': "bts s' = bts s1" "blocked_threads s' = bt_addr s" "sentinel s' = sentinel s" "sosProcs s' = P" "l4 s' = l4 s" "bt_addr s \<noteq> 0"
    using r P(1) by (auto simp: register_timer_def deadline_def s1_def Let_def split: if_splits)
  have notin: "bt_addr s \<notin> set as"
    using sleepers_dom [OF as(1), of "bt_addr s"] fresh by blast
  then have "\<And>x. x \<in> set as \<Longrightarrow> bts s1 x = bts s x"
    by (auto simp: s1_def)
  from sleepers_cong [of as, OF this] have "sleepers (bts s1) (blocked_threads s) as xs"
    using as(1) by simp
  then have "sleepers (bts s1) (bt_addr s) (bt_addr s # as) ((t, deadline delay s) # xs)"
    using s'(6) nil by (simp add: s1_def wakeable_def)
  moreover have "bts s1 (sentinel s) = Some sn"
    using as(3) fresh by (auto simp: s1_def)
  ultimately show "timers s' ((t, deadline delay s) # xs)"
    using as(2,4) notin unfolding timers_def s' by (intro conjI exI [of _ "bt_addr s # as"]) auto
  have "proc_of s' q = (if q = fst t then map_option (process_set_state PS_STATE_SLEEP) (proc_of s q) else proc_of s q)" for q
    using P(2) [of q] p proc_of_cong [of s' "s1\<lparr>sosProcs := P\<rparr>" q] proc_of_cong [of s1 s q] s'(4) by (auto simp: s1_def)
  then show "wakeable s' q = wakeable s q"
    by (rule wakeable_cong)
  show "l4 s' = l4 s"
    by (rule s'(5))
qed

definition answered :: "L4_ThreadId_t \<Rightarrow> l4_call list \<Rightarrow> bool" where
  "answered t tr \<longleftrightarrow> (\<exists>ty. Ipc t ty (syscall_word SOS_REPLY) [0] \<in> set tr)"

definition tracked :: "'z clock_st_scheme \<Rightarrow> L4_ThreadId_t \<Rightarrow> u64 \<Rightarrow> 'z clock_st_scheme \<Rightarrow> bool" where
  "tracked s0 t u s \<longleftrightarrow> (\<exists>xs tr. timers s xs \<and> (\<forall>x\<in>set xs. wakeable s (fst x)) \<and> l4 s = l4 s0 @ tr \<and>
     ((t, u) \<in> set xs \<or> answered t tr))"

lemma expired_answered: "(t, u) \<in> set xs \<Longrightarrow> u \<le> ts \<Longrightarrow> answered t (concat (map (wake_calls s) (expired ts xs)))"
proof -
  assume "(t, u) \<in> set xs" and "u \<le> ts"
  then have "t \<in> set (expired ts xs)"
    by (force simp: expired_def)
  moreover have "\<exists>ty. Ipc t ty (syscall_word SOS_REPLY) [0] \<in> set (wake_calls s t)"
    by (simp add: wake_calls_def)
  ultimately show ?thesis
    unfolding answered_def by auto
qed

lemma tracked_irq:
  assumes "tracked s0 t u s"
  obtains s' tr where "timer_irq later s = Some (1, s')" "tracked s0 t u s'" "l4 s' = l4 s0 @ tr" "u \<le> raw_time_stamp s \<Longrightarrow> answered t tr"
proof -
  obtain xs tr where x: "timers s xs" "\<forall>x\<in>set xs. wakeable s (fst x)" "l4 s = l4 s0 @ tr" "(t, u) \<in> set xs \<or> answered t tr"
    using assms by (auto simp: tracked_def)
  let ?ts = "raw_time_stamp s"
  obtain s' where s': "timer_irq later s = Some (1, s')" "timers s' (filter (\<lambda>x. \<not> snd x \<le> ?ts) xs)"
      "l4 s' = l4 s @ concat (map (wake_calls s) (expired ?ts xs))" "woken_procs (expired ?ts xs) s (sosProcs s')"
    using timers_irq [OF x(1,2)] by blast
  let ?tr = "tr @ concat (map (wake_calls s) (expired ?ts xs))"
  have a: "answered t ?tr \<or> (t, u) \<in> set xs \<and> \<not> u \<le> ?ts"
    using x(4) expired_answered [of t u xs ?ts s] by (auto simp: answered_def)
  have "\<forall>x\<in>set (filter (\<lambda>x. \<not> snd x \<le> ?ts) xs). wakeable s' (fst x)"
    using x(2) wake_calls_same(1) [OF s'(4) refl] by simp
  then have "tracked s0 t u s'"
    using s'(2,3) x(3) a unfolding tracked_def
    by (intro exI [of _ "filter (\<lambda>x. \<not> snd x \<le> ?ts) xs"] exI [of _ ?tr]) auto
  then show thesis
    using that [OF s'(1), of ?tr] s'(3) x(3) a by auto
qed

lemma tracked_step: "clock_step s s' \<Longrightarrow> tracked s0 t u s \<Longrightarrow> tracked s0 t u s'"
proof (induction rule: clock_step.induct)
  case (ck_register delay q s r s')
  obtain xs tr where x: "timers s xs" "\<forall>x\<in>set xs. wakeable s (fst x)" "l4 s = l4 s0 @ tr" "(t, u) \<in> set xs \<or> answered t tr"
    using ck_register.prems by (auto simp: tracked_def)
  note g = register_timers [OF ck_register(1) x(1) ck_register(3,2)]
  show ?case
    unfolding tracked_def using g x ck_register(2)
    by (intro exI [of _ "(q, deadline delay s) # xs"] exI [of _ tr]) auto
next
  case (ck_timer later s r s')
  then show ?case
    using tracked_irq [of s0 t u s later "tracked s0 t u s'"] by simp
next
  case (ck_timestamp s r s')
  then have s': "s' = s\<lparr>ts_overflow := ts_overflow s + 1, ost_sts := ost_sts s OR CLEAR_ST\<rparr>"
    by (simp add: timestamp_irq_def)
  have "wakeable s' q = wakeable s q" for q
    using proc_of_cong [of s' s] by (simp add: s' wakeable_def)
  then show ?case
    using ck_timestamp.prems by (simp add: tracked_def timers_def s')
next
  case (ck_time s a left ticks)
  let ?s = "s\<lparr>ost_ts := ticks, ost_tim0 := left, bt_addr := a\<rparr>"
  have "wakeable ?s q = wakeable s q" for q
    using proc_of_cong [of ?s s] by (simp add: wakeable_def)
  then show ?case
    using ck_time.prems by (simp add: tracked_def timers_def)
next
  case (ck_other s' s tr')
  obtain xs tr where x: "timers s xs" "\<forall>x\<in>set xs. wakeable s (fst x)" "l4 s = l4 s0 @ tr" "(t, u) \<in> set xs \<or> answered t tr"
    using ck_other.prems by (auto simp: tracked_def)
  have "timers s' xs"
    using x(1) ck_other(1-3) by (simp add: timers_def)
  then show ?case
    unfolding tracked_def using x ck_other(4,5)
    by (intro exI [of _ xs] exI [of _ "tr @ tr'"]) (auto simp: answered_def)
qed

text \<open>
  C13. No sleeper is forgotten: once a thread has gone to sleep for \<open>delay\<close> microseconds, then whatever
  else happens -- other threads going to sleep and being woken, overflows of the counter, other work of
  the kernel that does not end the sleeping processes -- the first timer interrupt that is handled at or
  after its deadline finds the thread answered, or answers it.
\<close>

theorem sleeper_is_woken:
  assumes "timers s xs" and "\<forall>x\<in>set xs. wakeable s (fst x)" and "wakeable s t" and "bts s (bt_addr s) = None"
    and "register_timer delay t s = Some (r, s1)" and "clock_step\<^sup>*\<^sup>* s1 s2" and "deadline delay s \<le> raw_time_stamp s2"
  shows "\<exists>s3 tr ty. timer_irq later s2 = Some (1, s3) \<and> l4 s3 = l4 s1 @ tr \<and> Ipc t ty (syscall_word SOS_REPLY) [0] \<in> set tr"
proof -
  note g = register_timers [OF assms(5,1,4,3)]
  have "tracked s1 t (deadline delay s) s1"
    using g assms(2,3) unfolding tracked_def by (intro exI [of _ "(t, deadline delay s) # xs"] exI [of _ "[]"]) simp
  with assms(6) have "tracked s1 t (deadline delay s) s2"
    by (induction rule: rtranclp_induct) (auto intro: tracked_step)
  then show ?thesis
    using assms(7) by (elim tracked_irq [of s1 t "deadline delay s" s2 later]) (auto simp: answered_def)
qed

section \<open>Units\<close>

text \<open>
  C22. The conversions between microseconds and ticks of the counter (3333 ticks in 50 microseconds) lose
  less than one microsecond together, for all delays whose product with 3333 fits 64 bits -- in
  particular for every delay the system call can carry.
\<close>

theorem clock_conversion:
  assumes "unat us * 3333 < 2 ^ 64"
  shows "unat (NSLU2_TICKS2US (NSLU2_US2TICKS us)) \<le> unat us \<and> unat us \<le> unat (NSLU2_TICKS2US (NSLU2_US2TICKS us)) + 1"
proof -
  let ?n = "unat us"
  let ?q = "?n * 3333 div 50"
  have "?q * 50 \<le> ?n * 3333"
    by (rule div_times_less_eq_dividend)
  then have "unat (NSLU2_TICKS2US (NSLU2_US2TICKS us)) = ?q * 50 div 3333"
    using assms by (simp add: NSLU2_TICKS2US_def NSLU2_US2TICKS_def unat_div unat_word_ariths)
  moreover have "?q * 50 div 3333 \<le> ?n * 3333 div 3333"
    by (rule div_le_mono) fact
  moreover have "?n \<le> ?q * 50 div 3333 + 1"
  proof (cases ?n)
    case (Suc k)
    have "?n * 3333 < ?q * 50 + 50"
      using div_mult_mod_eq [of "?n * 3333" 50] mod_less_divisor [of 50 "?n * 3333"] by linarith
    then have "k * 3333 \<le> ?q * 50"
      using Suc by linarith
    then have "k * 3333 div 3333 \<le> ?q * 50 div 3333"
      by (rule div_le_mono)
    then show ?thesis
      using Suc by simp
  qed simp
  ultimately show ?thesis
    by simp
qed

theorem clock_conversion_witness:
  "unat (NSLU2_TICKS2US (NSLU2_US2TICKS 1000)) \<le> 1000 \<and> 1000 \<le> unat (NSLU2_TICKS2US (NSLU2_US2TICKS 1000)) + 1"
  using clock_conversion [of 1000] by simp

section \<open>Examples\<close>

text \<open>Thread 5 sleeps until tick 50; the counter is at 100.\<close>

definition clock_example :: clock_st where
  "clock_example = pager_st.extend spaces_example
     (clock_st.fields [] 0 [0x100 \<mapsto> \<lparr>bt_tid = (5, 1), bt_unblock = 50, bt_next = 0x200\<rparr>,
        0x200 \<mapsto> \<lparr>bt_tid = (0, 0), bt_unblock = 0, bt_next = 0\<rparr>] 0x100 0x200 0x300 100 0 0 0 None)"

lemma clock_example_fields:
  "bts clock_example = [0x100 \<mapsto> \<lparr>bt_tid = (5, 1), bt_unblock = 50, bt_next = 0x200\<rparr>,
     0x200 \<mapsto> \<lparr>bt_tid = (0, 0), bt_unblock = 0, bt_next = 0\<rparr>]"
  "blocked_threads clock_example = 0x100" "sentinel clock_example = 0x200" "bt_addr clock_example = 0x300"
  "ost_ts clock_example = 100" "ts_overflow clock_example = 0" "ost_tim0 clock_example = 0"
  by (simp_all add: clock_example_def clock_st.defs pager_st.defs)

lemma clock_example_proc: "proc_of clock_example = proc_of spaces_example"
proof -
  have "sosProcs clock_example = sosProcs spaces_example"
    by (simp add: clock_example_def clock_st.defs pager_st.defs spaces_example_defs)
  then show ?thesis
    by (simp add: fun_eq_iff proc_of_def process_lookup_def)
qed

lemma clock_example_timers: "timers clock_example [((5, 1), 50)]"
  unfolding timers_def clock_example_fields by (intro conjI exI [of _ "[0x100, 0x200]"]) simp_all

lemma clock_example_wakeable: "wakeable clock_example (5, 1)" "wakeable clock_example (6, 1)"
  by (simp_all add: wakeable_def clock_example_proc spaces_example_proc space_example_def proc_example_def process_get_ipcfilt_def)

theorem timer_irq_wakes_witness:
  "\<exists>s'. timer_irq 110 clock_example = Some (1, s') \<and> timers s' [] \<and>
     l4 s' = l4 clock_example @ [CacheFlushAll, Ipc (5, 1) SOS_IPC_REPLY (syscall_word SOS_REPLY) [0]]"
  using timer_irq_wakes [OF clock_example_timers, of 110] clock_example_wakeable
  by (auto simp: raw_time_stamp_def clock_example_fields expired_def wake_calls_def clock_example_proc spaces_example_proc
      space_example_def proc_example_def process_get_ipcfilt_def)

theorem sleeper_is_woken_witness:
  "\<exists>r s1 s3 tr ty. register_timer 1 (6, 1) clock_example = Some (r, s1) \<and>
     timer_irq 2000 (s1\<lparr>ost_ts := 1000, ost_tim0 := 0, bt_addr := 0x400\<rparr>) = Some (1, s3) \<and>
     l4 s3 = l4 s1 @ tr \<and> Ipc (6, 1) ty (syscall_word SOS_REPLY) [0] \<in> set tr"
proof -
  let ?h = "(bts clock_example)(0x300 \<mapsto> \<lparr>bt_tid = (6, 1), bt_unblock = 166, bt_next = 0x100\<rparr>)"
  let ?c = "clock_example\<lparr>bts := ?h, blocked_threads := 0x300\<rparr>"
  have "proc_of ?c (fst (6, 1)) = Some (space_example 6 0x3000)"
    using proc_of_cong [of ?c clock_example] clock_example_proc by (simp add: spaces_example_proc)
  then obtain r s1 where s1: "register_timer 1 (6, 1) clock_example = Some (r, s1)" "ts_overflow s1 = 0"
    using upd_proc_proc [of ?c "fst (6, 1)" "space_example 6 0x3000" "process_set_state PS_STATE_SLEEP"]
    by (auto simp: register_timer_def raw_time_stamp_def clock_example_fields NSLU2_US2TICKS_def Let_def)
  let ?s2 = "s1\<lparr>ost_ts := 1000, ost_tim0 := 0, bt_addr := 0x400\<rparr>"
  have "deadline 1 clock_example \<le> raw_time_stamp ?s2"
    by (simp add: deadline_def raw_time_stamp_def clock_example_fields s1(2) NSLU2_US2TICKS_def)
  then show ?thesis
    using sleeper_is_woken [OF clock_example_timers _ clock_example_wakeable(2) _ s1(1) r_into_rtranclp [where r = clock_step, OF ck_time]] s1(1)
      clock_example_wakeable by (auto simp: clock_example_fields)
qed

end
