(* ===== verification/UserCopy.thy ===== *)
theory UserCopy
  imports Spaces
begin

text \<open>
  Copying between user memory and the kernel's buffers: bytes of physical frames, the copy loops of
  \<^verbatim>\<open>src/sos/pager.c\<close>, and the whole of \<^verbatim>\<open>copyIn\<close> and \<^verbatim>\<open>copyOut\<close> over several resident pages.
\<close>

section \<open>Bytes in words\<close>

lemma byte_off: "unat (a AND 3 :: u32) = unat a mod 4"
proof -
  have "a AND 3 = a mod 4"
    using take_bit_eq_mask [of 2 a] by (simp add: mask_eq_exp_minus_1 take_bit_eq_mod)
  then show ?thesis
    by (simp add: unat_mod)
qed

lemma byte_shift_bounds: "byte_shift a \<in> {0, 8, 16, 24}"
proof -
  have "unat a mod 4 < 4"
    by simp
  then have "unat a mod 4 = 0 \<or> unat a mod 4 = 1 \<or> unat a mod 4 = 2 \<or> unat a mod 4 = 3"
    by arith
  then show ?thesis
    by (auto simp: byte_shift_def byte_off)
qed

lemma byte_addr_inj: "a AND NOT 3 = b AND NOT 3 \<Longrightarrow> byte_shift a = byte_shift b \<Longrightarrow> a = b"
proof -
  assume eq: "a AND NOT 3 = b AND NOT 3" "byte_shift a = byte_shift b"
  have "unat a mod 4 < 4" "unat b mod 4 < 4"
    by simp_all
  then have "unat (a AND 3) = unat (b AND 3)"
    using eq(2) unfolding byte_shift_def byte_off by arith
  then have "a AND 3 = b AND 3"
    by (simp only: word_unat_eq_iff)
  moreover have "x = (x AND NOT 3) OR (x AND 3)" for x :: u32
    by (simp flip: bit.conj_disj_distrib)
  ultimately show "a = b"
    using eq(1) by metis
qed

lemma get_put_byte: "get_byte (put_byte m a c) b = (if a = b then c else get_byte m b)"
proof -
  let ?v = "of_nat (of_char c) :: u32" and ?F = "0xFF :: u32"
  have F: "?F = mask 8"
    by (simp add: mask_eq_exp_minus_1)
  have v: "n < 8" if "bit (of_char c :: nat) n" for n
  proof (rule ccontr)
    assume "\<not> n < 8"
    moreover have "take_bit 8 (of_char c :: nat) = of_char c"
      by (simp add: take_bit_nat_eq_self)
    ultimately show False
      using that by (metis bit_take_bit_iff)
  qed
  have same: "drop_bit k ((w AND NOT (push_bit k ?F)) OR push_bit k ?v) AND ?F = ?v"
    if "k \<in> {0, 8, 16, 24}" for k :: nat and w :: u32
    using that unfolding F by (intro bit_word_eqI) (auto simp: bit_simps dest: v)
  have other: "drop_bit k ((w AND NOT (push_bit j ?F)) OR push_bit j ?v) AND ?F = drop_bit k w AND ?F"
    if "k \<in> {0, 8, 16, 24}" "j \<in> {0, 8, 16, 24}" "j \<noteq> k" for j k :: nat and w :: u32
    using that unfolding F by (intro bit_word_eqI) (auto simp: bit_simps dest: v)
  have "of_char c < (2 ^ LENGTH(32) :: nat)"
    by (rule order_less_le_trans [of _ 256]) simp_all
  then have "unat ?v = of_char c"
    unfolding unat_of_nat by (rule mod_less)
  then have g: "char_of (unat ?v) = c"
    by (simp only: char_of_char)
  show ?thesis
  proof (cases "a AND NOT 3 = b AND NOT 3 \<and> byte_shift a \<noteq> byte_shift b")
    case True
    then show ?thesis
      using other [OF byte_shift_bounds [of b] byte_shift_bounds [of a]]
      by (auto simp only: get_byte_def put_byte_def fun_upd_same simp_thms if_False split: if_splits)
  next
    case False
    then consider "a = b" | "a \<noteq> b" "a AND NOT 3 \<noteq> b AND NOT 3"
      using byte_addr_inj by blast
    then show ?thesis
      by cases (simp_all only: get_byte_def put_byte_def fun_upd_same fun_upd_other same [OF byte_shift_bounds] g simp_thms if_True if_False)
  qed
qed

text \<open>Writing a byte changes words of its own page only.\<close>

lemma put_byte_page:
  assumes "x AND 0xFFFFF000 \<noteq> a AND 0xFFFFF000"
  shows "put_byte m a c x = m x"
proof -
  have "(NOT 3 AND 0xFFFFF000 :: u32) = 0xFFFFF000"
    by simp
  then have "(a AND NOT 3) AND 0xFFFFF000 = a AND 0xFFFFF000"
    by (simp only: and.assoc)
  with assms have "x \<noteq> a AND NOT 3"
    by metis
  then show ?thesis
    by (simp add: put_byte_def)
qed

section \<open>The copy loops\<close>

text \<open>The number of bytes from an address to the end of its page.\<close>

definition page_left :: "u32 \<Rightarrow> nat" where
  "page_left a = 4096 - unat a mod 4096"

lemma unat_Suc_page: "unat (a + 1 :: u32) mod 4096 = Suc (unat a) mod 4096"
proof -
  have "unat (a + 1) = Suc (unat a) mod 2 ^ 32"
    by (simp add: unat_word_ariths)
  moreover have "Suc (unat a) mod 2 ^ 32 mod 4096 = Suc (unat a) mod 4096"
    by (rule mod_mod_cancel) simp
  ultimately show ?thesis
    by simp
qed

lemma page_left_next:
  "isPageAligned (a + 1) \<longleftrightarrow> page_left a = 1"
  "\<not> isPageAligned (a + 1) \<Longrightarrow> page_left (a + 1) = page_left a - 1"
proof -
  have al: "isPageAligned (a + 1) \<longleftrightarrow> unat a mod 4096 = 4095"
    by (simp add: isPageAligned_def page_aligned_iff unat_Suc_page mod_Suc)
  have lt: "unat a mod 4096 < 4096"
    by simp
  show "isPageAligned (a + 1) \<longleftrightarrow> page_left a = 1"
    using lt unfolding al page_left_def by arith
  show "page_left (a + 1) = page_left a - 1" if "\<not> isPageAligned (a + 1)"
    using that unfolding al page_left_def unat_Suc_page by (simp add: mod_Suc)
qed

lemma page_left_bounds: "0 < page_left a" "page_left a \<le> 4096"
  by (simp_all add: page_left_def)

lemma copyIn_loop_spec:
  "copyIn_loop m dst src offset sz b =
     (let n = min (sz - offset) (page_left src) in
      (offset + n, \<lambda>i. if dst \<le> i \<and> i < dst + n then get_byte m (src + of_nat (i - dst)) else b i))"
proof (induction m dst src offset sz b rule: copyIn_loop.induct)
  case (1 m dst src offset sz b)
  let ?b = "b(dst := get_byte m src)"
  show ?case
  proof (cases "offset < sz")
    case False
    moreover have "\<not> (dst \<le> i \<and> i < dst + 0)" for i
      by simp
    ultimately show ?thesis
      by (subst copyIn_loop.simps) (simp only: Let_def if_False diff_is_0_eq' not_less min_0L add_0_right leD)
  next
    case lt: True
    show ?thesis
    proof (cases "isPageAligned (src + 1)")
      case True
      then have "min (sz - offset) (page_left src) = 1"
        using lt page_left_next(1) by simp
      with lt True show ?thesis
        by (subst copyIn_loop.simps) (auto simp: Let_def fun_eq_iff)
    next
      case False
      have n: "min (sz - offset) (page_left src) = Suc (min (sz - (offset + 1)) (page_left (src + 1)))"
        using lt page_left_next(2) [OF False] page_left_bounds(1) [of src] by simp
      have sh: "src + 1 + of_nat (i - (dst + 1)) = src + of_nat (i - dst)" if "dst < i" for i
        using that by (auto dest!: less_imp_Suc_add)
      have eq: "(\<lambda>i. if dst + 1 \<le> i \<and> i < dst + 1 + k then get_byte m (src + 1 + of_nat (i - (dst + 1))) else ?b i) =
          (\<lambda>i. if dst \<le> i \<and> i < dst + Suc k then get_byte m (src + of_nat (i - dst)) else b i)" for k
      proof
        fix i
        consider "i < dst" | "i = dst" | "dst < i"
          by linarith
        then show "(if dst + 1 \<le> i \<and> i < dst + 1 + k then get_byte m (src + 1 + of_nat (i - (dst + 1))) else ?b i) =
            (if dst \<le> i \<and> i < dst + Suc k then get_byte m (src + of_nat (i - dst)) else b i)"
          by cases (simp_all only: sh, simp_all)
      qed
      show ?thesis
        using lt False 1 [OF lt refl False]
        by (subst copyIn_loop.simps) (simp only: Let_def n eq if_True if_False, simp)
    qed
  qed
qed

lemma copyOut_loop_spec:
  "copyOut_loop b src dst offset sz m =
     (let n = min (sz - offset) (page_left dst) in
      (offset + n, put_bytes dst (map (\<lambda>i. b (src + i)) [0..<n]) m))"
proof (induction b src dst offset sz m rule: copyOut_loop.induct)
  case (1 b src dst offset sz m)
  show ?case
  proof (cases "offset < sz")
    case False
    then show ?thesis
      by (subst copyOut_loop.simps) simp
  next
    case lt: True
    show ?thesis
    proof (cases "isPageAligned (dst + 1)")
      case True
      then have "min (sz - offset) (page_left dst) = 1"
        using lt page_left_next(1) by simp
      with lt True show ?thesis
        by (subst copyOut_loop.simps) (simp add: Let_def)
    next
      case False
      have n: "min (sz - offset) (page_left dst) = Suc (min (sz - (offset + 1)) (page_left (dst + 1)))"
        using lt page_left_next(2) [OF False] page_left_bounds(1) [of dst] by simp
      have mp: "map (\<lambda>i. b (src + i)) [0..<Suc k] = b src # map (\<lambda>i. b (src + 1 + i)) [0..<k]" for k
        by (simp add: map_upt_Suc del: upt_Suc)
      show ?thesis
        using lt False 1 [OF lt refl False]
        by (subst copyOut_loop.simps) (simp add: Let_def n mp del: upt_Suc)
    qed
  qed
qed

section \<open>Sequences of bytes\<close>

lemma get_put_bytes:
  "length cs \<le> 2 ^ 32 \<Longrightarrow>
   get_byte (put_bytes a cs m) x = (if unat (x - a) < length cs then cs ! unat (x - a) else get_byte m x)"
proof (induction cs arbitrary: a m)
  case (Cons c cs)
  have "unat (x - a) = Suc (unat (x - (a + 1)))" if "x \<noteq> a"
  proof -
    have "x - a \<noteq> 0"
      using that by simp
    then have "unat (x - a - 1) = unat (x - a) - 1" "0 < unat (x - a)"
      by (simp_all add: unat_minus_one word_neq_0_conv unat_gt_0)
    moreover have "x - a - 1 = x - (a + 1)"
      by simp
    ultimately show ?thesis
      by simp
  qed
  moreover have "unat (x - (a + 1)) = 2 ^ 32 - 1" if "x = a"
    using that by (simp add: unsigned_minus_1_eq_mask mask_eq_exp_minus_1)
  ultimately show ?case
    using Cons by (cases "x = a") (auto simp: get_put_byte)
qed simp

lemma page_next:
  assumes "unat (a :: u32) mod 4096 < 4095"
  shows "(a + 1) AND 0xFFFFF000 = a AND 0xFFFFF000"
proof -
  have "unat a < 2 ^ 32"
    using unsigned_less [of a] by simp
  moreover have "unat a \<noteq> 2 ^ 32 - 1"
    using assms by (intro notI) simp
  ultimately have "Suc (unat a) < 2 ^ 32"
    by simp
  then have "unat (a + 1) = Suc (unat a)"
    by (simp add: unat_word_ariths)
  moreover have "Suc (unat a) mod 4096 = Suc (unat a mod 4096)"
    using assms by (simp add: mod_Suc)
  ultimately show ?thesis
    by (simp add: word_unat_eq_iff unat_page)
qed

lemma put_bytes_page:
  "unat a mod 4096 + length cs \<le> 4096 \<Longrightarrow> x AND 0xFFFFF000 \<noteq> a AND 0xFFFFF000 \<Longrightarrow> put_bytes a cs m x = m x"
proof (induction cs arbitrary: a m)
  case (Cons c cs)
  show ?case
  proof (cases cs)
    case Nil
    then show ?thesis
      using Cons.prems by (simp add: put_byte_page)
  next
    case (Cons d ds)
    then have lt: "unat a mod 4096 < 4095"
      using Cons.prems by simp
    have "unat (a + 1) mod 4096 = Suc (unat a mod 4096)"
      using lt by (simp add: unat_Suc_page mod_Suc)
    moreover have "(a + 1) AND 0xFFFFF000 = a AND 0xFFFFF000"
      using page_next [OF lt] .
    ultimately show ?thesis
      using Cons.prems Cons.IH [of "a + 1"] by (simp add: put_byte_page)
  qed
qed simp

section \<open>User pages\<close>

text \<open>
  \<open>pages_inv\<close>: the pages of the list \<^verbatim>\<open>alloced\<close> have frames of their own, in use and not part of a
  page table. \<open>user_byte s pid a\<close> is the byte a process sees at address \<open>a\<close> of such a page.
\<close>

definition data_page :: "'z pager_st_scheme \<Rightarrow> u32 set \<Rightarrow> int \<times> u32 \<Rightarrow> bool" where
  "data_page s A x \<longleftrightarrow> resident s x \<and> user_entry s (fst x) (snd x) AND SWAP_MASK = 0 \<and> frame_of s x \<in> A \<and>
     (\<forall>q. frame_of s x \<notin> space_frames s q)"

definition pages_inv :: "'z pager_st_scheme \<Rightarrow> u32 list \<Rightarrow> u32 set \<Rightarrow> bool" where
  "pages_inv s F A \<longleftrightarrow> spaces_inv s F A \<and> (\<forall>x\<in>set (alloced s). data_page s A x) \<and>
     inj_on (frame_of s) (set (alloced s))"

definition user_byte :: "'z proc_st_scheme \<Rightarrow> int \<Rightarrow> u32 \<Rightarrow> char" where
  "user_byte s pid a = get_byte (mem s) (frame_of s (pid, a) + (a AND 0xFFF))"

lemma user_entry_div: "unat w div 4096 = unat a div 4096 \<Longrightarrow> user_entry s pid w = user_entry s pid a"
  using offs_eq_iff [of w a] by (simp add: user_entry_def pt_entry_def Let_def split: option.splits)

lemma user_entry_page: "user_entry s pid (a AND 0xFFFFF000) = user_entry s pid a"
  by (simp add: user_entry_def split: option.splits)

lemma frame_of_page: "frame_of s (pid, a AND 0xFFFFF000) = frame_of s (pid, a)"
  by (simp add: frame_of_def user_entry_page)

text \<open>The parts of a word in which the pager keeps the size and the progress of a copy.\<close>

lemma halves:
  assumes "n < 65536" and "k < 65536"
  shows "LO_HALF (of_nat n OR push_bit 16 (of_nat k)) = of_nat n" and "HI_HALF (of_nat n OR push_bit 16 (of_nat k)) = of_nat k"
proof -
  have m: "(0xFFFF :: u32) = mask 16"
    by (simp add: mask_eq_exp_minus_1)
  have b: "i < 16" if "bit n i \<or> bit k i" for i
  proof (rule ccontr)
    assume "\<not> i < 16"
    moreover have "take_bit 16 n = n" "take_bit 16 k = k"
      using assms by (simp_all add: take_bit_nat_eq_self)
    ultimately show False
      using that by (metis bit_take_bit_iff)
  qed
  show "LO_HALF (of_nat n OR push_bit 16 (of_nat k)) = of_nat n"
    unfolding LO_HALF_def m by (rule bit_word_eqI) (auto simp: bit_simps dest: b [OF disjI1] b [OF disjI2])
  show "HI_HALF (of_nat n OR push_bit 16 (of_nat k)) = of_nat k"
    unfolding HI_HALF_def m by (rule bit_word_eqI) (auto simp: bit_simps dest: b [OF disjI1] b [OF disjI2])
qed

section \<open>Addresses in frames\<close>

lemma frame_plus:
  assumes "is_frame f"
  shows "(f + (a AND 0xFFF)) AND 0xFFFFF000 = f" and "unat (f + (a AND 0xFFF)) mod 4096 = unat a mod 4096"
proof -
  have f: "unat f mod 4096 = 0"
    using assms by (simp add: is_frame_def page_aligned_iff)
  have u: "unat (f + (a AND 0xFFF)) = unat f + unat a mod 4096"
    using frame_bound [OF assms] by (simp add: unat_word_ariths unat_offset)
  show m: "unat (f + (a AND 0xFFF)) mod 4096 = unat a mod 4096"
    using f by (simp add: u mod_add_left_eq [symmetric])
  show "(f + (a AND 0xFFF)) AND 0xFFFFF000 = f"
    by (simp add: word_unat_eq_iff unat_page m) (simp add: u)
qed

lemma word_at_page:
  assumes "is_frame e" and "i < 1024"
  shows "word_at e i AND 0xFFFFF000 = e"
proof -
  have "unat e div 4096 * 4096 = unat e"
    using assms(1) by (metis is_frame_def page_aligned_iff add.right_neutral div_mult_mod_eq)
  then show ?thesis
    using word_at_div [OF assms] by (simp only: word_unat_eq_iff page_div)
qed

lemma get_byte_cong:
  assumes "\<And>x. x AND 0xFFFFF000 = a AND 0xFFFFF000 \<Longrightarrow> m' x = m x"
  shows "get_byte m' a = get_byte m a"
proof -
  have "(NOT 3 AND 0xFFFFF000 :: u32) = 0xFFFFF000"
    by simp
  then have "(a AND NOT 3) AND 0xFFFFF000 = a AND 0xFFFFF000"
    by (simp only: and.assoc)
  then show ?thesis
    using assms by (simp only: get_byte_def)
qed

section \<open>Touching a resident page\<close>

text \<open>
  \<open>same_pages s s'\<close>: only the memory, the microkernel's trace and the copy state differ, and every
  page keeps its frame.
\<close>

definition same_pages :: "'z pager_st_scheme \<Rightarrow> 'z pager_st_scheme \<Rightarrow> bool" where
  "same_pages s s' \<longleftrightarrow> (\<exists>m tr b d. s' = s\<lparr>mem := m, l4 := tr, copyInOutBuffer := b, copyInOutData := d\<rparr>) \<and>
     (\<forall>x. frame_of s' x = frame_of s x)"

definition same_bytes :: "'z pager_st_scheme \<Rightarrow> 'z pager_st_scheme \<Rightarrow> bool" where
  "same_bytes s s' \<longleftrightarrow> (\<forall>q a. (q, a AND PAGEALIGN) \<in> set (alloced s) \<longrightarrow> user_byte s' q a = user_byte s q a)"

text \<open>The messages among the requests to the microkernel; the others concern mappings, caches and threads.\<close>

definition messages :: "l4_call list \<Rightarrow> l4_call list" where
  "messages = filter (\<lambda>c. case c of Ipc _ _ _ _ \<Rightarrow> True | Reply _ \<Rightarrow> True | _ \<Rightarrow> False)"

lemma same_pagesI:
  "s' = s\<lparr>mem := mem s', l4 := l4 s', copyInOutBuffer := copyInOutBuffer s', copyInOutData := copyInOutData s'\<rparr> \<Longrightarrow>
   (\<And>x. frame_of s' x = frame_of s x) \<Longrightarrow> same_pages s s'"
  unfolding same_pages_def by blast

lemma same_pages_frame: "same_pages s s' \<Longrightarrow> frame_of s' x = frame_of s x"
  by (simp add: same_pages_def del: split_paired_All)

lemma same_pages_fields:
  assumes "same_pages s s'"
  shows "alloced s' = alloced s" "sosProcs s' = sosProcs s" "requests s' = requests s" "requestActive s' = requestActive s"
  using assms by (auto simp: same_pages_def)

lemma same_pages_trans: "same_pages s s1 \<Longrightarrow> same_pages s1 s2 \<Longrightarrow> same_pages s s2"
  unfolding same_pages_def by (elim conjE exE) (simp, blast)

lemma same_bytes_trans: "same_bytes s s1 \<Longrightarrow> same_bytes s1 s2 \<Longrightarrow> alloced s1 = alloced s \<Longrightarrow> same_bytes s s2"
  by (simp add: same_bytes_def)

lemma pages_inv_same:
  assumes "mem s' = mem s" and "firstFree s' = firstFree s" and "totalInUse s' = totalInUse s" and "sosProcs s' = sosProcs s"
    and "alloced s' = alloced s"
  shows "pages_inv s' F A = pages_inv s F A" and "frame_of s' = frame_of s" and "user_byte s' = user_byte s"
proof -
  note same = spaces_same [OF assms(1-4)]
  show f: "frame_of s' = frame_of s"
    by (simp add: fun_eq_iff frame_of_def same)
  show "user_byte s' = user_byte s"
    by (simp add: fun_eq_iff user_byte_def f assms(1))
  have "data_page s' A = data_page s A"
    by (simp add: fun_eq_iff data_page_def resident_def f same)
  then show "pages_inv s' F A = pages_inv s F A"
    by (simp add: pages_inv_def same f assms(5))
qed

lemma set_ref_frame [simp]: "((w AND 0xFFFFF000) OR 2) AND 0xFFFFF000 = (w AND 0xFFFFF000 :: u32)"
  and set_ref_swap [simp]: "((w AND 0xFFFFF000) OR 2) AND 1 = (0 :: u32)"
proof -
  have "((w AND 0xFFFFF000) OR 2) AND 0xFFFFF000 = (w AND 0xFFFFF000) OR (2 AND 0xFFFFF000)"
    by (simp only: bit.conj_disj_distrib2 and.assoc and.idem)
  then show "((w AND 0xFFFFF000) OR 2) AND 0xFFFFF000 = (w AND 0xFFFFF000 :: u32)"
    by simp
  have "((w AND 0xFFFFF000) OR 2) AND 1 = (w AND (0xFFFFF000 AND 1)) OR (2 AND 1 :: u32)"
    by (simp only: bit.conj_disj_distrib2 and.assoc)
  then show "((w AND 0xFFFFF000) OR 2) AND 1 = (0 :: u32)"
    by simp
qed

lemma touch_page:
  fixes s :: "'z pager_st_scheme"
  assumes inv: "pages_inv s F A" and p: "proc_of s pid = Some p" and a: "(pid, a AND 0xFFFFF000) \<in> set (alloced s)"
  obtains x where "entry_of (PProc p) a s = Some (x, s)" "x \<noteq> 0" "mem s x = user_entry s pid a"
    "frame_of s (pid, a) \<noteq> 0" "user_entry s pid a AND 1 = 0" "is_frame (frame_of s (pid, a))"
    "pages_inv (s\<lparr>mem := (mem s)(x := frame_of s (pid, a) OR 2)\<rparr>) F A"
    "same_pages s (s\<lparr>mem := (mem s)(x := frame_of s (pid, a) OR 2)\<rparr>)"
    "same_bytes s (s\<lparr>mem := (mem s)(x := frame_of s (pid, a) OR 2)\<rparr>)"
    "user_entry (s\<lparr>mem := (mem s)(x := frame_of s (pid, a) OR 2)\<rparr>) pid a = frame_of s (pid, a) OR 2"
proof -
  have sp: "spaces_inv s F A" and dp: "\<forall>y\<in>set (alloced s). data_page s A y" and inj: "inj_on (frame_of s) (set (alloced s))"
    using inv by (simp_all add: pages_inv_def)
  have d: "frame_of s (pid, a) \<noteq> 0" "user_entry s pid a AND 1 = 0" "frame_of s (pid, a) \<in> A"
    using dp a by (auto simp: data_page_def resident_def user_entry_page frame_of_page)
  have e: "user_entry s pid a \<noteq> 0"
    using d(1) by (auto simp: frame_of_def)
  obtain x where x: "entry_of (PProc p) a s = Some (x, s)" "points s (pagetable p) x a" "x \<noteq> 0" "mem s x = user_entry s pid a"
    using entry_of_present [OF sp p e] by blast
  define v where "v = frame_of s (pid, a) OR 2"
  have v: "v AND 0xFFFFF000 = frame_of s (pid, a)" "v AND 1 = 0"
    by (simp_all add: v_def frame_of_def)
  let ?s = "s\<lparr>mem := (mem s)(x := v)\<rparr>"
  note st = spaces_store [OF sp p x(2), of v]
  have fr: "frame_of ?s y = frame_of s y" for y
    using v(1) user_entry_div [of "snd y" a s pid] by (auto simp: frame_of_def st(3))
  have pr: "proc_of ?s = proc_of s"
    by (rule ext, rule proc_of_cong) simp
  have xe: "x AND 0xFFFFF000 \<in> space_frames s pid"
    using x(2) space_proc(1) [OF sp p]
    by (auto simp: space_frames_proc [OF p] points_def pt_frames_def word_at_page pt_inv_def)
  have "data_page ?s A y" if "y \<in> set (alloced s)" for y
    using dp that v(2) by (auto simp: data_page_def resident_def fr pr st(2,3))
  then have "pages_inv ?s F A"
    using st(1) inj by (simp add: pages_inv_def fr inj_on_def)
  moreover have "same_pages s ?s"
    by (rule same_pagesI) (simp_all add: fr)
  moreover have "user_byte ?s q b = user_byte s q b" if "(q, b AND 0xFFFFF000) \<in> set (alloced s)" for q b
  proof -
    have f: "frame_of s (q, b) \<in> A" "frame_of s (q, b) \<notin> space_frames s pid"
      using dp that by (auto simp: data_page_def frame_of_page)
    then have "is_frame (frame_of s (q, b))"
      using sp by (simp add: spaces_inv_def frames_inv_def)
    note page = frame_plus(1) [OF this, of b]
    show ?thesis
      unfolding user_byte_def fr
      by (rule get_byte_cong) (use page xe f(2) in auto)
  qed
  moreover have "is_frame (frame_of s (pid, a))"
    using d(3) sp by (simp add: spaces_inv_def frames_inv_def)
  ultimately show thesis
    using that [of x] x d st(3) [of pid a] by (simp add: same_bytes_def v_def)
qed

text \<open>The page fault path for such a page: the entry is marked and the page is mapped again.\<close>

lemma pagerAction_resident:
  fixes s :: "'z pager_st_scheme"
  assumes inv: "pages_inv s F A" and p: "proc_of s (pr_pid pr) = Some p"
    and a: "(pr_pid pr, pr_addr pr AND 0xFFFFF000) \<in> set (alloced s)"
    and r: "find (findRegion (pr_addr pr)) (regions p) = Some r" "region_get_rights r AND pr_rights pr \<noteq> 0"
  obtains s1 where "pagerAction start pr s = Some (True, s1)" "pages_inv s1 F A" "same_pages s s1" "same_bytes s s1"
    "copyInOutBuffer s1 = copyInOutBuffer s" "copyInOutData s1 = copyInOutData s" "messages (l4 s1) = messages (l4 s)"
proof -
  obtain x where x: "entry_of (PProc p) (pr_addr pr) s = Some (x, s)" "x \<noteq> 0" "mem s x = user_entry s (pr_pid pr) (pr_addr pr)"
      "frame_of s (pr_pid pr, pr_addr pr) \<noteq> 0" "user_entry s (pr_pid pr) (pr_addr pr) AND 1 = 0"
      "is_frame (frame_of s (pr_pid pr, pr_addr pr))"
    and t: "pages_inv (s\<lparr>mem := (mem s)(x := frame_of s (pr_pid pr, pr_addr pr) OR 2)\<rparr>) F A"
      "same_pages s (s\<lparr>mem := (mem s)(x := frame_of s (pr_pid pr, pr_addr pr) OR 2)\<rparr>)"
      "same_bytes s (s\<lparr>mem := (mem s)(x := frame_of s (pr_pid pr, pr_addr pr) OR 2)\<rparr>)"
    by (rule touch_page [OF inv p a])
  let ?s = "s\<lparr>mem := (mem s)(x := frame_of s (pr_pid pr, pr_addr pr) OR 2)\<rparr>"
  let ?s1 = "?s\<lparr>l4 := l4 s @ [MapFpage (pr_pid pr) (pr_addr pr AND 0xFFFFF000) (frame_of s (pr_pid pr, pr_addr pr)) (region_get_rights r)]\<rparr>"
  have fr: "frame_of s (pr_pid pr, pr_addr pr) = mem s x AND 0xFFFFF000"
    using x(3) by (simp add: frame_of_def)
  have sp: "spaces_inv s F A"
    using inv by (simp add: pages_inv_def)
  have "pagerAction start pr s = Some (True, ?s1)"
    using p r x space_proc(3) [OF sp p] unfolding fr
    by (simp add: pagerAction_def proc_of_lookup process_get_regions_def process_get_pid_def rd_entry_def wr_entry_def
        map_frame_def process_get_sid_def mapPage_def not_pagealign l4_do_def is_frame_def Let_def)
  moreover have "pages_inv ?s1 F A"
    using t(1) pages_inv_same(1) [of ?s1 ?s] by simp
  moreover have "same_pages s ?s1"
    by (rule same_pagesI) (use same_pages_frame [OF t(2)] pages_inv_same(2) [of ?s1 ?s] in simp_all)
  moreover have "same_bytes s ?s1"
    using t(3) pages_inv_same(3) [of ?s1 ?s] by (simp add: same_bytes_def)
  ultimately show thesis
    using that [of ?s1] by (simp add: messages_def)
qed

lemma syscall_reply_v_proc:
  assumes "proc_of s (fst tid) = Some p"
  shows "\<exists>tr. syscall_reply_v tid ws s = Some (s\<lparr>l4 := tr\<rparr>)"
proof -
  have "s = s\<lparr>l4 := l4 s\<rparr>"
    by simp
  then have "\<exists>tr. s = s\<lparr>l4 := tr\<rparr>"
    by (rule exI)
  then show ?thesis
    using assms by (auto simp: syscall_reply_v_def proc_of_lookup l4_do_def ipc_send_def Let_def)
qed

section \<open>Copying in\<close>

text \<open>The message a reply sends: none to a thread that is not waiting for one.\<close>

lemma syscall_reply_v_messages:
  assumes "proc_of s pid = Some p" and "syscall_reply_v (pid, 1) ws s = Some s2"
  shows "messages (l4 s2) = messages (l4 s) @
    (if pid = 0 \<or> process_get_ipcfilt p = PS_IPC_NONE \<or> process_get_state p \<in> {PS_STATE_ZOMBIE, PS_STATE_START} then []
     else [Ipc (pid, 1) (if process_get_ipcfilt p = PS_IPC_BLOCKING then SOS_IPC_SEND else SOS_IPC_REPLY) (syscall_word SOS_REPLY) ws])"
  using assms
  by (auto simp: syscall_reply_v_def proc_of_lookup l4_do_def ipc_send_def messages_def Let_def split: if_splits)

lemma within_page:
  assumes "j < page_left a"
  shows "unat (a + of_nat j) = unat a + j" and "(a + of_nat j) AND 0xFFFFF000 = a AND 0xFFFFF000"
    and "(a + of_nat j) AND 0xFFF = (a AND 0xFFF) + of_nat j"
proof -
  have j: "unat a mod 4096 + j < 4096"
    using assms by (simp add: page_left_def)
  have "unat a div 4096 < 2 ^ 20"
    using unsigned_less [of a] by (simp add: div_less_iff_less_mult)
  then have "unat a div 4096 * 4096 + 4096 \<le> 2 ^ 32"
    by simp
  then have "unat a + j < 2 ^ 32"
    using j div_mult_mod_eq [of "unat a" 4096] by linarith
  then show u: "unat (a + of_nat j) = unat a + j"
    by (simp add: unat_word_ariths unat_of_nat)
  have "unat a + j = (unat a mod 4096 + j) + unat a div 4096 * 4096"
    using div_mult_mod_eq [of "unat a" 4096] by linarith
  then have dm: "(unat a + j) div 4096 = unat a div 4096" "(unat a + j) mod 4096 = unat a mod 4096 + j"
    using j by (simp_all only: div_mult_self1 mod_mult_self1 mod_less div_less add_0_right)
  show "(a + of_nat j) AND 0xFFFFF000 = a AND 0xFFFFF000"
    by (simp add: word_unat_eq_iff page_div u dm)
  have "unat ((a AND 0xFFF) + of_nat j) = unat a mod 4096 + j"
    using j by (simp add: unat_word_ariths unat_of_nat unat_offset)
  then show "(a + of_nat j) AND 0xFFF = (a AND 0xFFF) + of_nat j"
    by (simp add: word_unat_eq_iff unat_offset u dm)
qed

lemma user_byte_page:
  assumes "j < page_left a"
  shows "user_byte s pid (a + of_nat j) = get_byte (mem s) (frame_of s (pid, a) + (a AND 0xFFF) + of_nat j)"
proof -
  have "frame_of s (pid, a + of_nat j) = frame_of s (pid, a)"
    using within_page(2) [OF assms] frame_of_page by metis
  then show ?thesis
    by (simp add: user_byte_def within_page(3) [OF assms] add.assoc)
qed

lemma entry_alloced:
  assumes "pages_inv s F A" and "proc_of s pid = Some p" and "(pid, a AND 0xFFFFF000) \<in> set (alloced s)"
  obtains x where "entry_of (PProc p) a s = Some (x, s)" "x \<noteq> 0" "mem s x = user_entry s pid a" "is_frame (frame_of s (pid, a))"
  by (rule touch_page [OF assms]) (rule that)

text \<open>What a copy knows of its progress: \<open>k\<close> of \<open>n\<close> bytes are done.\<close>

definition copy_progress :: "'z pager_st_scheme \<Rightarrow> int \<Rightarrow> nat \<Rightarrow> nat \<Rightarrow> bool" where
  "copy_progress s pid n k \<longleftrightarrow> copyInOutData s pid = of_nat n OR push_bit 16 (of_nat k) \<and> k \<le> n \<and> n \<le> 16384"

lemma copy_progress_halves:
  assumes "copy_progress s pid n k"
  shows "unat (min COPY_BUFSIZ (LO_HALF (copyInOutData s pid))) = n" and "unat (HI_HALF (copyInOutData s pid)) = k"
    and "min COPY_BUFSIZ (LO_HALF (copyInOutData s pid)) = of_nat n"
proof -
  have n: "n < 65536" "k < 65536" "n \<le> 16384"
    using assms by (simp_all add: copy_progress_def)
  have "min (0x4000 :: u32) (of_nat n) = of_nat n"
    using n by (simp add: min_def word_le_nat_alt unat_of_nat)
  then show m: "min COPY_BUFSIZ (LO_HALF (copyInOutData s pid)) = of_nat n"
    using assms halves(1) [OF n(1,2)] by (simp add: copy_progress_def)
  show "unat (min COPY_BUFSIZ (LO_HALF (copyInOutData s pid))) = n"
    unfolding m using n by (simp add: unat_of_nat)
  show "unat (HI_HALF (copyInOutData s pid)) = k"
    using assms halves(2) [OF n(1,2)] n by (simp add: copy_progress_def unat_of_nat)
qed

lemma page_left_frame: "is_frame f \<Longrightarrow> page_left (f + (a AND 0xFFF)) = page_left a"
  using frame_plus(2) by (simp add: page_left_def)

lemma copyInContinue_page:
  fixes s :: "'z pager_st_scheme"
  assumes inv: "pages_inv s F A" and p: "proc_of s (pr_pid pr) = Some p"
    and a: "(pr_pid pr, pr_addr pr AND 0xFFFFF000) \<in> set (alloced s)" and pid: "0 \<le> pr_pid pr" "pr_pid pr < 256"
    and pg: "copy_progress s (pr_pid pr) n k"
  defines "c \<equiv> min (n - k) (page_left (pr_addr pr))" and "B \<equiv> nat (pr_pid pr) * 16384 + k"
  obtains s1 where "copyInContinue pgr pr s = (if k + c = n then syscall_reply_v (pr_pid pr, 1) [] s1
      else pgr (pr\<lparr>pr_addr := (pr_addr pr + PAGESIZE) AND PAGEALIGN\<rparr>) s1)"
    "pages_inv s1 F A" "same_pages s s1" "same_bytes s s1" "copy_progress s1 (pr_pid pr) n (k + c)"
    "copyInOutBuffer s1 = (\<lambda>i. if B \<le> i \<and> i < B + c then user_byte s (pr_pid pr) (pr_addr pr + of_nat (i - B))
       else copyInOutBuffer s i)"
    "messages (l4 s1) = messages (l4 s)"
proof -
  let ?pid = "pr_pid pr" and ?a = "pr_addr pr"
  have sp: "spaces_inv s F A"
    using inv by (simp add: pages_inv_def)
  note pp = space_proc(3) [OF sp p]
  obtain x where x: "entry_of (PProc p) (?a AND 0xFFFFF000) s = Some (x, s)" "x \<noteq> 0"
    using entry_alloced [OF inv p, of "?a AND 0xFFFFF000"] a by (metis page_of_page)
  define tr where "tr = l4 s @ [CacheFlushRange ?pid (?a AND 0xFFFFF000) ((?a AND 0xFFFFF000) + 0x1000),
      CacheFlushRangeInvalidate L4_rootspace (mem s x AND 0xFFFFF000) ((mem s x AND 0xFFFFF000) + 0x1000)]"
  have pd: "prepareDataIn (PProc p) (?a AND PAGEALIGN) s = Some (s\<lparr>l4 := tr\<rparr>)"
    using x pp by (simp add: prepareDataIn_def rd_entry_def process_get_sid_def process_get_pid_def l4_do_def tr_def
        not_pagealign Let_def)
  let ?s = "s\<lparr>l4 := tr\<rparr>"
  have same: "pages_inv ?s F A = pages_inv s F A" "frame_of ?s = frame_of s" "user_byte ?s = user_byte s"
    by (rule pages_inv_same; simp)+
  have ue: "user_entry ?s = user_entry s"
    by (rule spaces_same) simp_all
  have p1: "proc_of ?s ?pid = Some p"
    using p proc_of_cong [of ?s s] by simp
  obtain y where y: "entry_of (PProc p) (?a AND 0xFFFFF000) ?s = Some (y, ?s)" "y \<noteq> 0" "mem ?s y = user_entry ?s ?pid (?a AND 0xFFFFF000)"
      "is_frame (frame_of ?s (?pid, ?a AND 0xFFFFF000))"
    using entry_alloced [OF _ p1, of F A "?a AND 0xFFFFF000"] a inv same(1) by auto
  have fr: "mem s y AND 0xFFFFF000 = frame_of s (?pid, ?a)" and isf: "is_frame (frame_of s (?pid, ?a))"
    using y(3,4) unfolding same(2) ue frame_of_page user_entry_page by (simp_all add: frame_of_def)
  define b where "b = (\<lambda>i. if B \<le> i \<and> i < B + c then user_byte s ?pid (?a + of_nat (i - B)) else copyInOutBuffer s i)"
  have loop: "copyIn_loop (mem s) B (frame_of s (?pid, ?a) + (?a AND 0xFFF)) k n (copyInOutBuffer s) = (k + c, b)"
  proof -
    have "get_byte (mem s) (frame_of s (?pid, ?a) + (?a AND 0xFFF) + of_nat (i - B)) = user_byte s ?pid (?a + of_nat (i - B))"
      if "B \<le> i \<and> i < B + c" for i
      using that by (intro user_byte_page [symmetric]) (auto simp: c_def)
    then have "b = (\<lambda>i. if B \<le> i \<and> i < B + c then get_byte (mem s) (frame_of s (?pid, ?a) + (?a AND 0xFFF) + of_nat (i - B))
        else copyInOutBuffer s i)"
      by (simp add: b_def fun_eq_iff del: of_nat_diff)
    then show ?thesis
      unfolding copyIn_loop_spec page_left_frame [OF isf] c_def Let_def by simp
  qed
  let ?s1 = "?s\<lparr>copyInOutBuffer := b, copyInOutData := (copyInOutData s)(?pid := of_nat n OR push_bit 16 (of_nat (k + c)))\<rparr>"
  have ck: "k + c \<le> n" "n \<le> 16384"
    using pg by (auto simp: copy_progress_def c_def)
  note h = copy_progress_halves [OF pg]
  have lk: "process_lookup ?pid s = Some (PProc p)"
    using p by (simp add: proc_of_lookup)
  have "copyInContinue pgr pr s = (if k + c = n then syscall_reply_v (?pid, 1) [] ?s1
      else pgr (pr\<lparr>pr_addr := (?a + PAGESIZE) AND PAGEALIGN\<rparr>) ?s1)"
    using pd y(1,2) pp pid h fr loop
    by (simp add: copyInContinue_def lk process_get_pid_def process_get_tid_def cio_get_def cio_set_def rd_entry_def
        pager_buffer_def not_pagealign B_def Let_def)
  moreover have "pages_inv ?s1 F A"
    using inv pages_inv_same(1) [of ?s1 s] by simp
  moreover have "same_pages s ?s1"
    by (rule same_pagesI) (use pages_inv_same(2) [of ?s1 s] in simp_all)
  moreover have "same_bytes s ?s1"
    using pages_inv_same(3) [of ?s1 s] by (simp add: same_bytes_def)
  moreover have "copy_progress ?s1 ?pid n (k + c)"
    using ck by (simp add: copy_progress_def)
  ultimately show thesis
    using that [of ?s1] by (simp add: b_def tr_def messages_def)
qed

lemma next_page: "(a + 0x1000) AND 0xFFFFF000 = (a + of_nat (page_left a) :: u32)"
proof -
  have "unat ((a + 0x1000) AND 0xFFF) = unat (a AND 0xFFF)"
  proof -
    have "unat (a + 0x1000) mod 4096 = (unat a + 4096) mod 2 ^ 32 mod 4096"
      by (simp add: unat_word_ariths)
    also have "\<dots> = (unat a + 4096) mod 4096"
      by (rule mod_mod_cancel) simp
    finally show ?thesis
      by (simp add: unat_offset)
  qed
  then have "(a + 0x1000) AND 0xFFF = a AND 0xFFF"
    by (simp only: word_unat_eq_iff)
  then have "(a + 0x1000) AND 0xFFFFF000 = a + 0x1000 - (a AND 0xFFF)"
    using page_split [of "a + 0x1000"] by (simp add: eq_diff_eq)
  moreover have "of_nat (page_left a) = 0x1000 - (a AND 0xFFF)"
  proof -
    have "of_nat (page_left a) = of_nat 4096 - (of_nat (unat a mod 4096) :: u32)"
      unfolding page_left_def by (rule of_nat_diff) simp
    also have "of_nat (unat a mod 4096) = a AND 0xFFF"
      by (simp flip: unat_offset)
    finally show ?thesis
      by simp
  qed
  ultimately show ?thesis
    by (simp only: add_diff_eq)
qed

text \<open>The addresses of a range may be accessed: each is on a resident page and in a region with the rights.\<close>

definition accessible :: "'z pager_st_scheme \<Rightarrow> int \<Rightarrow> Process \<Rightarrow> u32 \<Rightarrow> u32 \<Rightarrow> nat \<Rightarrow> bool" where
  "accessible s pid p rights addr n \<longleftrightarrow> (\<forall>j<n. (pid, (addr + of_nat j) AND PAGEALIGN) \<in> set (alloced s) \<and>
     (\<exists>r. find (findRegion (addr + of_nat j)) (regions p) = Some r \<and> region_get_rights r AND rights \<noteq> 0))"

text \<open>After a callback that sent a reply, the pager has nothing more to do.\<close>

lemma pager_after_reply:
  assumes a: "pagerAction startRequest pr s = Some (True, s1)"
    and cb: "run_callback pager pr s1 = syscall_reply_v tid ws s2" and p: "proc_of s2 (fst tid) = Some p"
    and rq: "requests s2 = [] \<or> requestActive s2"
  shows "pager pr s = syscall_reply_v tid ws s2"
proof -
  obtain tr where "syscall_reply_v tid ws s2 = Some (s2\<lparr>l4 := tr\<rparr>)"
    using syscall_reply_v_proc [OF p] by blast
  then show ?thesis
    using a cb rq by (auto simp: pager_eq [of pr s] pager_body_def)
qed

lemma accessible_next:
  assumes "accessible s pid p rights addr n" and "alloced s' = alloced s" and "page_left addr < n"
  shows "accessible s' pid p rights ((addr + 0x1000) AND 0xFFFFF000) (n - page_left addr)"
  unfolding accessible_def next_page
proof (intro allI impI)
  fix j
  assume "j < n - page_left addr"
  then have "page_left addr + j < n"
    using assms(3) by simp
  moreover have "addr + of_nat (page_left addr) + of_nat j = addr + of_nat (page_left addr + j)"
    by simp
  ultimately show "(pid, (addr + of_nat (page_left addr) + of_nat j) AND PAGEALIGN) \<in> set (alloced s') \<and>
      (\<exists>r. find (findRegion (addr + of_nat (page_left addr) + of_nat j)) (regions p) = Some r \<and>
        region_get_rights r AND rights \<noteq> 0)"
    using assms(1,2) unfolding accessible_def by metis
qed

lemma accessible_here:
  assumes "accessible s pid p rights addr n" and "0 < n"
  obtains r where "(pid, addr AND 0xFFFFF000) \<in> set (alloced s)" "find (findRegion addr) (regions p) = Some r"
    "region_get_rights r AND rights \<noteq> 0"
  using assms unfolding accessible_def by (auto dest!: spec [of _ 0])

lemma copyIn_run:
  fixes s :: "'z pager_st_scheme"
  assumes "pages_inv s F A" and "proc_of s pid = Some p" and "0 \<le> pid" "pid < 256"
    and "pr_pid pr = pid" and "pr_callback pr = Cb_copyInContinue" and "requests s = [] \<or> requestActive s"
    and "copy_progress s pid n k" and "k < n" and "accessible s pid p (pr_rights pr) (pr_addr pr) (n - k)"
  shows "\<exists>s1. pager pr s = syscall_reply_v (pid, 1) [] s1 \<and> messages (l4 s1) = messages (l4 s) \<and> pages_inv s1 F A \<and> same_pages s s1 \<and> same_bytes s s1 \<and>
    copyInOutBuffer s1 = (\<lambda>i. if nat pid * 16384 + k \<le> i \<and> i < nat pid * 16384 + n
      then user_byte s pid (pr_addr pr + of_nat (i - (nat pid * 16384 + k))) else copyInOutBuffer s i)"
  using assms
proof (induction "n - k" arbitrary: s k pr rule: less_induct)
  case less
  note inv = less.prems(1) and p = less.prems(2) and pid = less.prems(3,4) and pr = less.prems(5) and cb = less.prems(6)
    and rq = less.prems(7)
  let ?B = "nat pid * 16384" and ?a = "pr_addr pr"
  obtain r where r: "(pid, ?a AND 0xFFFFF000) \<in> set (alloced s)" "find (findRegion ?a) (regions p) = Some r"
      "region_get_rights r AND pr_rights pr \<noteq> 0"
    using accessible_here [OF less.prems(10)] less.prems(9) by auto
  obtain s1 where s1: "pagerAction startRequest pr s = Some (True, s1)" "pages_inv s1 F A" "same_pages s s1" "same_bytes s s1"
      "copyInOutBuffer s1 = copyInOutBuffer s" "copyInOutData s1 = copyInOutData s" "messages (l4 s1) = messages (l4 s)"
    by (rule pagerAction_resident [OF inv, of pr p r startRequest, unfolded pr, OF p r])
  note f1 = same_pages_fields [OF s1(3)]
  have p1: "proc_of s1 pid = Some p"
    using p proc_of_cong [OF f1(2)] by simp
  have pg1: "copy_progress s1 pid n k"
    using less.prems(8) s1(6) by (simp add: copy_progress_def)
  let ?c = "min (n - k) (page_left ?a)"
  obtain s2 where s2: "copyInContinue pager pr s1 = (if k + ?c = n then syscall_reply_v (pid, 1) [] s2
        else pager (pr\<lparr>pr_addr := (?a + PAGESIZE) AND PAGEALIGN\<rparr>) s2)"
      "pages_inv s2 F A" "same_pages s1 s2" "same_bytes s1 s2" "copy_progress s2 pid n (k + ?c)"
      "copyInOutBuffer s2 = (\<lambda>i. if ?B + k \<le> i \<and> i < ?B + k + ?c then user_byte s1 pid (?a + of_nat (i - (?B + k)))
        else copyInOutBuffer s1 i)"
      "messages (l4 s2) = messages (l4 s1)"
    by (rule copyInContinue_page [OF s1(2), of pr p n k pager, unfolded pr, OF p1 _ pid pg1]) (use r(1) f1(1) in simp)
  have sp2: "same_pages s s2" and sb2: "same_bytes s s2"
    using same_pages_trans [OF s1(3) s2(3)] same_bytes_trans [OF s1(4) s2(4) f1(1)] .
  note f2 = same_pages_fields [OF sp2]
  have p2: "proc_of s2 pid = Some p"
    using p proc_of_cong [OF f2(2)] by simp
  have ub: "user_byte t pid (?a + of_nat j) = user_byte s pid (?a + of_nat j)" if "same_bytes s t" "j < n - k" for t :: "'z pager_st_scheme" and j
    using that less.prems(10) by (simp add: same_bytes_def accessible_def)
  have buf2: "copyInOutBuffer s2 i = (if ?B + k \<le> i \<and> i < ?B + k + ?c then user_byte s pid (?a + of_nat (i - (?B + k)))
        else copyInOutBuffer s i)" for i
  proof (cases "?B + k \<le> i \<and> i < ?B + k + ?c")
    case True
    then have "i - (?B + k) < n - k"
      by auto
    with True ub [OF s1(4) this] show ?thesis
      by (simp only: s2(6) if_True simp_thms)
  qed (simp only: s2(6) s1(5) if_False)
  show ?case
  proof (cases "k + ?c = n")
    case True
    have "pager pr s = syscall_reply_v (pid, 1) [] s2"
      by (rule pager_after_reply [OF s1(1), where p = p]) (use True s2(1) cb p2 f2 rq in \<open>simp_all add: run_callback_def\<close>)
    moreover have "?B + k + ?c = ?B + n"
      using True by simp
    ultimately show ?thesis
      using s2(2,7) s1(7) sp2 sb2 buf2 by (intro exI [of _ s2]) (auto simp: fun_eq_iff)
  next
    case False
    then have c: "page_left ?a < n - k"
      using less.prems(9) by (auto simp: min_def split: if_splits)
    then have cc: "?c = page_left ?a"
      by simp
    let ?pr = "pr\<lparr>pr_addr := (?a + 0x1000) AND 0xFFFFF000\<rparr>" and ?k = "k + page_left ?a"
    have acc: "accessible s2 pid p (pr_rights ?pr) (pr_addr ?pr) (n - ?k)"
      using accessible_next [OF less.prems(10) f2(1) c] by simp
    have lt: "n - ?k < n - k" "?k < n"
      using c page_left_bounds(1) [of ?a] by simp_all
    have "\<exists>s3. pager ?pr s2 = syscall_reply_v (pid, 1) [] s3 \<and> messages (l4 s3) = messages (l4 s2) \<and> pages_inv s3 F A \<and> same_pages s2 s3 \<and> same_bytes s2 s3 \<and>
        copyInOutBuffer s3 = (\<lambda>i. if ?B + ?k \<le> i \<and> i < ?B + n
          then user_byte s2 pid (pr_addr ?pr + of_nat (i - (?B + ?k))) else copyInOutBuffer s2 i)"
      by (rule less.hyps [OF lt(1) s2(2) p2 pid _ _ _ _ lt(2) acc]) (use pr cb rq f2 s2(5) cc in simp_all)
    then obtain s3 where s3: "pager ?pr s2 = syscall_reply_v (pid, 1) [] s3" and m3: "messages (l4 s3) = messages (l4 s2)" and s3': "pages_inv s3 F A" "same_pages s2 s3" "same_bytes s2 s3"
        "copyInOutBuffer s3 = (\<lambda>i. if ?B + ?k \<le> i \<and> i < ?B + n
          then user_byte s2 pid (pr_addr ?pr + of_nat (i - (?B + ?k))) else copyInOutBuffer s2 i)"
      by (elim exE conjE) (rule that)
    have sp3: "same_pages s s3" and sb3: "same_bytes s s3"
      using same_pages_trans [OF sp2 s3'(2)] same_bytes_trans [OF sb2 s3'(3) f2(1)] .
    have "pager pr s = syscall_reply_v (pid, 1) [] s3"
      by (rule pager_after_reply [OF s1(1), where p = p])
        (use False s2(1) s3 cb p proc_of_cong [OF same_pages_fields(2) [OF sp3]] same_pages_fields [OF sp3] rq
          in \<open>simp_all add: run_callback_def\<close>)
    moreover have "copyInOutBuffer s3 i = (if ?B + k \<le> i \<and> i < ?B + n
        then user_byte s pid (?a + of_nat (i - (?B + k))) else copyInOutBuffer s i)" for i
    proof (cases "?B + ?k \<le> i \<and> i < ?B + n")
      case True
      then have lt: "i - (?B + k) < n - k"
        by auto
      have "i - (?B + k) = page_left ?a + (i - (?B + ?k))"
        using True by simp
      then have "pr_addr ?pr + of_nat (i - (?B + ?k)) = ?a + of_nat (i - (?B + k))"
        by (simp add: next_page del: of_nat_diff)
      then show ?thesis
        using True ub [OF sb2 lt] by (simp add: s3'(4) del: of_nat_diff)
    next
      case False
      then show ?thesis
        using c cc buf2 [of i] by (auto simp: s3'(4) simp del: of_nat_diff)
    qed
    ultimately show ?thesis
      using s3'(1) m3 s2(7) s1(7) sp3 sb3 by (intro exI [of _ s3]) (simp add: fun_eq_iff)
  qed
qed

text \<open>How a copy starts.\<close>

lemma copy_start_progress:
  fixes s :: "'z pager_st_scheme"
  assumes "pages_inv s F A" and p: "proc_of s pid = Some p" and "pid < 256" and "heapOk s" and "unat n \<le> 16384"
  obtains d pr where "copy_start cb rights (pid, 1) addr n False s = pager pr (s\<lparr>copyInOutData := d\<rparr>)"
    "pr_pid pr = pid" "pr_callback pr = cb" "pr_addr pr = addr" "pr_rights pr = ucast rights" "0 \<le> pid"
    "copy_progress (s\<lparr>copyInOutData := d\<rparr>) pid (unat n) 0"
proof -
  have lk: "process_lookup pid s = Some (PProc p)"
    using p by (simp add: proc_of_lookup)
  then have "0 \<le> pid"
    by (simp add: process_lookup_def split: if_splits)
  have "ps_pid (info p) = pid"
    using assms(1) p space_proc(3) by (auto simp: pages_inv_def)
  moreover have "LO_HALF n = n" "HI_SHIFT 0 = 0"
    using halves(1) [of "unat n" 0] assms(5) by (simp_all add: HI_SHIFT_def)
  ultimately show thesis
    using that [of "\<lparr>pr_stage = None, pr_pid = pid, pr_addr = addr, pr_diskAddr = None, pr_sf = defaultSwapfile s,
          pr_rights = ucast rights, pr_offset = - 1, pr_size = None, pr_swapinFinish = Fin_panic, pr_callback = cb\<rparr>"
        "(copyInOutData s)(pid := n)"]
      lk assms(3-5) \<open>0 \<le> pid\<close>
    by (simp add: copy_start_def process_get_pid_def cio_get_def cio_set_def allocPagerRequest_def copy_progress_def)
qed

text \<open>
  C5. Copying in from a process: let the request be a fresh one (\<open>append\<close> is false) for 1 to 16384 bytes,
  and let every page of the range be resident and in a readable region. Then \<^verbatim>\<open>copyIn\<close> fills the buffer of
  the calling thread with exactly the bytes the process sees at these addresses, over any number of
  page boundaries. In all of it exactly one message is sent, the empty reply to the caller; none is sent
  when the caller is not to be answered, because it accepts no messages or is not running. The rest of
  the buffers, the bytes of all user pages and the frames of all pages stay as they are.
\<close>

theorem copyIn_copies:
  assumes "pages_inv s F A" and "proc_of s pid = Some p" and "pid < 256" and "heapOk s"
    and "requests s = [] \<or> requestActive s" and "0 < unat n" and "unat n \<le> 16384"
    and "accessible s pid p (ucast FM_READ) addr (unat n)"
  shows "\<exists>s1 s2. copyIn (pid, 1) addr n False s = Some s2 \<and> syscall_reply_v (pid, 1) [] s1 = Some s2 \<and>
    messages (l4 s2) = messages (l4 s) @
      (if pid = 0 \<or> process_get_ipcfilt p = PS_IPC_NONE \<or> process_get_state p \<in> {PS_STATE_ZOMBIE, PS_STATE_START} then []
       else [Ipc (pid, 1) (if process_get_ipcfilt p = PS_IPC_BLOCKING then SOS_IPC_SEND else SOS_IPC_REPLY) (syscall_word SOS_REPLY) []]) \<and>
    map (copyInOutBuffer s2) [pager_buffer (pid, 1)..<pager_buffer (pid, 1) + unat n] =
      map (\<lambda>i. user_byte s pid (addr + of_nat i)) [0..<unat n] \<and>
    (\<forall>i. i \<notin> {pager_buffer (pid, 1)..<pager_buffer (pid, 1) + unat n} \<longrightarrow> copyInOutBuffer s2 i = copyInOutBuffer s i) \<and>
    pages_inv s2 F A \<and> same_pages s s2 \<and> same_bytes s s2"
proof -
  let ?B = "pager_buffer (pid, 1)"
  obtain d pr where st: "copyIn (pid, 1) addr n False s = pager pr (s\<lparr>copyInOutData := d\<rparr>)"
      "pr_pid pr = pid" "pr_callback pr = Cb_copyInContinue" "pr_addr pr = addr" "pr_rights pr = ucast FM_READ" "0 \<le> pid"
      "copy_progress (s\<lparr>copyInOutData := d\<rparr>) pid (unat n) 0"
    unfolding copyIn_def by (rule copy_start_progress [OF assms(1-4,7)])
  let ?s = "s\<lparr>copyInOutData := d\<rparr>"
  have same: "pages_inv ?s F A = pages_inv s F A" "frame_of ?s = frame_of s" "user_byte ?s = user_byte s"
    by (rule pages_inv_same; simp)+
  have p: "proc_of ?s pid = Some p"
    using assms(2) proc_of_cong [of ?s s] by simp
  have inv': "pages_inv ?s F A" and rq': "requests ?s = [] \<or> requestActive ?s"
    using assms(1,5) same(1) by simp_all
  have acc: "accessible ?s pid p (pr_rights pr) (pr_addr pr) (unat n - 0)"
    using assms(8) st by (simp add: accessible_def)
  obtain s1 where s1: "pager pr ?s = syscall_reply_v (pid, 1) [] s1" and m1: "messages (l4 s1) = messages (l4 ?s)" and s1': "pages_inv s1 F A" "same_pages ?s s1" "same_bytes ?s s1"
      "copyInOutBuffer s1 = (\<lambda>i. if ?B \<le> i \<and> i < ?B + unat n then user_byte s pid (addr + of_nat (i - ?B)) else copyInOutBuffer s i)"
    using copyIn_run [OF inv' p st(6) assms(3) st(2,3) rq' st(7) assms(6) acc]
    by (elim exE conjE) (rule that, auto simp: same st(4) pager_buffer_def)
  have "same_pages s ?s"
    by (rule same_pagesI) (simp_all add: same)
  then have sp: "same_pages s s1" and sb: "same_bytes s s1"
    using same_pages_trans s1'(2,3) by (blast, simp add: same_bytes_def same)
  have p1: "proc_of s1 pid = Some p"
    using assms(2) proc_of_cong [OF same_pages_fields(2) [OF sp]] by simp
  then obtain tr where tr: "syscall_reply_v (pid, 1) [] s1 = Some (s1\<lparr>l4 := tr\<rparr>)"
    using syscall_reply_v_proc [of s1 "(pid, 1)"] by auto
  let ?s2 = "s1\<lparr>l4 := tr\<rparr>"
  note ms = syscall_reply_v_messages [OF p1 tr, unfolded m1 pager_st.select_convs]
  have same2: "pages_inv ?s2 F A = pages_inv s1 F A" "frame_of ?s2 = frame_of s1" "user_byte ?s2 = user_byte s1"
    by (rule pages_inv_same; simp)+
  have "same_pages s1 ?s2"
    by (rule same_pagesI) (simp_all add: same2)
  then have "same_pages s ?s2" "same_bytes s ?s2"
    using same_pages_trans [OF sp] sb by (blast, simp add: same_bytes_def same2)
  moreover have "map (copyInOutBuffer s1) [?B..<?B + unat n] = map (\<lambda>i. user_byte s pid (addr + of_nat i)) [0..<unat n]"
    by (rule nth_equalityI) (simp_all add: s1'(4))
  ultimately show ?thesis
    using st(1) s1 s1' tr ms same2(1) by (intro exI [of _ s1] exI [of _ ?s2]) auto
qed

section \<open>Copying out\<close>

text \<open>Writing anything to a frame in use that belongs to no page table keeps the invariant.\<close>

lemma frames_inv_page:
  assumes "frames_inv s F A" and "f \<in> A" and "\<And>x. x AND 0xFFFFF000 \<noteq> f \<Longrightarrow> m x = mem s x"
  shows "frames_inv (s\<lparr>mem := m\<rparr>) F A"
proof -
  have "m a = mem s a" if "a \<in> set F" for a
  proof -
    have "is_frame a" "a \<noteq> f"
      using assms(1,2) that by (auto simp: frames_inv_def)
    then show ?thesis
      using assms(3) [of a] by (simp add: is_frame_def page_aligned_page)
  qed
  then show ?thesis
    using assms(1) chain_cong [of F m "mem s"] by (simp add: frames_inv_def)
qed

lemma spaces_inv_page:
  assumes inv: "spaces_inv s F A" and f: "f \<in> A" "\<And>q. f \<notin> space_frames s q"
    and m: "\<And>x. x AND 0xFFFFF000 \<noteq> f \<Longrightarrow> m x = mem s x"
  shows "spaces_inv (s\<lparr>mem := m\<rparr>) F A" and "user_entry (s\<lparr>mem := m\<rparr>) = user_entry s"
    and "space_frames (s\<lparr>mem := m\<rparr>) = space_frames s"
proof -
  let ?s = "s\<lparr>mem := m\<rparr>"
  have pr: "proc_of ?s q = proc_of s q" for q
    by (rule proc_of_cong) simp
  have "\<forall>e\<in>space_frames s q. \<forall>i<1024. mem ?s (word_at e i) = mem s (word_at e i)" for q
  proof (intro ballI allI impI)
    fix e i
    assume e: "e \<in> space_frames s q" and i: "i < (1024 :: nat)"
    have "word_at e i AND 0xFFFFF000 \<noteq> f"
      using word_at_page [OF space_is_frame [OF inv e] i] e f(2) by auto
    then show "mem ?s (word_at e i) = mem s (word_at e i)"
      using m by simp
  qed
  note c = space_cong [OF inv pr this]
  show ue: "user_entry ?s = user_entry s" and sf: "space_frames ?s = space_frames s"
    by (simp_all add: fun_eq_iff c)
  have "frames_inv ?s F A"
    using inv frames_inv_page [OF _ f(1) m] by (simp add: spaces_inv_def)
  then show "spaces_inv ?s F A"
    using inv c(3) by (simp add: spaces_inv_def pr sf)
qed

lemma data_write:
  fixes s :: "'z pager_st_scheme"
  assumes inv: "pages_inv s F A" and a: "(pid, a AND 0xFFFFF000) \<in> set (alloced s)" and len: "length cs \<le> page_left a"
  defines "s1 \<equiv> s\<lparr>mem := put_bytes (frame_of s (pid, a) + (a AND 0xFFF)) cs (mem s)\<rparr>"
  shows "pages_inv s1 F A" and "same_pages s s1"
    and "(q, b AND 0xFFFFF000) \<in> set (alloced s) \<Longrightarrow>
      user_byte s1 q b = (if q = pid \<and> unat (b - a) < length cs then cs ! unat (b - a) else user_byte s q b)"
proof -
  let ?f = "frame_of s (pid, a)"
  have sp: "spaces_inv s F A" and dp: "\<forall>y\<in>set (alloced s). data_page s A y" and inj: "inj_on (frame_of s) (set (alloced s))"
    using inv by (simp_all add: pages_inv_def)
  have f: "?f \<in> A" "\<And>q. ?f \<notin> space_frames s q" "is_frame ?f"
    using dp a sp by (auto simp: data_page_def frame_of_page spaces_inv_def frames_inv_def)
  have "unat (?f + (a AND 0xFFF)) mod 4096 + length cs \<le> 4096"
    using len by (simp add: frame_plus(2) [OF f(3)] page_left_def)
  then have m: "put_bytes (?f + (a AND 0xFFF)) cs (mem s) x = mem s x" if "x AND 0xFFFFF000 \<noteq> ?f" for x
    using put_bytes_page that frame_plus(1) [OF f(3)] by simp
  have w: "spaces_inv s1 F A" "user_entry s1 = user_entry s" "space_frames s1 = space_frames s"
    unfolding s1_def by (rule spaces_inv_page [OF sp f(1,2) m]; assumption)+
  have fr: "frame_of s1 = frame_of s"
    by (simp add: fun_eq_iff frame_of_def w(2))
  have pr: "proc_of s1 = proc_of s"
    by (rule ext, rule proc_of_cong) (simp add: s1_def)
  have al: "alloced s1 = alloced s" and m1: "mem s1 = put_bytes (?f + (a AND 0xFFF)) cs (mem s)"
    by (simp_all add: s1_def)
  have "data_page s1 A y = data_page s A y" for y
    by (simp add: data_page_def resident_def fr pr w)
  then show "pages_inv s1 F A"
    using dp inj w(1) by (simp add: pages_inv_def fr al)
  show "same_pages s s1"
    by (rule same_pagesI) (simp_all add: fr, simp add: s1_def)
  show "user_byte s1 q b = (if q = pid \<and> unat (b - a) < length cs then cs ! unat (b - a) else user_byte s q b)"
    if b: "(q, b AND 0xFFFFF000) \<in> set (alloced s)"
  proof (cases "(q, b AND 0xFFFFF000) = (pid, a AND 0xFFFFF000)")
    case True
    then have "frame_of s (q, b) = ?f"
      using frame_of_page by metis
    moreover have "b - a = (b AND 0xFFF) - (a AND 0xFFF)"
      using True page_split [of a] page_split [of b] by (metis add_diff_cancel_left prod.inject)
    moreover have "length cs \<le> 2 ^ 32"
      using len page_left_bounds(2) [of a] by simp
    ultimately show ?thesis
      using True by (simp add: user_byte_def fr m1 get_put_bytes)
  next
    case False
    then have "frame_of s (q, b) \<noteq> ?f"
      using inj_onD [OF inj _ b a] by (auto simp: frame_of_page)
    moreover have "is_frame (frame_of s (q, b))"
      using dp b sp by (auto simp: data_page_def frame_of_page spaces_inv_def frames_inv_def)
    ultimately have "user_byte s1 q b = user_byte s q b"
      unfolding user_byte_def fr by (intro get_byte_cong) (simp add: m1 m frame_plus(1))
    moreover have "\<not> (q = pid \<and> unat (b - a) < length cs)"
      using within_page(2) [of "unat (b - a)" a] False len by auto
    ultimately show ?thesis
      by auto
  qed
qed

text \<open>\<open>wrote s t pid a cs\<close>: the bytes \<open>cs\<close> are now at address \<open>a\<close> of process \<open>pid\<close>; all others are as before.\<close>

definition wrote :: "'z pager_st_scheme \<Rightarrow> 'z pager_st_scheme \<Rightarrow> int \<Rightarrow> u32 \<Rightarrow> char list \<Rightarrow> bool" where
  "wrote s t pid a cs \<longleftrightarrow> (\<forall>q b. (q, b AND PAGEALIGN) \<in> set (alloced s) \<longrightarrow>
     user_byte t q b = (if q = pid \<and> unat (b - a) < length cs then cs ! unat (b - a) else user_byte s q b))"

lemma copyOutContinue_page:
  fixes s :: "'z pager_st_scheme"
  assumes inv: "pages_inv s F A" and p: "proc_of s (pr_pid pr) = Some p"
    and a: "(pr_pid pr, pr_addr pr AND 0xFFFFF000) \<in> set (alloced s)" and pid: "0 \<le> pr_pid pr" "pr_pid pr < 256"
    and pg: "copy_progress s (pr_pid pr) n k"
  defines "c \<equiv> min (n - k) (page_left (pr_addr pr))" and "B \<equiv> nat (pr_pid pr) * 16384 + k"
  obtains s1 where "copyOutContinue pgr pr s = (if k + c = n then syscall_reply_v (pr_pid pr, 1) [] s1
      else pgr (pr\<lparr>pr_addr := (pr_addr pr + PAGESIZE) AND PAGEALIGN\<rparr>) s1)"
    "pages_inv s1 F A" "same_pages s s1" "copy_progress s1 (pr_pid pr) n (k + c)"
    "copyInOutBuffer s1 = copyInOutBuffer s"
    "wrote s s1 (pr_pid pr) (pr_addr pr) (map (\<lambda>i. copyInOutBuffer s (B + i)) [0..<c])"
    "messages (l4 s1) = messages (l4 s)"
proof -
  let ?pid = "pr_pid pr" and ?a = "pr_addr pr"
  have sp: "spaces_inv s F A"
    using inv by (simp add: pages_inv_def)
  note pp = space_proc(3) [OF sp p]
  have a': "(?pid, (?a AND 0xFFFFF000) AND 0xFFFFF000) \<in> set (alloced s)"
    using a by simp
  obtain x where x: "entry_of (PProc p) (?a AND 0xFFFFF000) s = Some (x, s)" "x \<noteq> 0"
      "mem s x = user_entry s ?pid (?a AND 0xFFFFF000)" "is_frame (frame_of s (?pid, ?a AND 0xFFFFF000))"
    by (rule entry_alloced [OF inv p a'])
  have fr: "mem s x AND 0xFFFFF000 = frame_of s (?pid, ?a)" and isf: "is_frame (frame_of s (?pid, ?a))"
    using x(3,4) by (simp_all add: frame_of_page) (simp add: frame_of_def user_entry_page)
  define cs where "cs = map (\<lambda>i. copyInOutBuffer s (B + i)) [0..<c]"
  have cs: "length cs = c" "length cs \<le> page_left ?a"
    by (simp_all add: cs_def c_def)
  let ?m = "put_bytes (frame_of s (?pid, ?a) + (?a AND 0xFFF)) cs (mem s)"
  have loop: "copyOut_loop (copyInOutBuffer s) B (frame_of s (?pid, ?a) + (?a AND 0xFFF)) k n (mem s) = (k + c, ?m)"
    unfolding copyOut_loop_spec page_left_frame [OF isf] Let_def by (simp add: cs_def c_def)
  note w = data_write [OF inv a cs(2)]
  define s2 where "s2 = s\<lparr>mem := ?m, copyInOutData := (copyInOutData s)(?pid := of_nat n OR push_bit 16 (of_nat (k + c)))\<rparr>"
  have same: "pages_inv s2 F A = pages_inv (s\<lparr>mem := ?m\<rparr>) F A" "user_byte s2 = user_byte (s\<lparr>mem := ?m\<rparr>)"
      "frame_of s2 = frame_of (s\<lparr>mem := ?m\<rparr>)"
    unfolding s2_def by (rule pages_inv_same; simp)+
  have inv2: "pages_inv s2 F A" and p2: "proc_of s2 ?pid = Some p" and al2: "alloced s2 = alloced s"
    using w(1) same(1) p proc_of_cong [of s2 s] by (simp_all add: s2_def)
  obtain y where y: "entry_of (PProc p) (?a AND 0xFFFFF000) s2 = Some (y, s2)" "y \<noteq> 0"
    by (rule entry_alloced [OF inv2 p2 a' [folded al2]])
  let ?tr = "l4 s2 @ [CacheFlushRange L4_rootspace (mem s2 y AND 0xFFFFF000) ((mem s2 y AND 0xFFFFF000) + 0x1000),
      CacheFlushRangeInvalidate ?pid (?a AND 0xFFFFF000) ((?a AND 0xFFFFF000) + 0x1000)]"
  let ?s3 = "s2\<lparr>l4 := ?tr\<rparr>"
  have pd: "prepareDataOut (PProc p) (?a AND PAGEALIGN) s2 = Some ?s3"
    using y pp by (simp add: prepareDataOut_def rd_entry_def process_get_sid_def process_get_pid_def l4_do_def not_pagealign Let_def)
  note h = copy_progress_halves [OF pg]
  have lk: "process_lookup ?pid s = Some (PProc p)"
    using p by (simp add: proc_of_lookup)
  have "copyOutContinue pgr pr s = (if k + c = n then syscall_reply_v (?pid, 1) [] ?s3
      else pgr (pr\<lparr>pr_addr := (?a + PAGESIZE) AND PAGEALIGN\<rparr>) ?s3)"
    using pd x(1,2) pp pid h fr loop
    by (simp add: copyOutContinue_def lk process_get_pid_def process_get_tid_def cio_get_def cio_set_def rd_entry_def
        pager_buffer_def not_pagealign B_def Let_def HI_SHIFT_def del: of_nat_add flip: s2_def)
  moreover have same3: "pages_inv ?s3 F A = pages_inv s2 F A" "user_byte ?s3 = user_byte s2" "frame_of ?s3 = frame_of s2"
    by (rule pages_inv_same; simp)+
  moreover have "same_pages s ?s3"
    by (rule same_pagesI) (use same_pages_frame [OF w(2)] same(3) same3(3) in \<open>simp_all add: s2_def\<close>)
  moreover have "copy_progress ?s3 ?pid n (k + c)"
    using pg by (auto simp: copy_progress_def c_def s2_def)
  moreover have "wrote s ?s3 ?pid ?a cs"
    using w(3) unfolding wrote_def same3(2) same(2) by simp
  moreover have "messages (l4 ?s3) = messages (l4 s)"
    by (simp add: s2_def messages_def)
  ultimately show thesis
    using that [of ?s3] inv2 by (simp add: cs_def s2_def)
qed

lemma wrote_trans:
  assumes "wrote s t pid a (map f [0..<c])" and "wrote t u pid (a + of_nat c) (map (\<lambda>i. f (c + i)) [0..<d])"
    and "alloced t = alloced s" and "c + d < 2 ^ 32"
  shows "wrote s u pid a (map f [0..<c + d])"
  unfolding wrote_def
proof (intro allI impI)
  fix q b
  assume b: "(q, b AND PAGEALIGN) \<in> set (alloced s)"
  let ?j = "unat (b - a)" and ?k = "unat (b - (a + of_nat c))"
  have u: "user_byte u q b = (if q = pid \<and> ?k < d then f (c + ?k) else if q = pid \<and> ?j < c then f ?j else user_byte s q b)"
    using assms(1-3) b by (auto simp: wrote_def)
  have "?j < c \<Longrightarrow> \<not> ?k < d" "\<not> ?j < c \<Longrightarrow> ?k = ?j - c"
  proof -
    have eq: "b - (a + of_nat c) = (b - a) - of_nat c"
      by simp
    have c: "unat (of_nat c :: u32) = c"
      using assms(4) by (simp add: unat_of_nat)
    show "?k = ?j - c" if "\<not> ?j < c"
      unfolding eq using that c by (metis not_less unat_sub word_le_nat_alt)
    show "\<not> ?k < d" if "?j < c"
    proof
      assume "?k < d"
      have "b - a = of_nat (?k + c)"
        by simp
      then have "?j = unat (of_nat (?k + c) :: u32)"
        by (simp only:)
      also have "\<dots> = ?k + c"
        using \<open>?k < d\<close> assms(4) by (subst unat_of_nat) simp
      finally show False
        using that by simp
    qed
  qed
  then show "user_byte u q b = (if q = pid \<and> ?j < length (map f [0..<c + d]) then map f [0..<c + d] ! ?j else user_byte s q b)"
    using u by (cases "?j < c") auto
qed

lemma wrote_same_bytes: "same_bytes s t \<Longrightarrow> alloced t = alloced s \<Longrightarrow> wrote t u pid a cs \<Longrightarrow> wrote s u pid a cs"
  by (simp add: same_bytes_def wrote_def)

lemma copyOut_run:
  fixes s :: "'z pager_st_scheme"
  assumes "pages_inv s F A" and "proc_of s pid = Some p" and "0 \<le> pid" "pid < 256"
    and "pr_pid pr = pid" and "pr_callback pr = Cb_copyOutContinue" and "requests s = [] \<or> requestActive s"
    and "copy_progress s pid n k" and "k < n" and "accessible s pid p (pr_rights pr) (pr_addr pr) (n - k)"
  shows "\<exists>s1. pager pr s = syscall_reply_v (pid, 1) [] s1 \<and> messages (l4 s1) = messages (l4 s) \<and> pages_inv s1 F A \<and> same_pages s s1 \<and>
    copyInOutBuffer s1 = copyInOutBuffer s \<and>
    wrote s s1 pid (pr_addr pr) (map (\<lambda>i. copyInOutBuffer s (nat pid * 16384 + k + i)) [0..<n - k])"
  using assms
proof (induction "n - k" arbitrary: s k pr rule: less_induct)
  case less
  note inv = less.prems(1) and p = less.prems(2) and pid = less.prems(3,4) and pr = less.prems(5) and cb = less.prems(6)
    and rq = less.prems(7)
  let ?B = "nat pid * 16384 + k" and ?a = "pr_addr pr"
  obtain r where r: "(pid, ?a AND 0xFFFFF000) \<in> set (alloced s)" "find (findRegion ?a) (regions p) = Some r"
      "region_get_rights r AND pr_rights pr \<noteq> 0"
    using accessible_here [OF less.prems(10)] less.prems(9) by auto
  obtain s1 where s1: "pagerAction startRequest pr s = Some (True, s1)" "pages_inv s1 F A" "same_pages s s1" "same_bytes s s1"
      "copyInOutBuffer s1 = copyInOutBuffer s" "copyInOutData s1 = copyInOutData s" "messages (l4 s1) = messages (l4 s)"
    by (rule pagerAction_resident [OF inv, of pr p r startRequest, unfolded pr, OF p r])
  note f1 = same_pages_fields [OF s1(3)]
  have p1: "proc_of s1 pid = Some p"
    using p proc_of_cong [OF f1(2)] by simp
  have pg1: "copy_progress s1 pid n k"
    using less.prems(8) s1(6) by (simp add: copy_progress_def)
  let ?c = "min (n - k) (page_left ?a)"
  obtain s2 where s2: "copyOutContinue pager pr s1 = (if k + ?c = n then syscall_reply_v (pid, 1) [] s2
        else pager (pr\<lparr>pr_addr := (?a + PAGESIZE) AND PAGEALIGN\<rparr>) s2)"
      "pages_inv s2 F A" "same_pages s1 s2" "copy_progress s2 pid n (k + ?c)" "copyInOutBuffer s2 = copyInOutBuffer s1"
      "wrote s1 s2 pid ?a (map (\<lambda>i. copyInOutBuffer s1 (?B + i)) [0..<?c])"
      "messages (l4 s2) = messages (l4 s1)"
    by (rule copyOutContinue_page [OF s1(2), of pr p n k pager, unfolded pr, OF p1 _ pid pg1]) (use r(1) f1(1) in simp)
  have sp2: "same_pages s s2"
    using same_pages_trans [OF s1(3) s2(3)] .
  have w2: "wrote s s2 pid ?a (map (\<lambda>i. copyInOutBuffer s (?B + i)) [0..<?c])"
    using wrote_same_bytes [OF s1(4) f1(1) s2(6)] by (simp add: s1(5))
  note f2 = same_pages_fields [OF sp2]
  have p2: "proc_of s2 pid = Some p"
    using p proc_of_cong [OF f2(2)] by simp
  show ?case
  proof (cases "k + ?c = n")
    case True
    have "pager pr s = syscall_reply_v (pid, 1) [] s2"
      by (rule pager_after_reply [OF s1(1), where p = p]) (use True s2(1) cb p2 f2 rq in \<open>simp_all add: run_callback_def\<close>)
    moreover have "?c = n - k"
      using True by simp
    ultimately show ?thesis
      using s2(2,5,7) s1(5,7) sp2 w2 by (intro exI [of _ s2]) simp
  next
    case False
    then have c: "page_left ?a < n - k"
      using less.prems(9) by (auto simp: min_def split: if_splits)
    then have cc: "?c = page_left ?a"
      by simp
    let ?pr = "pr\<lparr>pr_addr := (?a + 0x1000) AND 0xFFFFF000\<rparr>" and ?k = "k + page_left ?a"
    have acc: "accessible s2 pid p (pr_rights ?pr) (pr_addr ?pr) (n - ?k)"
      using accessible_next [OF less.prems(10) f2(1) c] by simp
    have lt: "n - ?k < n - k" "?k < n"
      using c page_left_bounds(1) [of ?a] by simp_all
    have "\<exists>s3. pager ?pr s2 = syscall_reply_v (pid, 1) [] s3 \<and> messages (l4 s3) = messages (l4 s2) \<and> pages_inv s3 F A \<and> same_pages s2 s3 \<and>
        copyInOutBuffer s3 = copyInOutBuffer s2 \<and>
        wrote s2 s3 pid (pr_addr ?pr) (map (\<lambda>i. copyInOutBuffer s2 (nat pid * 16384 + ?k + i)) [0..<n - ?k])"
      by (rule less.hyps [OF lt(1) s2(2) p2 pid _ _ _ _ lt(2) acc]) (use pr cb rq f2 s2(4) cc in simp_all)
    then obtain s3 where s3: "pager ?pr s2 = syscall_reply_v (pid, 1) [] s3" and m3: "messages (l4 s3) = messages (l4 s2)" and s3': "pages_inv s3 F A" "same_pages s2 s3"
        "copyInOutBuffer s3 = copyInOutBuffer s2"
        "wrote s2 s3 pid (pr_addr ?pr) (map (\<lambda>i. copyInOutBuffer s2 (nat pid * 16384 + ?k + i)) [0..<n - ?k])"
      by (elim exE conjE) (rule that)
    have sp3: "same_pages s s3"
      using same_pages_trans [OF sp2 s3'(2)] .
    have "pager pr s = syscall_reply_v (pid, 1) [] s3"
      by (rule pager_after_reply [OF s1(1), where p = p])
        (use False s2(1) s3 cb p proc_of_cong [OF same_pages_fields(2) [OF sp3]] same_pages_fields [OF sp3] rq
          in \<open>simp_all add: run_callback_def\<close>)
    moreover have "wrote s s3 pid ?a (map (\<lambda>i. copyInOutBuffer s (?B + i)) [0..<page_left ?a + (n - ?k)])"
    proof (rule wrote_trans [OF w2 [unfolded cc]])
      show "wrote s2 s3 pid (?a + of_nat (page_left ?a)) (map (\<lambda>i. copyInOutBuffer s (?B + (page_left ?a + i))) [0..<n - ?k])"
        using s3'(4) by (simp add: next_page s2(5) s1(5) add.assoc)
      show "page_left ?a + (n - ?k) < 2 ^ 32"
        using less.prems(8) c by (auto simp: copy_progress_def)
    qed (rule f2(1))
    moreover have "page_left ?a + (n - ?k) = n - k"
      using c by simp
    ultimately show ?thesis
      using s3'(1,3) m3 s2(5,7) s1(5,7) sp3 by (intro exI [of _ s3]) simp
  qed
qed

text \<open>
  C6. Copying out to a process: let the request be a fresh one for 1 to 16384 bytes, and let every page of
  the range be resident and in a writable region. Then \<^verbatim>\<open>copyOut\<close> puts the first bytes of the calling
  thread's buffer at the addresses of the range, over any number of page boundaries, and the caller gets
  exactly one message, an empty reply, unless it accepts no messages or is not running. No other byte of
  any user page of any process changes, and the buffers and the frames of all pages stay as they are.
\<close>

theorem copyOut_copies:
  assumes "pages_inv s F A" and "proc_of s pid = Some p" and "pid < 256" and "heapOk s"
    and "requests s = [] \<or> requestActive s" and "0 < unat n" and "unat n \<le> 16384"
    and "accessible s pid p (ucast FM_WRITE) addr (unat n)"
  shows "\<exists>s1 s2. copyOut (pid, 1) addr n False s = Some s2 \<and> syscall_reply_v (pid, 1) [] s1 = Some s2 \<and>
    messages (l4 s2) = messages (l4 s) @
      (if pid = 0 \<or> process_get_ipcfilt p = PS_IPC_NONE \<or> process_get_state p \<in> {PS_STATE_ZOMBIE, PS_STATE_START} then []
       else [Ipc (pid, 1) (if process_get_ipcfilt p = PS_IPC_BLOCKING then SOS_IPC_SEND else SOS_IPC_REPLY) (syscall_word SOS_REPLY) []]) \<and>
    (\<forall>q b. (q, b AND PAGEALIGN) \<in> set (alloced s) \<longrightarrow> user_byte s2 q b =
      (if q = pid \<and> unat (b - addr) < unat n then copyInOutBuffer s (pager_buffer (pid, 1) + unat (b - addr))
       else user_byte s q b)) \<and>
    copyInOutBuffer s2 = copyInOutBuffer s \<and> pages_inv s2 F A \<and> same_pages s s2"
proof -
  let ?B = "pager_buffer (pid, 1)"
  obtain d pr where st: "copyOut (pid, 1) addr n False s = pager pr (s\<lparr>copyInOutData := d\<rparr>)"
      "pr_pid pr = pid" "pr_callback pr = Cb_copyOutContinue" "pr_addr pr = addr" "pr_rights pr = ucast FM_WRITE" "0 \<le> pid"
      "copy_progress (s\<lparr>copyInOutData := d\<rparr>) pid (unat n) 0"
    unfolding copyOut_def by (rule copy_start_progress [OF assms(1-4,7)])
  let ?s = "s\<lparr>copyInOutData := d\<rparr>"
  have same: "pages_inv ?s F A = pages_inv s F A" "frame_of ?s = frame_of s" "user_byte ?s = user_byte s"
    by (rule pages_inv_same; simp)+
  have p: "proc_of ?s pid = Some p"
    using assms(2) proc_of_cong [of ?s s] by simp
  have inv': "pages_inv ?s F A" and rq': "requests ?s = [] \<or> requestActive ?s"
    using assms(1,5) same(1) by simp_all
  have acc: "accessible ?s pid p (pr_rights pr) (pr_addr pr) (unat n - 0)"
    using assms(8) st by (simp add: accessible_def)
  obtain s1 where s1: "pager pr ?s = syscall_reply_v (pid, 1) [] s1" and m1: "messages (l4 s1) = messages (l4 ?s)" and s1': "pages_inv s1 F A" "same_pages ?s s1"
      "copyInOutBuffer s1 = copyInOutBuffer s" "wrote s s1 pid addr (map (\<lambda>i. copyInOutBuffer s (?B + i)) [0..<unat n])"
    using copyOut_run [OF inv' p st(6) assms(3) st(2,3) rq' st(7) assms(6) acc]
    by (elim exE conjE) (rule that, assumption, assumption, assumption, simp_all add: same st(4) pager_buffer_def wrote_def)
  have "same_pages s ?s"
    by (rule same_pagesI) (simp_all add: same)
  then have sp: "same_pages s s1"
    using same_pages_trans s1'(2) by blast
  have p1: "proc_of s1 pid = Some p"
    using assms(2) proc_of_cong [OF same_pages_fields(2) [OF sp]] by simp
  then obtain tr where tr: "syscall_reply_v (pid, 1) [] s1 = Some (s1\<lparr>l4 := tr\<rparr>)"
    using syscall_reply_v_proc [of s1 "(pid, 1)"] by auto
  let ?s2 = "s1\<lparr>l4 := tr\<rparr>"
  note ms = syscall_reply_v_messages [OF p1 tr, unfolded m1 pager_st.select_convs]
  have same2: "pages_inv ?s2 F A = pages_inv s1 F A" "frame_of ?s2 = frame_of s1" "user_byte ?s2 = user_byte s1"
    by (rule pages_inv_same; simp)+
  have "same_pages s1 ?s2"
    by (rule same_pagesI) (simp_all add: same2)
  then have "same_pages s ?s2"
    using same_pages_trans [OF sp] by blast
  then show ?thesis
    using st(1) s1 s1' tr ms same2 by (intro exI [of _ s1] exI [of _ ?s2]) (simp add: wrote_def)
qed

section \<open>Examples\<close>

lemma copy_example_inv:
  "pages_inv spaces_example [0x8000] {0x1000, 0x2000, 0x3000, 0x4000, 0x5000, 0x6000, 0x7000}"
proof -
  have sf: "space_frames spaces_example pid = (if pid = 5 then {0x1000, 0x2000} else if pid = 6 then {0x3000, 0x4000} else {})" for pid
    using spaces_example_level2 by (auto simp: space_frames_def spaces_example_proc pt_frames_def image_iff)
  have "frame_of spaces_example (5, 0) = 0x5000" "frame_of spaces_example (5, 0x1000) = 0x6000" "frame_of spaces_example (6, 0) = 0x7000"
    by (simp_all add: frame_of_def spaces_example_entry)
  then show ?thesis
    using spaces_example_inv spaces_example_resident(2)
    by (simp add: pages_inv_def spaces_example_resident(1) data_page_def spaces_example_entry sf)
qed

lemma copy_example_misc: "proc_of spaces_example 5 = Some (space_example 5 0x1000)" "heapOk spaces_example" "requests spaces_example = []"
  by (simp add: spaces_example_proc) (simp_all add: spaces_example_defs)

lemma copy_example_accessible:
  assumes "rights = 2 \<or> rights = 4"
  shows "accessible spaces_example 5 (space_example 5 0x1000) rights 0xFFE (unat (4 :: u32))"
  unfolding accessible_def
proof (intro allI impI)
  fix j :: nat
  assume "j < unat (4 :: u32)"
  then consider "j = 0" | "j = 1" | "j = 2" | "j = 3"
    by fastforce
  then show "(5, (0xFFE + of_nat j) AND PAGEALIGN) \<in> set (alloced spaces_example) \<and>
      (\<exists>r. find (findRegion (0xFFE + of_nat j)) (regions (space_example 5 0x1000)) = Some r \<and> region_get_rights r AND rights \<noteq> 0)"
    using assms
    by cases (auto simp: spaces_example_resident(1) findRegion_def region_alloc_def region_defs)
qed

lemma copy_example_range: "(5 :: int) < 256" "0 < unat (4 :: u32)" "unat (4 :: u32) \<le> 16384" "unat (4 :: u32) = 4"
  by simp_all

lemma copy_example_reply:
  "(if (5 :: int) = 0 \<or> process_get_ipcfilt (space_example 5 0x1000) = PS_IPC_NONE \<or>
      process_get_state (space_example 5 0x1000) \<in> {PS_STATE_ZOMBIE, PS_STATE_START} then []
    else [Ipc (5, 1) (if process_get_ipcfilt (space_example 5 0x1000) = PS_IPC_BLOCKING then SOS_IPC_SEND else SOS_IPC_REPLY)
      (syscall_word SOS_REPLY) []]) = [Ipc (5, 1) SOS_IPC_REPLY 0 []]"
  by (simp add: space_example_def process_get_ipcfilt_def process_get_state_def proc_example_def syscall_word_def)

theorem copyIn_copies_witness:
  "\<exists>s1 s2. copyIn (5, 1) 0xFFE 4 False spaces_example = Some s2 \<and> syscall_reply_v (5, 1) [] s1 = Some s2 \<and>
    map (copyInOutBuffer s2) [pager_buffer (5, 1)..<pager_buffer (5, 1) + 4] =
      map (\<lambda>i. user_byte spaces_example 5 (0xFFE + of_nat i)) [0..<4] \<and>
    messages (l4 s2) = messages (l4 spaces_example) @ [Ipc (5, 1) SOS_IPC_REPLY 0 []]"
  using copyIn_copies [OF copy_example_inv copy_example_misc(1) copy_example_range(1) copy_example_misc(2)
      disjI1 [OF copy_example_misc(3)] copy_example_range(2,3) copy_example_accessible]
  unfolding copy_example_range(4) copy_example_reply by (elim meta_impE) (simp, blast)

theorem copyOut_copies_witness:
  "\<exists>s1 s2. copyOut (5, 1) 0xFFE 4 False spaces_example = Some s2 \<and> syscall_reply_v (5, 1) [] s1 = Some s2 \<and>
    user_byte s2 5 0x1001 = copyInOutBuffer spaces_example (pager_buffer (5, 1) + 3) \<and>
    user_byte s2 6 0x10 = user_byte spaces_example 6 0x10"
proof -
  have r: "ucast FM_WRITE = (2 :: u32) \<or> ucast FM_WRITE = (4 :: u32)"
    by simp
  obtain s1 s2 where s2: "copyOut (5, 1) 0xFFE 4 False spaces_example = Some s2" "syscall_reply_v (5, 1) [] s1 = Some s2"
    and b: "\<And>q b. (q, b AND PAGEALIGN) \<in> set (alloced spaces_example) \<Longrightarrow> user_byte s2 q b =
      (if q = 5 \<and> unat (b - 0xFFE) < unat (4 :: u32) then copyInOutBuffer spaces_example (pager_buffer (5, 1) + unat (b - 0xFFE))
       else user_byte spaces_example q b)"
    using copyOut_copies [OF copy_example_inv copy_example_misc(1) copy_example_range(1) copy_example_misc(2)
      disjI1 [OF copy_example_misc(3)] copy_example_range(2,3) copy_example_accessible [OF r]] by blast
  have "(5, 0x1001 AND PAGEALIGN) \<in> set (alloced spaces_example)" "(6, 0x10 AND PAGEALIGN) \<in> set (alloced spaces_example)"
    by (simp_all add: spaces_example_resident(1))
  from this [THEN b] s2 show ?thesis
    by (intro exI [of _ s1] exI [of _ s2]) simp
qed

end
