(* ===== verification/SyscallProps.thy ===== *)
theory SyscallProps
  imports Syscall ClockProps UserCopy
begin

text \<open>
  The root server's dispatch keeps the tables of the file system consistent, and the private system
  calls have no effect for ordinary processes.
\<close>

section \<open>Changes of a process that do not concern its files\<close>

lemma syscall_reply_v_fs_inv: "syscall_reply_v tid ws s = Some s' \<Longrightarrow> fs_inv s \<Longrightarrow> fs_inv s'"
  by (auto simp: syscall_reply_v_def l4_do_def ipc_send_def fs_inv_def vfs_inv_def Let_def split: if_splits elim!: bind_SomeE)

lemma syscall_reply_fs_inv: "syscall_reply tid w s = Some s' \<Longrightarrow> fs_inv s \<Longrightarrow> fs_inv s'"
  unfolding syscall_reply_def by (rule syscall_reply_v_fs_inv)

lemma set_state_fs_inv: "upd_proc pid (process_set_state st) s = Some s' \<Longrightarrow> fs_inv s \<Longrightarrow> fs_inv s'"
  by (erule upd_proc_fs_inv) (simp_all add: process_set_state_def)

lemma register_timer_fs_inv:
  assumes "register_timer d t s = Some (r, s')" and "fs_inv s"
  shows "fs_inv s'"
proof -
  have clock: "fs_inv (s\<lparr>bts := h, blocked_threads := b\<rparr>) = fs_inv s"
    "fs_inv (s\<lparr>ost_tim0_rl := x, ost_sts := y\<rparr>) = fs_inv s" for s :: "'z clock_st_scheme" and h b x y
    by (simp_all add: fs_inv_def vfs_inv_def)
  show ?thesis
    using assms by (auto simp: register_timer_def clock Let_def split: if_splits elim!: bind_SomeE dest!: set_state_fs_inv)
qed

lemma wake_sleeper_fs_inv: "wake_sleeper t s = Some s' \<Longrightarrow> fs_inv s \<Longrightarrow> fs_inv s'"
  by (auto simp: wake_sleeper_def elim!: bind_SomeE dest: set_state_fs_inv syscall_reply_fs_inv)

lemma bts_fs_inv: "fs_inv (s\<lparr>bts := h\<rparr>) = fs_inv (s :: 'z clock_st_scheme)"
  by (simp add: fs_inv_def vfs_inv_def)

lemma unblock_loop_fs_inv:
  assumes "unblock_loop ts bt d nd s = Some r"
  shows "fs_inv s \<longrightarrow> fs_inv (snd (snd r))"
proof (rule unblock_loop.raw_induct [where P = "\<lambda>ts bt d nd s r. fs_inv s \<longrightarrow> fs_inv (snd (snd r))", OF _ assms], goal_cases)
  case (1 loop ts bt d nd s r)
  note IH = 1(1)
  show ?case
  proof
    assume inv: "fs_inv s"
    show "fs_inv (snd (snd r))"
      using 1(2) inv
      by (auto simp: Let_def bts_fs_inv split: if_splits elim!: bind_SomeE dest!: IH wake_sleeper_fs_inv)
  qed
qed

lemma timer_irq_fs_inv:
  assumes "timer_irq later s = Some (r, s')" and "fs_inv s"
  shows "fs_inv s'"
proof -
  have clock: "fs_inv (s\<lparr>ost_ts := t, ost_sts := x, ost_tim0_rl := y\<rparr>) = fs_inv s" for s :: "'z clock_st_scheme" and t x y
    by (simp add: fs_inv_def vfs_inv_def)
  show ?thesis
    using assms by (auto simp: timer_irq_def Let_def clock split: if_splits elim!: bind_SomeE dest!: unblock_loop_fs_inv)
qed

lemma is_rootthread_fs_inv: "is_rootthread tid s = Some (ok, s') \<Longrightarrow> fs_inv s \<Longrightarrow> fs_inv s'"
  unfolding is_rootthread_def
  by (auto elim!: bind_SomeE) (erule upd_proc_fs_inv, simp_all add: process_get_info_def)+

lemma private_call_fs_inv:
  assumes "private_call tid f s = Some s'" and "fs_inv s" and "\<And>t t'. is_rootthread tid s = Some (True, t) \<Longrightarrow> f t = Some t' \<Longrightarrow> fs_inv t \<Longrightarrow> fs_inv t'"
  shows "fs_inv s'"
proof -
  obtain ok t where t: "is_rootthread tid s = Some (ok, t)" and r: "(if ok then f t else syscall_reply tid (- 1) t) = Some s'"
    using assms(1) by (auto simp: private_call_def elim!: bind_SomeE)
  have "fs_inv t"
    using is_rootthread_fs_inv [OF t assms(2)] .
  then show ?thesis
    using r t assms(3) syscall_reply_fs_inv [of tid "- 1" t s'] by (cases ok) auto
qed

section \<open>The dispatch\<close>

text \<open>
  What a call assumes of its environment: a vnode is allocated where none is, and no descriptor is
  duplicated onto itself.
\<close>

definition call_ok :: "msg \<Rightarrow> 'z nfs_st_scheme \<Rightarrow> bool" where
  "call_ok m s \<longleftrightarrow> (vnode_addr s = 0 \<or> vnodes s (vnode_addr s) = None) \<and>
     (syscall_of (TAG_SYSLAB m) \<in> {Some SOS_DUP, Some PSOS_DUP} \<longrightarrow> sint (L4_MsgWord m 0) \<noteq> sint (L4_MsgWord m 1))"

lemma syscall_handle_fs_inv:
  assumes "syscall_handle later tid m s = Some (r, s')" and "fs_inv s" and "call_ok m s"
  shows "fs_inv s'"
proof -
  have buf: "fs_inv (s\<lparr>copyInOutBuffer := b, kernelOut := x\<rparr>) = fs_inv s" for b x
    by (simp add: fs_inv_def vfs_inv_def)
  have fr: "vnode_addr t = vnode_addr s" "vnodes t = vnodes s" if "is_rootthread tid s = Some (ok, t)" for ok t
    using that by (auto simp: is_rootthread_def elim!: bind_SomeE upd_proc_SomeD)
  have st: "fs_inv t'" if "fs_step t t'" "fs_inv t" for t t' :: "'a sos_st_scheme"
    using fs_step_inv that by blast
  have op: "fs_inv t'" if "is_rootthread tid s = Some (True, t)" "vfs_open pid b md rd wr t = Some t'" "fs_inv t"
    for t t' :: "'a sos_st_scheme" and pid b md rd wr
    using st [OF st_open [OF that(2)] that(3)] fr [OF that(1)] assms(3) by (simp add: call_ok_def)
  show ?thesis
    using assms
    by (auto simp: syscall_handle_def Let_def call_ok_def buf split: option.splits syscall_t.splits
        elim!: bind_SomeE private_call_fs_inv intro: op st fs_step.intros
        dest: syscall_reply_v_fs_inv syscall_reply_fs_inv register_timer_fs_inv)
qed

text \<open>
  C2. The root server keeps the tables of the file system consistent. Take any round of its loop that
  completes, with whatever message or interrupt it handles: any system call with any arguments, a
  fault of one of its own threads, the clock, the network, whose driver may run any steps of the
  file system. If the invariant of vnodes, open files and reference counts holds before the round, it
  holds afterwards, provided that a new vnode is allocated at an unused address and that the call is
  not a duplication of a descriptor onto itself.
\<close>

theorem root_server_consistent:
  assumes "syscall_loop network_irq later ev s = Some (b, s')" and "fs_inv s"
    and "\<And>sender m. ev = Message sender m \<Longrightarrow> call_ok m s"
    and "\<And>s a c s'. network_irq s = Some (a, c, s') \<Longrightarrow> fs_step\<^sup>*\<^sup>* s s'"
  shows "fs_inv s'"
proof -
  have net: "fs_inv t'" if "network_irq t = Some (a, c, t')" "fs_inv t" for t a c t'
    using assms(4) [OF that(1)] that(2) by (induction rule: rtranclp_induct) (auto intro: fs_step_inv)
  have ts: "fs_inv (t\<lparr>ts_overflow := x, ost_sts := y\<rparr>) = fs_inv t" for t :: "'a sos_st_scheme" and x y
    by (simp add: fs_inv_def vfs_inv_def)
  have irq: "fs_inv t'" if "run_irq network_irq later h t = Some (a, t')" "fs_inv t" for h t a t'
    using that by (cases h) (auto simp: run_irq_def timestamp_irq_def ts elim!: bind_SomeE intro: net timer_irq_fs_inv)
  have l4: "fs_inv (l4_do c t) = fs_inv t" for c and t :: "'a sos_st_scheme"
    by (simp add: l4_do_def fs_inv_def vfs_inv_def)
  show ?thesis
  proof (cases ev)
    case (Notify bits irq)
    then show ?thesis
      using assms(1,2) irq by (auto simp: syscall_loop_def l4 split: if_splits elim!: bind_SomeE)
  next
    case (Message sender m)
    note h = syscall_handle_fs_inv [of later "sos_sid2tid sender s", OF _ assms(2) assms(3) [OF Message]]
    show ?thesis
      using assms(1,2) Message net h
      by (auto simp: syscall_loop_def sosPagerHandler_def l4 Let_def split: option.splits syscall_t.splits elim!: bind_SomeE)
  qed
qed

text \<open>
  C17. The private system calls, which act on the files of any process, are refused to ordinary
  processes: for a caller that is not a thread of the root server the call changes nothing but the
  caller's run time, and the caller is told -1.
\<close>

theorem private_calls_refused:
  assumes "syscall_of (TAG_SYSLAB m) \<in> {Some PSOS_OPEN, Some PSOS_CLOSE, Some PSOS_FLUSH, Some PSOS_DUP}"
    and "proc_of s (L4_ThreadNo tid) = Some p" and "ps_type (info p) \<noteq> PS_TYPE_ROOTTHREAD"
  shows "\<exists>s1 s'. upd_proc (L4_ThreadNo tid) (process_get_info (now s)) s = Some s1 \<and>
    syscall_reply tid (- 1) s1 = Some s' \<and> syscall_handle later tid m s = Some (0, s')"
proof -
  obtain P where P: "upd_proc (fst tid) (process_get_info (now s)) s = Some (s\<lparr>sosProcs := P\<rparr>)"
      "\<And>q. proc_of (s\<lparr>sosProcs := P\<rparr>) q = (if q = fst tid then Some (process_get_info (now s) p) else proc_of s q)"
    using upd_proc_proc [of s "fst tid" p "process_get_info (now s)"] assms(2) by auto
  have "proc_of (s\<lparr>sosProcs := P\<rparr>) (fst tid) = Some (process_get_info (now s) p)"
    using P(2) by simp
  then have r: "is_rootthread tid s = Some (False, s\<lparr>sosProcs := P\<rparr>)"
    and "\<exists>tr. syscall_reply_v tid [- 1] (s\<lparr>sosProcs := P\<rparr>) = Some (s\<lparr>sosProcs := P, l4 := tr\<rparr>)"
    using P(1) assms(3) syscall_reply_v_proc [of "s\<lparr>sosProcs := P\<rparr>" tid _ "[- 1]"]
    by (simp_all add: is_rootthread_def proc_of_lookup process_get_info_def)
  then obtain s' where s': "syscall_reply tid (- 1) (s\<lparr>sosProcs := P\<rparr>) = Some s'"
    by (auto simp: syscall_reply_def)
  have "private_call tid f s = Some s'" for f
    using r s' by (simp add: private_call_def)
  then have "syscall_handle later tid m s = Some (0, s')"
    using assms(1) by (auto simp: syscall_handle_def Let_def)
  then show ?thesis
    using P(1) s' by auto
qed

section \<open>Examples\<close>

definition sos_example :: sos_st where
  "sos_example = clock_st.extend clock_example (sos_st.fields [])"

lemma sos_example_proc: "proc_of sos_example = proc_of spaces_example"
proof -
  have "sosProcs sos_example = sosProcs clock_example"
    by (simp add: sos_example_def sos_st.defs clock_example_def clock_st.defs pager_st.defs)
  then show ?thesis
    by (metis (no_types) clock_example_proc ext proc_of_def process_lookup_def)
qed

lemma syscall_of_label: "syscall_of (TAG_SYSLAB (ipc_create_msg_v (syscall_word c) ws)) = Some c"
  by (simp only: syscall_label syscall_of_no)

lemma sos_example_fs: "vnodes sos_example = Map.empty" "GlobalVNodes sos_example = 0" "NfsRequests sos_example = []"
  "sosProcs sos_example = (replicate 256 PNull)[5 := PProc (space_example 5 0x1000), 6 := PProc (space_example 6 0x3000)]"
  by (simp_all add: sos_example_def sos_st.defs clock_example_def clock_st.defs spaces_example_defs)

theorem private_calls_refused_witness:
  "\<exists>s1 s'. upd_proc 5 (process_get_info (now sos_example)) sos_example = Some s1 \<and> syscall_reply (5, 1) (- 1) s1 = Some s' \<and>
     syscall_handle 0 (5, 1) (ipc_create_msg_v (syscall_word PSOS_CLOSE) [0, 6]) sos_example = Some (0, s')"
  using private_calls_refused [of "ipc_create_msg_v (syscall_word PSOS_CLOSE) [0, 6]" sos_example "(5, 1)" "space_example 5 0x1000" 0]
  by (simp add: syscall_of_label sos_example_proc spaces_example_proc)
    (simp add: space_example_def proc_example_def)

text \<open>Process 5 has the name of the console in its buffer; the console is the only vnode.\<close>

definition sos_console :: sos_st where
  "sos_console = sos_example\<lparr>vnodes := [64 \<mapsto> console_vnode 0], GlobalVNodes := 64, vnode_addr := 128,
     copyInOutBuffer := buf_memcpy 81920 (''console'' @ [NUL]) (\<lambda>_. NUL)\<rparr>"

lemma sos_console_state: "con_state 5 (replicate 19 (- 1)) (replicate 16 no_file) 0 [] sos_console"
proof -
  have "serial sos_example" "udpOk sos_example" "buf_used (console_file sos_example) = 0" "serialOut sos_example = []"
    by (simp_all add: sos_example_def sos_st.defs clock_example_def clock_st.defs spaces_example_defs)
  then show ?thesis
    by (simp add: sos_console_def con_state_def sos_example_fs space_example_def proc_example_def vfiles_init_def no_file_def)
qed

lemma sos_console_fs_inv: "fs_inv sos_console"
proof -
  have "fs_boot sos_example"
    by (auto simp: fs_boot_def sos_example_fs nth_list_update space_example_def proc_example_def)
  then show ?thesis
    using fs_boot_console [of sos_example 64 "console_vnode 0"]
    by (simp add: sos_console_def fs_inv_def vfs_inv_def sos_example_fs console_vnode_def)
qed

theorem root_server_consistent_witness:
  "\<exists>s'. syscall_loop (\<lambda>s. Some (0, False, s)) 0
      (Message 5 (ipc_create_msg_v (syscall_word SOS_OPEN) [2, FM_UNLIMITED_RW, FM_UNLIMITED_RW])) sos_console = Some (False, s') \<and>
     (\<exists>p. sosProcs s' ! 5 = PProc p \<and> fds p ! 0 = 0 \<and> vf_vnode (files p ! 0) = 64) \<and> fs_inv s'"
proof -
  let ?m = "ipc_create_msg_v (syscall_word SOS_OPEN) [2, FM_UNLIMITED_RW, FM_UNLIMITED_RW]"
  have "cstr (copyInOutBuffer sos_console) 81920 = Some ''console''"
    by (simp add: sos_console_def cstr.simps buf_memcpy_def BUFFER_BYTES_def)
  from con_open [OF sos_console_state this] obtain s' where
    s': "vfs_open 5 81920 FM_WRITE FM_UNLIMITED_RW FM_UNLIMITED_RW sos_console = Some s'"
      "con_state 5 ((replicate 19 (- 1))[0 := 0]) ((replicate 16 no_file)[0 := con_file 1]) 1 [] s'"
    by (elim exE conjE) (rule that)
  have t: "sos_sid2tid 5 sos_console = (5, 1)"
    using sos_console_state by (auto simp: sos_sid2tid_def con_state_def process_lookup_def)
  have w: "L4_MsgWord (ipc_create_msg_v l [x, y, z]) 0 = x" "L4_MsgWord (ipc_create_msg_v l [x, y, z]) (Suc 0) = y"
    "L4_MsgWord (ipc_create_msg_v l [x, y, z]) 2 = z" for l x y z
    by (simp_all add: ipc_create_msg_v_def L4_MsgWord_def)
  have h: "syscall_loop (\<lambda>s. Some (0, False, s)) 0 (Message 5 ?m) sos_console = Some (False, s')"
    using s'(1) by (simp add: syscall_loop_def syscall_of_label syscall_handle_def t w pager_buffer_def Let_def)
  have "fs_inv s'"
    by (rule root_server_consistent [OF h sos_console_fs_inv])
      (auto simp: call_ok_def syscall_of_label sos_console_def)
  then show ?thesis
    using h s'(2) by (auto simp: con_state_def con_file_def)
qed

end
