(* ===== verification/Malloc.thy ===== *)
theory Malloc
  imports Frames
begin

text \<open>
  The memory allocator of the C library, \<^verbatim>\<open>src/libs/c/src/malloc.c\<close> and \<^verbatim>\<open>free.c\<close>, with the two
  versions of \<^verbatim>\<open>morecore\<close> that SOS has: the root server takes a frame (\<^verbatim>\<open>sys-l4_rootserver\<close>), a user
  process asks for a larger heap (\<^verbatim>\<open>sys-sos\<close>).

  A block is a header of two words followed by the memory given to the client; sizes count headers.
  The free blocks are on a circular list in the order of their addresses, threaded through their
  headers, together with the static block \<^verbatim>\<open>base\<close> of size 0. The first word of a header at address
  \<open>p\<close> is the word of memory at \<open>p\<close>, the second the word at \<open>p + 4\<close>.
\<close>

section \<open>State and headers\<close>

record malloc_st = frames_st +
  mbase :: u32
  freep :: u32
  errno :: int

definition SIZEOF_HEADER :: u32 where
  [simp]: "SIZEOF_HEADER = 8"

definition ENOMEM :: int where
  [simp]: "ENOMEM = 12"

definition NALLOC :: u32 where
  [simp]: "NALLOC = 0x1000"

definition hdr_ptr :: "u32 \<Rightarrow> 'z frames_st_scheme \<Rightarrow> u32" where
  "hdr_ptr p s = mem s p"

definition hdr_size :: "u32 \<Rightarrow> 'z frames_st_scheme \<Rightarrow> u32" where
  "hdr_size p s = mem s (p + 4)"

definition set_ptr :: "u32 \<Rightarrow> u32 \<Rightarrow> 'z frames_st_scheme \<Rightarrow> 'z frames_st_scheme" where
  "set_ptr p v s = s\<lparr>mem := (mem s)(p := v)\<rparr>"

definition set_size :: "u32 \<Rightarrow> u32 \<Rightarrow> 'z frames_st_scheme \<Rightarrow> 'z frames_st_scheme" where
  "set_size p v s = s\<lparr>mem := (mem s)(p + 4 := v)\<rparr>"

text \<open>\<open>p + n\<close> for a pointer to a header.\<close>

definition hdr_plus :: "u32 \<Rightarrow> u32 \<Rightarrow> u32" where
  "hdr_plus p n = p + SIZEOF_HEADER * n"

definition mc_round_up :: "u32 \<Rightarrow> u32 \<Rightarrow> u32" where
  "mc_round_up address sz = (address + (sz - 1)) AND NOT (sz - 1)"

section \<open>Operations\<close>

text \<open>The first call sets up a list of the block \<^verbatim>\<open>base\<close> alone.\<close>

definition malloc_start :: "'z malloc_st_scheme \<Rightarrow> 'z malloc_st_scheme" where
  "malloc_start s = (if freep s = 0
     then set_size (mbase s) 0 (set_ptr (mbase s) (mbase s) (s\<lparr>freep := mbase s\<rparr>)) else s)"

partial_function (option) free_search :: "u32 \<Rightarrow> u32 \<Rightarrow> 'z frames_st_scheme \<Rightarrow> u32 option" where
  "free_search bp p s =
     (if bp > p \<and> bp < hdr_ptr p s then Some p
      else if p \<ge> hdr_ptr p s \<and> (bp > p \<or> bp < hdr_ptr p s) then Some p
      else free_search bp (hdr_ptr p s) s)"

definition join_upper :: "u32 \<Rightarrow> u32 \<Rightarrow> 'z frames_st_scheme \<Rightarrow> 'z frames_st_scheme" where
  "join_upper bp p s =
     (if hdr_plus bp (hdr_size bp s) = hdr_ptr p s then
        let s = set_size bp (hdr_size bp s + hdr_size (hdr_ptr p s) s) s
        in set_ptr bp (hdr_ptr (hdr_ptr p s) s) s
      else set_ptr bp (hdr_ptr p s) s)"

definition join_lower :: "u32 \<Rightarrow> u32 \<Rightarrow> 'z frames_st_scheme \<Rightarrow> 'z frames_st_scheme" where
  "join_lower bp p s =
     (if hdr_plus p (hdr_size p s) = bp then
        let s = set_size p (hdr_size p s + hdr_size bp s) s
        in set_ptr p (hdr_ptr bp s) s
      else set_ptr p bp s)"

definition free :: "u32 \<Rightarrow> 'z malloc_st_scheme \<Rightarrow> 'z malloc_st_scheme option" where
  "free ap s =
     (if ap = 0 then Some s
      else do {
        let s = malloc_start s;
        let bp = ap - SIZEOF_HEADER;
        p \<leftarrow> free_search bp (freep s) s;
        let s = join_upper bp p s;
        let s = join_lower bp p s;
        Some (s\<lparr>freep := p\<rparr>) })"

text \<open>Taking \<open>nunits\<close> headers from the free block \<open>p\<close>, which follows \<open>prevp\<close>.\<close>

definition malloc_take :: "u32 \<Rightarrow> u32 \<Rightarrow> u32 \<Rightarrow> 'z malloc_st_scheme \<Rightarrow> u32 \<times> 'z malloc_st_scheme" where
  "malloc_take nunits prevp p s =
     (if hdr_size p s = nunits
      then (hdr_plus p 1, (set_ptr prevp (hdr_ptr p s) s)\<lparr>freep := prevp\<rparr>)
      else let s = set_size p (hdr_size p s - nunits) s;
               p = hdr_plus p (hdr_size p s);
               s = set_size p nunits s
           in (hdr_plus p 1, s\<lparr>freep := prevp\<rparr>))"

partial_function (option) malloc_loop :: "(u32 \<Rightarrow> 'z malloc_st_scheme \<Rightarrow> (u32 \<times> 'z malloc_st_scheme) option) \<Rightarrow>
    u32 \<Rightarrow> u32 \<Rightarrow> u32 \<Rightarrow> 'z malloc_st_scheme \<Rightarrow> (u32 \<times> 'z malloc_st_scheme) option" where
  "malloc_loop morecore nunits prevp p s =
     (if hdr_size p s \<ge> nunits then Some (malloc_take nunits prevp p s)
      else if p = freep s then do {
        (p, s) \<leftarrow> morecore nunits s;
        if p = 0 then Some (0, s\<lparr>errno := ENOMEM\<rparr>)
        else malloc_loop morecore nunits p (hdr_ptr p s) s }
      else malloc_loop morecore nunits p (hdr_ptr p s) s)"

definition malloc :: "(u32 \<Rightarrow> 'z malloc_st_scheme \<Rightarrow> (u32 \<times> 'z malloc_st_scheme) option) \<Rightarrow>
    u32 \<Rightarrow> 'z malloc_st_scheme \<Rightarrow> (u32 \<times> 'z malloc_st_scheme) option" where
  "malloc morecore nbytes s =
     (if nbytes = 0 then Some (0, s)
      else do {
        let nunits = (nbytes + SIZEOF_HEADER - 1) div SIZEOF_HEADER + 1;
        let s = malloc_start s;
        let prevp = freep s;
        malloc_loop morecore nunits prevp (hdr_ptr prevp s) s })"

text \<open>
  The two versions of \<^verbatim>\<open>morecore\<close> differ in where the memory comes from. The root server's asks for one
  frame, however much is needed; the one of user processes makes the system call \<^verbatim>\<open>moremem\<close>, which is an
  argument and answers with a flag and the address.
\<close>

definition add_core :: "u32 \<Rightarrow> u32 \<Rightarrow> 'z malloc_st_scheme \<Rightarrow> (u32 \<times> 'z malloc_st_scheme) option" where
  "add_core cp nb s = do {
     let up = cp;
     let s = set_size up (nb div SIZEOF_HEADER) s;
     s \<leftarrow> free (hdr_plus up 1) s;
     Some (freep s, s) }"

definition morecore_rootserver :: "u32 \<Rightarrow> 'z malloc_st_scheme \<Rightarrow> (u32 \<times> 'z malloc_st_scheme) option" where
  "morecore_rootserver nu s = do {
     let nb = mc_round_up (nu * SIZEOF_HEADER) NALLOC;
     let (cp, s) = frame_alloc FA_MORECORE s;
     if cp = 0 then Some (0, s) else add_core cp nb s }"

definition morecore_sos :: "(u32 \<Rightarrow> 'z malloc_st_scheme \<Rightarrow> int \<times> u32 \<times> 'z malloc_st_scheme) \<Rightarrow>
    u32 \<Rightarrow> 'z malloc_st_scheme \<Rightarrow> (u32 \<times> 'z malloc_st_scheme) option" where
  "morecore_sos moremem numUnits s = do {
     let numBytes = mc_round_up (numUnits * SIZEOF_HEADER) NALLOC;
     let (ok, cp, s) = moremem numBytes s;
     if ok = 0 then Some (0, s) else add_core cp numBytes s }"

end
