(* ===== verification/Cyclic.thy ===== *)
theory Cyclic
  imports Main
begin

text \<open>
  Circular lists in the order of their elements, as a set with the cyclic successor: the next larger
  element, or the least one after the greatest. Insertion and removal change one successor each, and a
  walk along the successors comes by every element.
\<close>

definition nxt :: "'a :: linorder set \<Rightarrow> 'a \<Rightarrow> 'a" where
  "nxt F a = (if \<exists>b\<in>F. a < b then Min {b \<in> F. a < b} else Min F)"

definition pre :: "'a :: linorder set \<Rightarrow> 'a \<Rightarrow> 'a" where
  "pre F x = (if \<exists>a\<in>F. a < x then Max {a \<in> F. a < x} else Max F)"

text \<open>The nodes a walk from \<open>p\<close> passes until it is at \<open>t\<close>.\<close>

definition arc :: "'a :: linorder set \<Rightarrow> 'a \<Rightarrow> 'a \<Rightarrow> 'a set" where
  "arc F p t = (if p \<le> t then {x \<in> F. p \<le> x \<and> x \<le> t} else {x \<in> F. p \<le> x \<or> x \<le> t})"

lemma nxt_cases:
  assumes "finite F" and "F \<noteq> {}"
  obtains "nxt F a \<in> F" "a < nxt F a" "\<And>b. b \<in> F \<Longrightarrow> a < b \<Longrightarrow> nxt F a \<le> b"
  | "nxt F a \<in> F" "\<And>b. b \<in> F \<Longrightarrow> b \<le> a" "\<And>b. b \<in> F \<Longrightarrow> nxt F a \<le> b"
proof (cases "\<exists>b\<in>F. a < b")
  case True
  then have "finite {b \<in> F. a < b}" "{b \<in> F. a < b} \<noteq> {}"
    using assms by auto
  with True show ?thesis
    using that(1) Min_in [of "{b \<in> F. a < b}"] by (auto simp: nxt_def)
next
  case False
  then have "nxt F a = Min F" and "b \<le> a" if "b \<in> F" for b
    using that by (auto simp: nxt_def not_less)
  then show ?thesis
    using that(2) assms by (metis Min_in Min_le all_not_in_conv)
qed

lemma nxt_in: "finite F \<Longrightarrow> F \<noteq> {} \<Longrightarrow> nxt F a \<in> F"
  by (rule nxt_cases [of F a])

lemma nxt_unique:
  assumes "finite F" and "b \<in> F" and "a < b" and "\<And>c. c \<in> F \<Longrightarrow> a < c \<Longrightarrow> b \<le> c"
  shows "nxt F a = b"
  using assms by (auto simp: nxt_def intro!: Min_eqI)

lemma nxt_wrap:
  assumes "finite F" and "b \<in> F" and "\<And>c. c \<in> F \<Longrightarrow> c \<le> a" and "\<And>c. c \<in> F \<Longrightarrow> b \<le> c"
  shows "nxt F a = b"
  using assms by (auto simp: nxt_def not_less [symmetric] intro!: Min_eqI)

lemma cycle_induct:
  assumes "finite F" and "p \<in> F" and "t \<in> F" and "P t" and step: "\<And>x. x \<in> F \<Longrightarrow> x \<noteq> t \<Longrightarrow> P (nxt F x) \<Longrightarrow> P x"
  shows "P p"
proof -
  have ne: "F \<noteq> {}"
    using assms(2) by auto
  have up: "P x" if "x \<in> F" "x \<le> t" for x
    using that
  proof (induction "card {y \<in> F. x < y \<and> y \<le> t}" arbitrary: x rule: less_induct)
    case less
    show ?case
    proof (cases "x = t")
      case False
      then have x: "x < t"
        using less.prems by simp
      have n: "nxt F x \<in> F" "x < nxt F x" "nxt F x \<le> t"
        by (rule nxt_cases [OF assms(1) ne, of x]; use assms(3) x in force)+
      then have "{y \<in> F. nxt F x < y \<and> y \<le> t} \<subset> {y \<in> F. x < y \<and> y \<le> t}"
        by auto
      then have "P (nxt F x)"
        using less.hyps n assms(1) by (simp add: psubset_card_mono)
      then show ?thesis
        using step less.prems False by blast
    qed (use assms(4) in simp)
  qed
  have "P x" if "x \<in> F" "t < x" for x
    using that
  proof (induction "card {y \<in> F. x < y}" arbitrary: x rule: less_induct)
    case less
    have "P (nxt F x)"
    proof (rule nxt_cases [OF assms(1) ne, of x])
      assume n: "nxt F x \<in> F" "x < nxt F x"
      then have "{y \<in> F. nxt F x < y} \<subset> {y \<in> F. x < y}"
        by auto
      then show ?thesis
        using less n assms(1) by (simp add: psubset_card_mono)
    next
      assume "nxt F x \<in> F" "\<And>b. b \<in> F \<Longrightarrow> nxt F x \<le> b"
      then show ?thesis
        using up assms(3) by blast
    qed
    then show ?case
      using step less.prems by auto
  qed
  then show ?thesis
    using up assms(2) by (cases "p \<le> t") auto
qed

lemma arc_step:
  assumes "finite F" and "p \<in> F" and "t \<in> F" and "p \<noteq> t"
  shows "arc F p t = insert p (arc F (nxt F p) t)"
proof (rule nxt_cases [OF assms(1), of p])
  show "F \<noteq> {}"
    using assms(2) by auto
next
  assume n: "p < nxt F p" "\<And>b. b \<in> F \<Longrightarrow> p < b \<Longrightarrow> nxt F p \<le> b"
  have "nxt F p \<le> t \<longleftrightarrow> p < t" and "nxt F p \<le> x \<longleftrightarrow> p < x" if "x \<in> F" for x
    using n assms(3) that by (meson le_less_trans less_le_trans not_le)+
  then show ?thesis
    using assms(2,4) by (auto simp: arc_def)
next
  assume n: "\<And>b. b \<in> F \<Longrightarrow> b \<le> p" "\<And>b. b \<in> F \<Longrightarrow> nxt F p \<le> b"
  have "\<not> p \<le> t" and "nxt F p \<le> t"
    using n assms(3,4) by (auto simp: order.antisym)
  then show ?thesis
    using n assms(2) by (auto simp: arc_def intro: order.antisym)
qed

lemma arc_self: "t \<in> F \<Longrightarrow> arc F t t = {t}"
  by (auto simp: arc_def)

lemma arc_full:
  assumes "finite F" and "t \<in> F"
  shows "arc F (nxt F t) t = F"
proof (rule nxt_cases [OF assms(1), of t])
  show "F \<noteq> {}"
    using assms(2) by auto
next
  assume n: "t < nxt F t" "\<And>b. b \<in> F \<Longrightarrow> t < b \<Longrightarrow> nxt F t \<le> b"
  then have "nxt F t \<le> x \<or> x \<le> t" if "x \<in> F" for x
    using that by (meson not_le)
  with n(1) show ?thesis
    by (auto simp: arc_def)
next
  assume "\<And>b. b \<in> F \<Longrightarrow> b \<le> t" "\<And>b. b \<in> F \<Longrightarrow> nxt F t \<le> b"
  then show ?thesis
    using assms(2) by (auto simp: arc_def)
qed

lemma pre_cases:
  assumes "finite F" and "F \<noteq> {}"
  obtains "pre F x \<in> F" "pre F x < x" "\<And>a. a \<in> F \<Longrightarrow> a < x \<Longrightarrow> a \<le> pre F x"
  | "pre F x \<in> F" "\<And>a. a \<in> F \<Longrightarrow> x \<le> a" "\<And>a. a \<in> F \<Longrightarrow> a \<le> pre F x"
proof (cases "\<exists>a\<in>F. a < x")
  case True
  then have "finite {a \<in> F. a < x}" "{a \<in> F. a < x} \<noteq> {}"
    using assms by auto
  with True show ?thesis
    using that(1) Max_in [of "{a \<in> F. a < x}"] by (auto simp: pre_def)
next
  case False
  then have "pre F x = Max F" and "x \<le> a" if "a \<in> F" for a
    using that by (auto simp: pre_def not_less)
  then show ?thesis
    using that(2) assms by (metis Max_in Max_ge all_not_in_conv)
qed

text \<open>The search of \<^verbatim>\<open>free\<close> stops at the predecessor.\<close>

lemma pre_stops:
  assumes "finite F" and "p \<in> F" and "x \<notin> F"
  shows "(p < x \<and> x < nxt F p) \<or> (nxt F p \<le> p \<and> (p < x \<or> x < nxt F p)) \<longleftrightarrow> p = pre F x"
proof -
  have ne: "F \<noteq> {}" and px: "p \<noteq> x"
    using assms by auto
  show ?thesis
  proof (rule nxt_cases [OF assms(1) ne, of p]; rule pre_cases [OF assms(1) ne, of x])
    assume n: "nxt F p \<in> F" "p < nxt F p" "\<And>b. b \<in> F \<Longrightarrow> p < b \<Longrightarrow> nxt F p \<le> b"
      and q: "pre F x \<in> F" "pre F x < x" "\<And>a. a \<in> F \<Longrightarrow> a < x \<Longrightarrow> a \<le> pre F x"
    have "nxt F p \<noteq> x"
      using n(1) assms(3) by auto
    have a: "p = pre F x" if "p < x" "x < nxt F p"
      using that n(3) [OF q(1)] q(2) q(3) [OF assms(2) that(1)] by (cases "p < pre F x") auto
    have b: "x < nxt F p" if "p = pre F x"
      using that n(2) q(3) [OF n(1)] \<open>nxt F p \<noteq> x\<close> by (cases "nxt F p < x") auto
    show ?thesis
      using a b n(2) q(2) by (metis leD)
  next
    assume n: "nxt F p \<in> F" "p < nxt F p"
      and q: "\<And>a. a \<in> F \<Longrightarrow> x \<le> a" "\<And>a. a \<in> F \<Longrightarrow> a \<le> pre F x"
    show ?thesis
      using n(2) q(1) [OF assms(2)] q(2) [OF n(1)] by auto
  next
    assume n: "nxt F p \<in> F" "\<And>b. b \<in> F \<Longrightarrow> b \<le> p" "\<And>b. b \<in> F \<Longrightarrow> nxt F p \<le> b"
      and q: "pre F x \<in> F" "pre F x < x" "\<And>a. a \<in> F \<Longrightarrow> a < x \<Longrightarrow> a \<le> pre F x"
    have "p = pre F x" if "p < x"
      using n(2) [OF q(1)] q(3) [OF assms(2) that] by simp
    moreover have "\<not> x < nxt F p"
      using n(3) [OF q(1)] q(2) by order
    ultimately show ?thesis
      using n(2) [OF n(1)] q(2) by auto
  next
    assume n: "nxt F p \<in> F" "\<And>b. b \<in> F \<Longrightarrow> b \<le> p" "\<And>b. b \<in> F \<Longrightarrow> nxt F p \<le> b"
      and q: "pre F x \<in> F" "\<And>a. a \<in> F \<Longrightarrow> x \<le> a" "\<And>a. a \<in> F \<Longrightarrow> a \<le> pre F x"
    have "nxt F p \<noteq> x"
      using n(1) assms(3) by auto
    then have "x < nxt F p"
      using q(2) [OF n(1)] by auto
    moreover have "p = pre F x"
      using n(2) [OF q(1)] q(3) [OF assms(2)] by simp
    ultimately show ?thesis
      using n(2) [OF n(1)] by simp
  qed
qed

lemma pre_in: "finite F \<Longrightarrow> F \<noteq> {} \<Longrightarrow> pre F x \<in> F"
  by (rule pre_cases [of F x])

lemma nxt_insert:
  assumes "finite F" and "y \<in> F" and "x \<notin> F"
  shows "nxt (insert x F) y = (if y = pre F x then x else nxt F y)"
proof -
  have ne: "F \<noteq> {}" and xy: "x \<noteq> y" and fi: "finite (insert x F)"
    using assms by auto
  note st = pre_stops [OF assms]
  show ?thesis
  proof (rule nxt_cases [OF assms(1) ne, of y])
    assume n: "nxt F y \<in> F" "y < nxt F y" "\<And>b. b \<in> F \<Longrightarrow> y < b \<Longrightarrow> nxt F y \<le> b"
    have c: "(y = pre F x) \<longleftrightarrow> y < x \<and> x < nxt F y"
      using st n(2) by auto
    show ?thesis
    proof (cases "y < x \<and> x < nxt F y")
      case True
      then have "nxt (insert x F) y = x"
        using n(3) by (intro nxt_unique [OF fi]) (auto intro: less_imp_le less_le_trans)
      then show ?thesis
        using True c by simp
    next
      case False
      then have "nxt (insert x F) y = nxt F y"
        using n by (intro nxt_unique [OF fi]) auto
      then show ?thesis
        using False c by auto
    qed
  next
    assume n: "nxt F y \<in> F" "\<And>b. b \<in> F \<Longrightarrow> b \<le> y" "\<And>b. b \<in> F \<Longrightarrow> nxt F y \<le> b"
    have c: "(y = pre F x) \<longleftrightarrow> y < x \<or> x < nxt F y"
      using st n(2) [OF n(1)] by auto
    have nx: "nxt F y \<noteq> x"
      using n(1) assms(3) by auto
    consider "y < x" | "x < nxt F y" "x < y" | "nxt F y < x" "x < y"
      using xy nx n(2) [OF n(1)] by (meson linorder_neqE)
    then show ?thesis
    proof cases
      case 1
      have "c = x" if "c \<in> insert x F" "y < c" for c
        using that n(2) [of c] by auto
      then have "nxt (insert x F) y = x"
        using 1 by (intro nxt_unique [OF fi]) auto
      then show ?thesis
        using 1 c by simp
    next
      case 2
      then have "nxt (insert x F) y = x"
        using n by (intro nxt_wrap [OF fi]) (auto intro: less_imp_le less_le_trans)
      then show ?thesis
        using 2 c by simp
    next
      case 3
      then have "nxt (insert x F) y = nxt F y"
        using n by (intro nxt_wrap [OF fi]) auto
      then show ?thesis
        using 3 c by auto
    qed
  qed
qed

lemma nxt_insert_new:
  assumes "finite F" and "F \<noteq> {}" and "x \<notin> F"
  shows "nxt (insert x F) x = nxt F (pre F x)"
proof -
  let ?p = "pre F x"
  have fi: "finite (insert x F)"
    using assms by simp
  show ?thesis
  proof (rule pre_cases [OF assms(1,2), of x]; rule nxt_cases [OF assms(1,2), of ?p])
    assume q: "?p \<in> F" "?p < x" "\<And>a. a \<in> F \<Longrightarrow> a < x \<Longrightarrow> a \<le> ?p"
      and n: "nxt F ?p \<in> F" "?p < nxt F ?p" "\<And>b. b \<in> F \<Longrightarrow> ?p < b \<Longrightarrow> nxt F ?p \<le> b"
    have "nxt F ?p \<noteq> x"
      using n(1) assms(3) by auto
    then have "x < nxt F ?p"
      using q(3) [OF n(1)] n(2) by (metis leD linorder_neqE)
    moreover have "nxt F ?p \<le> c" if "c \<in> F" "x < c" for c
      using n(3) [OF that(1)] q(2) that(2) by (meson less_trans)
    ultimately show ?thesis
      using n(1) by (intro nxt_unique [OF fi]) auto
  next
    assume q: "?p \<in> F" "?p < x"
      and n: "nxt F ?p \<in> F" "\<And>b. b \<in> F \<Longrightarrow> b \<le> ?p" "\<And>b. b \<in> F \<Longrightarrow> nxt F ?p \<le> b"
    have "c \<le> x" if "c \<in> F" for c
      using n(2) [OF that] q(2) by (meson le_less_trans less_imp_le)
    moreover have "nxt F ?p \<le> x"
      using n(3) [OF q(1)] q(2) by (meson le_less_trans less_imp_le)
    ultimately show ?thesis
      using n by (intro nxt_wrap [OF fi]) auto
  next
    assume "\<And>a. a \<in> F \<Longrightarrow> a \<le> ?p" "nxt F ?p \<in> F" "?p < nxt F ?p"
    then show ?thesis
      by (meson leD)
  next
    assume q: "\<And>a. a \<in> F \<Longrightarrow> x \<le> a"
      and n: "nxt F ?p \<in> F" "\<And>b. b \<in> F \<Longrightarrow> nxt F ?p \<le> b"
    have "x < nxt F ?p"
      using q [OF n(1)] n(1) assms(3) by (metis order.order_iff_strict)
    then show ?thesis
      using n by (intro nxt_unique [OF fi]) auto
  qed
qed

lemma nxt_remove:
  assumes "finite F" and "r \<in> F" and "q \<in> F" and "r \<noteq> q" and "nxt F r = q" and "y \<in> F - {q}"
  shows "nxt (F - {q}) y = (if y = r then nxt F q else nxt F y)"
proof -
  let ?G = "F - {q}"
  have g: "finite ?G" "r \<in> ?G" "q \<notin> ?G" "insert q ?G = F" "?G \<noteq> {}"
    using assms by auto
  have i: "nxt F z = (if z = pre ?G q then q else nxt ?G z)" if "z \<in> ?G" for z
    using nxt_insert [OF g(1) that g(3)] g(4) by simp
  have "nxt ?G r \<noteq> q"
    using nxt_in [OF g(1,5), of r] by auto
  then have "r = pre ?G q"
    using i [OF g(2)] assms(5) by (auto split: if_splits)
  moreover have "nxt F q = nxt ?G (pre ?G q)"
    using nxt_insert_new [OF g(1,5,3)] g(4) by simp
  ultimately show ?thesis
    using i [OF assms(6)] by simp
qed

lemma nxt_self: "finite F \<Longrightarrow> a \<in> F \<Longrightarrow> nxt F a = a \<Longrightarrow> F = {a}"
  by (rule nxt_cases [of F a]) (auto intro: order.antisym)

end
