(* ===== verification/MallocProps.thy ===== *)
theory MallocProps
  imports Malloc Cyclic
begin

text \<open>
  Correctness of the allocator: the blocks that tile the memory of the heap, the invariant of the
  heap, and what \<^verbatim>\<open>malloc\<close>, \<^verbatim>\<open>free\<close> and \<^verbatim>\<open>morecore\<close> do to it. Where new memory comes from is an interface,
  which the frame allocator implements.
\<close>

section \<open>Blocks\<close>

text \<open>The bytes of a block whose header is at \<open>a\<close>, for the sizes \<open>sz\<close>, and blocks that tile the bytes \<open>H\<close>.\<close>

definition blk_end :: "(u32 \<Rightarrow> u32) \<Rightarrow> u32 \<Rightarrow> nat" where
  "blk_end sz a = unat a + 8 * unat (sz a)"

definition blk :: "(u32 \<Rightarrow> u32) \<Rightarrow> u32 \<Rightarrow> nat set" where
  "blk sz a = {unat a..<blk_end sz a}"

definition blocks :: "(u32 \<Rightarrow> u32) \<Rightarrow> u32 set \<Rightarrow> nat set \<Rightarrow> bool" where
  "blocks sz B H \<longleftrightarrow> finite B \<and>
     (\<forall>a\<in>B. a \<noteq> 0 \<and> unat a mod 8 = 0 \<and> sz a \<noteq> 0 \<and> blk_end sz a < 2 ^ 32) \<and>
     (\<forall>a\<in>B. \<forall>b\<in>B. a \<noteq> b \<longrightarrow> blk sz a \<inter> blk sz b = {}) \<and> H = (\<Union>a\<in>B. blk sz a)"

lemma blocksD:
  assumes "blocks sz B H" and "a \<in> B"
  shows "a \<noteq> 0" "unat a mod 8 = 0" "0 < unat (sz a)" "unat a < blk_end sz a" "blk_end sz a < 2 ^ 32" "blk sz a \<subseteq> H"
    "unat a \<in> blk sz a"
  using assms by (auto simp: blocks_def blk_end_def blk_def word_unat_eq_iff)

lemma blocks_apart: "blocks sz B H \<Longrightarrow> a \<in> B \<Longrightarrow> b \<in> B \<Longrightarrow> a \<noteq> b \<Longrightarrow> blk sz a \<inter> blk sz b = {}"
  by (simp add: blocks_def)

lemma blocks_order:
  assumes "blocks sz B H" and "a \<in> B" and "b \<in> B" and "a < b"
  shows "blk_end sz a \<le> unat b"
proof (rule ccontr)
  assume "\<not> ?thesis"
  then have "unat b \<in> blk sz a"
    using assms(4) by (simp add: blk_def word_less_nat_alt)
  then show False
    using blocks_apart [OF assms(1-3)] blocksD(7) [OF assms(1,3)] assms(4) by auto
qed

lemma blk_cong: "sz a = sz' a \<Longrightarrow> blk sz a = blk sz' a"
  by (simp add: blk_def blk_end_def)

lemma blocks_cong: "(\<And>a. a \<in> B \<Longrightarrow> sz a = sz' a) \<Longrightarrow> blocks sz B H \<longleftrightarrow> blocks sz' B H"
  unfolding blocks_def using blk_cong [of sz _ sz'] by (simp add: blk_end_def cong: ball_cong)

lemma blocks_merge:
  assumes "blocks sz B H" and "a \<in> B" and "b \<in> B" and "blk_end sz a = unat b"
  shows "blocks (sz(a := sz a + sz b)) (B - {b}) H" "blk_end (sz(a := sz a + sz b)) a = blk_end sz b"
proof -
  let ?sz = "sz(a := sz a + sz b)"
  note A = blocksD [OF assms(1,2)] and B = blocksD [OF assms(1,3)]
  have ab: "a \<noteq> b"
    using A(4) assms(4) by auto
  have "unat a + 8 * (unat (sz a) + unat (sz b)) = blk_end sz b"
    using assms(4) by (simp add: blk_end_def)
  then have "unat (sz a + sz b) = unat (sz a) + unat (sz b)"
    using B(5) by (subst unat_add_lem [symmetric]) simp
  then show e: "blk_end ?sz a = blk_end sz b"
    using assms(4) by (simp add: blk_end_def)
  have k: "blk ?sz a = blk sz a \<union> blk sz b"
    using e A(4) B(4) assms(4) by (auto simp: blk_def)
  have o: "blk ?sz c = blk sz c" if "c \<noteq> a" for c
    using that by (intro blk_cong) simp
  have "blk ?sz c \<inter> blk ?sz d = {}" if "c \<in> B - {b}" "d \<in> B - {b}" "c \<noteq> d" for c d
    using that blocks_apart [OF assms(1)] assms(2,3) o k ab by (cases "c = a"; cases "d = a") (auto simp: Int_Un_distrib Int_Un_distrib2)
  moreover have "H = (\<Union>c\<in>B - {b}. blk ?sz c)"
  proof -
    have eq: "B - {b} = insert a (B - {a, b})"
      using assms(2) ab by auto
    have "(\<Union>c\<in>B - {b}. blk ?sz c) = blk ?sz a \<union> (\<Union>c\<in>B - {a, b}. blk sz c)"
      unfolding eq by (simp add: o del: fun_upd_apply)
    also have "\<dots> = (\<Union>c\<in>B. blk sz c)"
      using assms(2,3) k by auto
    finally show ?thesis
      using assms(1) by (simp add: blocks_def)
  qed
  moreover have "c \<noteq> 0 \<and> unat c mod 8 = 0 \<and> ?sz c \<noteq> 0 \<and> blk_end ?sz c < 2 ^ 32" if "c \<in> B - {b}" for c
  proof (cases "c = a")
    case True
    moreover have "sz a + sz b \<noteq> 0"
      using A(3) \<open>unat (sz a + sz b) = _\<close> by (auto simp: word_unat_eq_iff)
    ultimately show ?thesis
      using A(1,2) B(5) e by (simp del: fun_upd_apply) simp
  next
    case False
    then show ?thesis
      using that assms(1) by (simp add: blocks_def blk_end_def)
  qed
  ultimately show "blocks ?sz (B - {b}) H"
    using assms(1) unfolding blocks_def by (intro conjI ballI impI) simp_all
qed

lemma blocks_insert:
  assumes "blocks sz B H" and "c \<noteq> 0" and "unat c mod 8 = 0" and "sz c \<noteq> 0" and "blk_end sz c < 2 ^ 32" and "blk sz c \<inter> H = {}"
  shows "blocks sz (insert c B) (blk sz c \<union> H)"
proof -
  have c: "blk sz c \<inter> blk sz a = {}" if "a \<in> B" for a
    using blocksD(6) [OF assms(1) that] assms(6) by auto
  have "blk sz a \<inter> blk sz b = {}" if "a \<in> insert c B" "b \<in> insert c B" "a \<noteq> b" for a b
    using that blocks_apart [OF assms(1), of a b] c [of a] c [of b] by (auto simp: Int_commute)
  moreover have "H = (\<Union>a\<in>B. blk sz a)"
    using assms(1) by (simp add: blocks_def)
  ultimately show ?thesis
    using assms(1-5) unfolding blocks_def by (intro conjI ballI impI) auto
qed

text \<open>Taking the last \<open>n\<close> units off a block.\<close>

lemma blocks_split:
  assumes "blocks sz B H" and "q \<in> B" and "n < sz q" and "n \<noteq> 0"
  defines "p \<equiv> q + 8 * (sz q - n)"
  shows "blocks (sz(q := sz q - n, p := n)) (insert p B) H" "p \<notin> B" "unat p = unat q + 8 * (unat (sz q) - unat n)"
    "blk_end (sz(q := sz q - n, p := n)) p = blk_end sz q" "blk_end (sz(q := sz q - n, p := n)) q = unat p" "q < p"
proof -
  let ?sz = "sz(q := sz q - n, p := n)"
  note Q = blocksD [OF assms(1,2)]
  have n: "unat n < unat (sz q)" "0 < unat n"
    using assms(3,4) by (auto simp: word_less_nat_alt word_unat_eq_iff)
  define k where "k = sz q - n"
  have u: "unat k = unat (sz q) - unat n"
    unfolding k_def using assms(3) by (simp add: unat_sub less_imp_le)
  have "unat q + 8 * unat k < 2 ^ 32"
    using Q(5) n u by (simp add: blk_end_def)
  then have "unat (q + 8 * k) = unat q + 8 * unat k"
    by (simp add: unat_word_ariths)
  then show p: "unat p = unat q + 8 * (unat (sz q) - unat n)"
    by (simp only: p_def k_def [symmetric] u)
  then show qp: "q < p"
    using n by (simp add: word_less_nat_alt)
  then have "p \<noteq> q"
    by simp
  then show ep: "blk_end ?sz p = blk_end sz q"
    using p n by (simp add: blk_end_def)
  show eq: "blk_end ?sz q = unat p"
    using p \<open>p \<noteq> q\<close> u by (simp add: blk_end_def k_def)
  have "unat p \<in> blk sz q" "p \<noteq> q"
    using p n qp by (auto simp: blk_def blk_end_def)
  then show pB: "p \<notin> B"
    using blocks_apart [OF assms(1) _ assms(2), of p] blocksD(7) [OF assms(1), of p] by auto
  have k: "blk ?sz q \<union> blk ?sz p = blk sz q" "blk ?sz q \<inter> blk ?sz p = {}"
    using ep eq p n by (auto simp: blk_def blk_end_def)
  have o: "blk ?sz c = blk sz c" if "c \<noteq> q" "c \<noteq> p" for c
    using that by (intro blk_cong) simp
  have "blk ?sz c \<inter> blk ?sz d = {}" if "c \<in> insert p B" "d \<in> insert p B" "c \<noteq> d" for c d
  proof -
    have 1: "blk ?sz x \<inter> blk ?sz c = {}" if "x \<in> {p, q}" "c \<in> B - {p, q}" for x c
      using that k(1) o [of c] blocks_apart [OF assms(1,2), of c] by auto
    have 2: "blk ?sz c \<inter> blk ?sz d = {}" if "c \<in> B - {p, q}" "d \<in> B - {p, q}" "c \<noteq> d" for c d
      using that o [of c] o [of d] blocks_apart [OF assms(1), of c d] by auto
    have "c \<in> {p, q} \<or> c \<in> B - {p, q}" "d \<in> {p, q} \<or> d \<in> B - {p, q}"
      using that by auto
    then show ?thesis
      using 1 [of c d] 1 [of d c] 2 [of c d] k(2) that(3) by (auto simp: Int_commute simp del: fun_upd_apply)
  qed
  moreover have "(\<Union>c\<in>insert p B. blk ?sz c) = H"
  proof -
    have "insert p B = insert p (insert q (B - {q, p}))"
      using assms(2) by auto
    then have "(\<Union>c\<in>insert p B. blk ?sz c) = blk ?sz p \<union> (blk ?sz q \<union> (\<Union>c\<in>B - {q, p}. blk sz c))"
      by (simp add: o del: fun_upd_apply)
    also have "\<dots> = blk sz q \<union> (\<Union>c\<in>B - {q}. blk sz c)"
      using k(1) pB by auto
    also have "\<dots> = H"
      using assms(1,2) by (auto simp: blocks_def)
    finally show ?thesis .
  qed
  moreover have "c \<noteq> 0 \<and> unat c mod 8 = 0 \<and> ?sz c \<noteq> 0 \<and> blk_end ?sz c < 2 ^ 32" if c: "c \<in> insert p B" for c
  proof -
    have f: "p \<noteq> 0 \<and> unat p mod 8 = 0" "sz q - n \<noteq> 0" "blk_end ?sz q < 2 ^ 32"
      using qp p Q(2) u n eq unat_bound [of p] by (auto simp: word_less_nat_alt word_unat_eq_iff k_def)
    consider "c = p" | "c = q" "c \<noteq> p" | "c \<in> B" "c \<noteq> p" "c \<noteq> q"
      using c by auto
    then show ?thesis
    proof cases
      case 3
      then show ?thesis
        using assms(1) by (simp add: blocks_def blk_end_def)
    qed (use f Q(1,2,5) ep assms(4) in simp_all)
  qed
  ultimately show "blocks ?sz (insert p B) H"
    using assms(1) unfolding blocks_def by (intro conjI ballI impI) simp_all
qed

section \<open>Headers in memory\<close>

lemma word_plus_4: "unat a mod 8 = 0 \<Longrightarrow> unat (a + 4 :: u32) = unat a + 4"
proof -
  assume a: "unat a mod 8 = 0"
  have "unat a < 4294967296"
    by (rule order.strict_trans2 [OF unat_bound]) simp
  with a have "unat a + 4 < 4294967296"
    by presburger
  then show ?thesis
    by (simp add: unat_word_ariths)
qed

lemma aligned_plus_4:
  fixes a b :: u32
  assumes "unat a mod 8 = 0" and "unat b mod 8 = 0"
  shows "a + 4 \<noteq> b"
proof
  assume "a + 4 = b"
  then have "unat b = unat a + 4"
    using word_plus_4 [OF assms(1)] by simp
  then show False
    using assms by presburger
qed

lemma hdr_updates:
  "hdr_ptr b (set_ptr a v s) = (if b = a then v else hdr_ptr b s)"
  "hdr_size b (set_size a v s) = (if b = a then v else hdr_size b s)"
  "unat a mod 8 = 0 \<Longrightarrow> unat b mod 8 = 0 \<Longrightarrow> hdr_ptr b (set_size a v s) = hdr_ptr b s"
  "unat a mod 8 = 0 \<Longrightarrow> unat b mod 8 = 0 \<Longrightarrow> hdr_size b (set_ptr a v s) = hdr_size b s"
  using aligned_plus_4 [of a b] aligned_plus_4 [of b a]
  by (auto simp: hdr_ptr_def hdr_size_def set_ptr_def set_size_def)

lemma hdr_freep [simp]:
  "hdr_ptr a (s\<lparr>freep := f\<rparr>) = hdr_ptr a s" "hdr_size a (s\<lparr>freep := f\<rparr>) = hdr_size a s"
  by (simp_all add: hdr_ptr_def hdr_size_def)

text \<open>The state after writes to the bytes \<open>X\<close> and to \<^verbatim>\<open>freep\<close>.\<close>

definition wrote_in :: "nat set \<Rightarrow> 'z malloc_st_scheme \<Rightarrow> 'z malloc_st_scheme \<Rightarrow> bool" where
  "wrote_in X s s' \<longleftrightarrow> (\<exists>m f. s' = s\<lparr>mem := m, freep := f\<rparr> \<and> (\<forall>x. unat x \<notin> X \<longrightarrow> m x = mem s x))"

lemma wrote_in_refl: "wrote_in X s s"
  unfolding wrote_in_def by (intro exI [of _ "mem s"] exI [of _ "freep s"]) simp

lemma wrote_in_ptr:
  assumes "wrote_in X s s'" and "unat a \<in> X"
  shows "wrote_in X s (set_ptr a v s')"
proof -
  obtain m f where "s' = s\<lparr>mem := m, freep := f\<rparr>" "\<forall>x. unat x \<notin> X \<longrightarrow> m x = mem s x"
    using assms(1) by (auto simp: wrote_in_def)
  then show ?thesis
    using assms(2) unfolding wrote_in_def by (intro exI [of _ "m(a := v)"] exI [of _ f]) (auto simp: set_ptr_def)
qed

lemma wrote_in_size:
  assumes "wrote_in X s s'" and "unat (a + 4) \<in> X"
  shows "wrote_in X s (set_size a v s')"
  using wrote_in_ptr [OF assms] by (simp add: set_ptr_def set_size_def)

lemma wrote_in_freep:
  assumes "wrote_in X s s'"
  shows "wrote_in X s (s'\<lparr>freep := f\<rparr>)"
proof -
  obtain m g where "s' = s\<lparr>mem := m, freep := g\<rparr>" "\<forall>x. unat x \<notin> X \<longrightarrow> m x = mem s x"
    using assms by (auto simp: wrote_in_def)
  then show ?thesis
    unfolding wrote_in_def by (intro exI [of _ m] exI [of _ f]) simp
qed

lemma wrote_in_trans: "wrote_in X s s' \<Longrightarrow> wrote_in Y s' s'' \<Longrightarrow> wrote_in (X \<union> Y) s s''"
  unfolding wrote_in_def by force

lemma wrote_in_mono: "wrote_in X s s' \<Longrightarrow> X \<subseteq> Y \<Longrightarrow> wrote_in Y s s'"
  unfolding wrote_in_def by blast

section \<open>The invariant\<close>

text \<open>The static block is outside of the heap and does not follow it immediately.\<close>

definition base_hdr :: "u32 \<Rightarrow> nat set" where
  "base_hdr b = {unat b..<unat b + 8}"

definition base_ok :: "u32 \<Rightarrow> nat set \<Rightarrow> bool" where
  "base_ok b H \<longleftrightarrow> b \<noteq> 0 \<and> unat b mod 8 = 0 \<and> base_hdr b \<inter> H = {} \<and> unat b - 1 \<notin> H"

text \<open>
  \<open>heap_inv s F U H\<close>: the blocks of \<open>F\<close> are free, on the circular list in address order with the static
  block, those of \<open>U\<close> are in use, together they tile the bytes \<open>H\<close>, and no two free blocks are adjacent.
\<close>

definition heap_inv :: "'z malloc_st_scheme \<Rightarrow> u32 set \<Rightarrow> u32 set \<Rightarrow> nat set \<Rightarrow> bool" where
  "heap_inv s F U H \<longleftrightarrow> finite F \<and> mbase s \<in> F \<and> freep s \<in> F \<and> hdr_size (mbase s) s = 0 \<and>
     (\<forall>a\<in>F. hdr_ptr a s = nxt F a) \<and> mbase s \<notin> U \<and> F \<inter> U = {} \<and>
     blocks (\<lambda>a. hdr_size a s) (F - {mbase s} \<union> U) H \<and> base_ok (mbase s) H \<and>
     (\<forall>a\<in>F - {mbase s}. \<forall>b\<in>F - {mbase s}. blk_end (\<lambda>a. hdr_size a s) a \<noteq> unat b)"

lemma heap_invD:
  assumes "heap_inv s F U H"
  shows "finite F" "mbase s \<in> F" "freep s \<in> F" "hdr_size (mbase s) s = 0" "\<And>a. a \<in> F \<Longrightarrow> hdr_ptr a s = nxt F a"
    "mbase s \<notin> U" "F \<inter> U = {}" "blocks (\<lambda>a. hdr_size a s) (F - {mbase s} \<union> U) H" "base_ok (mbase s) H"
    "\<And>a b. a \<in> F - {mbase s} \<Longrightarrow> b \<in> F - {mbase s} \<Longrightarrow> blk_end (\<lambda>a. hdr_size a s) a \<noteq> unat b" "F \<noteq> {}"
    "\<And>a. a \<in> F \<union> U \<Longrightarrow> unat a mod 8 = 0" "\<And>a. a \<in> F \<union> U \<Longrightarrow> a \<noteq> 0"
proof -
  show "unat a mod 8 = 0" "a \<noteq> 0" if "a \<in> F \<union> U" for a
    using assms that unfolding heap_inv_def blocks_def base_ok_def by (cases "a = mbase s"; simp)+
qed (use assms in \<open>auto simp: heap_inv_def\<close>)

abbreviation sizes :: "'z frames_st_scheme \<Rightarrow> u32 \<Rightarrow> u32" where
  "sizes s \<equiv> \<lambda>a. hdr_size a s"

definition free_space :: "'z malloc_st_scheme \<Rightarrow> u32 set \<Rightarrow> nat set" where
  "free_space s F = base_hdr (mbase s) \<union> (\<Union>a\<in>F - {mbase s}. blk (sizes s) a)"

lemma hdr_in_blk:
  assumes "blocks sz B H" and "a \<in> B"
  shows "unat a \<in> blk sz a" "unat (a + 4) \<in> blk sz a"
  using blocksD [OF assms] word_plus_4 [of a] by (auto simp: blk_def blk_end_def)

lemma free_space_hdr:
  assumes "heap_inv s F U H" and "a \<in> F"
  shows "unat a \<in> free_space s F" "unat (a + 4) \<in> free_space s F"
proof -
  have "unat a \<in> free_space s F \<and> unat (a + 4) \<in> free_space s F"
  proof (cases "a = mbase s")
    case True
    then show ?thesis
      using word_plus_4 [OF heap_invD(12) [OF assms(1)], of a] assms(2) by (auto simp: free_space_def base_hdr_def)
  next
    case False
    then show ?thesis
      using hdr_in_blk [OF heap_invD(8) [OF assms(1)], of a] assms(2) by (auto simp: free_space_def)
  qed
  then show "unat a \<in> free_space s F" "unat (a + 4) \<in> free_space s F"
    by simp_all
qed

lemma used_not_free_space:
  assumes "heap_inv s F U H" and "a \<in> U"
  shows "blk (sizes s) a \<inter> free_space s F = {}"
proof -
  note i = heap_invD [OF assms(1)]
  have "blk (sizes s) a \<subseteq> H"
    using blocksD(6) [OF i(8), of a] assms(2) by simp
  moreover have "blk (sizes s) a \<inter> blk (sizes s) b = {}" if "b \<in> F - {mbase s}" for b
    using blocks_apart [OF i(8), of a b] that assms(2) i(7) by auto
  ultimately show ?thesis
    using i(9) by (auto simp: free_space_def base_ok_def)
qed

text \<open>The end of a block as an address.\<close>

lemma hdr_plus_end:
  assumes "blocks sz B H" and "a \<in> B"
  shows "unat (hdr_plus a (sz a)) = blk_end sz a"
  using blocksD(5) [OF assms] by (simp add: hdr_plus_def blk_end_def unat_word_ariths)

lemma free_search_spec:
  assumes "finite F" and "\<And>a. a \<in> F \<Longrightarrow> hdr_ptr a s = nxt F a" and "p \<in> F" and "bp \<notin> F"
  shows "free_search bp p s = Some (pre F bp)"
proof (rule cycle_induct [OF assms(1,3), of "pre F bp"])
  show t: "pre F bp \<in> F"
    using pre_in assms(1,3) by blast
  show "free_search bp (pre F bp) s = Some (pre F bp)"
    using pre_stops [OF assms(1) t assms(4)] assms(2) [OF t] by (subst free_search.simps) auto
next
  fix x
  assume x: "x \<in> F" "x \<noteq> pre F bp" "free_search bp (nxt F x) s = Some (pre F bp)"
  then show "free_search bp x s = Some (pre F bp)"
    using pre_stops [OF assms(1) x(1) assms(4)] assms(2) [OF x(1)] by (subst free_search.simps) auto
qed

text \<open>A free block next to a block in use is its neighbour on the list.\<close>

lemma between_not_free:
  assumes "heap_inv s F U H" and "a \<in> F - {mbase s} \<union> U" and "b \<in> F" and "a < b"
  shows "blk_end (sizes s) a \<le> unat b"
proof (cases "b = mbase s")
  case True
  have "blk (sizes s) a \<subseteq> H" "base_hdr b \<inter> H = {}" "unat b \<in> base_hdr b"
    using heap_invD(8,9) [OF assms(1)] blocksD(6) [OF _ assms(2)] True by (auto simp: base_ok_def base_hdr_def)
  then have "unat b \<notin> blk (sizes s) a"
    by auto
  then show ?thesis
    using assms(4) by (simp add: blk_def word_less_nat_alt)
next
  case False
  then show ?thesis
    using blocks_order [OF heap_invD(8) [OF assms(1)] assms(2) _ assms(4)] assms(3) by simp
qed

lemma adjacent_nxt:
  assumes "heap_inv s F U H" and "bp \<in> U" and "b \<in> F" and "blk_end (sizes s) bp = unat b"
  shows "nxt F (pre F bp) = b"
proof -
  note i = heap_invD [OF assms(1)]
  have "bp \<notin> F"
    using i(7) assms(2) by auto
  moreover have "bp < b"
    using blocksD(4) [OF i(8), of bp] assms(2,4) by (simp add: word_less_nat_alt)
  moreover have "b \<le> c" if "c \<in> F" "bp < c" for c
    using between_not_free [OF assms(1) _ that] assms(2,4) by (simp add: word_le_nat_alt)
  ultimately have "nxt (insert bp F) bp = b"
    using assms(3) i(1) by (intro nxt_unique) auto
  then show ?thesis
    using nxt_insert_new [OF i(1) i(11) \<open>bp \<notin> F\<close>] by simp
qed

lemma adjacent_pre:
  assumes "heap_inv s F U H" and "bp \<in> U" and "a \<in> F - {mbase s}" and "blk_end (sizes s) a = unat bp"
  shows "pre F bp = a"
proof (rule pre_cases [of F bp])
  note i = heap_invD [OF assms(1)]
  show "finite F" "F \<noteq> {}"
    by (rule i)+
  have lt: "a < bp"
    using blocksD(4) [OF i(8), of a] assms(3,4) by (simp add: word_less_nat_alt)
  {
    assume p: "pre F bp \<in> F" "pre F bp < bp" "\<And>a. a \<in> F \<Longrightarrow> a < bp \<Longrightarrow> a \<le> pre F bp"
    have "\<not> a < pre F bp"
      using between_not_free [OF assms(1) _ p(1), of a] p(2) assms(3,4) by (auto simp: word_less_nat_alt)
    then show ?thesis
      using p(3) [of a] lt assms(3) by simp
  next
    assume "\<And>a. a \<in> F \<Longrightarrow> bp \<le> a"
    then show ?thesis
      using lt assms(3) by (meson DiffD1 leD)
  }
qed

section \<open>Freeing\<close>

text \<open>
  \<open>join_state s bp t n up low\<close>: what freeing the block \<open>bp\<close> between the free blocks \<open>t\<close> and \<open>n\<close> makes of
  pointers and sizes, where \<open>up\<close> and \<open>low\<close> say which of them \<open>bp\<close> touches.
\<close>

definition joined_ptr :: "'z frames_st_scheme \<Rightarrow> u32 \<Rightarrow> u32 \<Rightarrow> u32 \<Rightarrow> bool \<Rightarrow> bool \<Rightarrow> u32 \<Rightarrow> u32" where
  "joined_ptr s bp t n up low = (let bn = (if up then hdr_ptr n s else n)
     in (\<lambda>a. hdr_ptr a s)(bp := bn, t := if low then bn else bp))"

definition joined_size :: "'z frames_st_scheme \<Rightarrow> u32 \<Rightarrow> u32 \<Rightarrow> u32 \<Rightarrow> bool \<Rightarrow> bool \<Rightarrow> u32 \<Rightarrow> u32" where
  "joined_size s bp t n up low = (let sz = (\<lambda>a. hdr_size a s); sz = (if up then sz(bp := sz bp + sz n) else sz)
     in if low then sz(t := sz t + sz bp) else sz)"

lemma join_spec:
  fixes s :: "'z malloc_st_scheme"
  assumes "unat bp mod 8 = 0" and "unat t mod 8 = 0" and "unat n mod 8 = 0" and "bp \<noteq> t" and "bp \<noteq> n" and "hdr_ptr t s = n"
    and up: "up \<longleftrightarrow> hdr_plus bp (hdr_size bp s) = n" and low: "low \<longleftrightarrow> hdr_plus t (hdr_size t s) = bp"
  defines "s' \<equiv> (join_lower bp t (join_upper bp t s))\<lparr>freep := t\<rparr>"
  shows "\<And>a. unat a mod 8 = 0 \<Longrightarrow> hdr_ptr a s' = joined_ptr s bp t n up low a"
    "\<And>a. unat a mod 8 = 0 \<Longrightarrow> hdr_size a s' = joined_size s bp t n up low a"
    "wrote_in {unat bp, unat (bp + 4), unat t, unat (t + 4)} s s'" "freep s' = t"
proof -
  let ?s1 = "join_upper bp t s"
  note upd = hdr_updates
  have p1: "hdr_ptr a ?s1 = (if a = bp then (if up then hdr_ptr n s else n) else hdr_ptr a s)"
    and z1: "hdr_size a ?s1 = (if a = bp \<and> up then hdr_size bp s + hdr_size n s else hdr_size a s)"
    if "unat a mod 8 = 0" for a
    using that assms(1-6) up by (simp_all add: join_upper_def Let_def upd)
  show "hdr_ptr a s' = joined_ptr s bp t n up low a" "hdr_size a s' = joined_size s bp t n up low a"
    if "unat a mod 8 = 0" for a
    using that assms(1-6) p1 z1 up low unfolding s'_def
    by (simp_all add: join_lower_def Let_def upd joined_ptr_def joined_size_def)
  let ?X = "{unat bp, unat (bp + 4), unat t, unat (t + 4)}"
  have "wrote_in ?X s ?s1"
    by (auto simp: join_upper_def Let_def intro!: wrote_in_ptr wrote_in_size wrote_in_refl)
  then show "wrote_in ?X s s'"
    unfolding s'_def by (auto simp: join_lower_def Let_def intro!: wrote_in_freep wrote_in_ptr wrote_in_size)
  show "freep s' = t"
    by (simp add: s'_def)
qed

lemma joined_ring:
  assumes "heap_inv s F U H" and "bp \<in> U" and t: "t = pre F bp" and n: "n = nxt F t" and nt: "up \<Longrightarrow> n \<noteq> t"
  defines "G \<equiv> if up then F - {n} else F"
  shows "\<forall>a\<in>(if low then G else insert bp G). joined_ptr s bp t n up low a = nxt (if low then G else insert bp G) a"
proof -
  note i = heap_invD [OF assms(1)]
  have "bp \<notin> F" "t \<in> F" "n \<in> F"
    using i(7) assms(2) pre_in [OF i(1,11)] nxt_in [OF i(1,11)] t n by auto
  then have bp: "bp \<notin> F" "t \<in> F" "n \<in> F" "bp \<noteq> t" "bp \<noteq> n"
    by auto
  have rem: "nxt (F - {n}) a = (if a = t then nxt F n else nxt F a)" if "a \<in> F - {n}" up for a
    using nxt_remove [OF i(1) bp(2,3) nt [OF that(2), symmetric] n [symmetric] that(1)] .
  have ins: "nxt (insert bp F) a = (if a = t then bp else nxt F a)" if "a \<in> F" for a
    using nxt_insert [OF i(1) that bp(1)] t by simp
  have new: "nxt (insert bp F) bp = n"
    using nxt_insert_new [OF i(1,11) bp(1)] t n by simp
  have both: "nxt (insert bp (F - {n})) a = (if a = bp then nxt F n else if a = t then bp else nxt F a)"
    if "a \<in> insert bp (F - {n})" up for a
  proof -
    have "insert bp (F - {n}) = insert bp F - {n}"
      using bp(5) by auto
    moreover have "nxt (insert bp F - {n}) a = (if a = bp then nxt (insert bp F) n else nxt (insert bp F) a)"
      using nxt_remove [of "insert bp F" bp n a] i(1) bp new that by auto
    moreover have "nxt (insert bp F) n = nxt F n"
      using ins [OF bp(3)] nt [OF that(2)] by simp
    moreover have "nxt (insert bp F) a = (if a = t then bp else nxt F a)" if "a \<noteq> bp"
      using ins [of a] that \<open>a \<in> insert bp (F - {n})\<close> by simp
    ultimately show ?thesis
      by simp
  qed
  have p: "hdr_ptr a s = nxt F a" if "a \<in> F" for a
    using i(5) that .
  show ?thesis
  proof (rule ballI)
    fix a
    assume a: "a \<in> (if low then G else insert bp G)"
    show "joined_ptr s bp t n up low a = nxt (if low then G else insert bp G) a"
      using a bp(4) p [of a] p [OF bp(3)] rem [of a] ins [of a] both [of a] new n bp(1)
      by (cases up; cases low; cases "a = bp"; cases "a = t") (simp_all add: G_def joined_ptr_def Let_def)
  qed
qed

lemma joined_blocks:
  assumes "heap_inv s F U H" and "bp \<in> U" and t: "t = pre F bp" and n: "n = nxt F t"
    and up: "up \<longleftrightarrow> blk_end (sizes s) bp = unat n" and low: "low \<longleftrightarrow> t \<noteq> mbase s \<and> blk_end (sizes s) t = unat bp"
    and nb: "up \<Longrightarrow> n \<noteq> mbase s \<and> n \<noteq> t"
  defines "G \<equiv> if up then F - {n} else F" and "sz \<equiv> joined_size s bp t n up low"
  defines "F' \<equiv> if low then G else insert bp G" and "q \<equiv> if low then t else bp"
  shows "blocks sz (F' - {mbase s} \<union> (U - {bp})) H" "blk_end sz q = blk_end (sizes s) (if up then n else bp)"
    "\<And>a. a \<in> F - {n, bp, t} \<union> (U - {bp}) \<Longrightarrow> sz a = hdr_size a s" "\<not> up \<Longrightarrow> n \<noteq> t \<Longrightarrow> n \<noteq> bp \<Longrightarrow> sz n = hdr_size n s"
    "\<not> low \<Longrightarrow> sz t = hdr_size t s" "sz (mbase s) = 0"
proof -
  note i = heap_invD [OF assms(1)]
  let ?b = "mbase s" and ?sz = "sizes s" and ?B = "F - {mbase s} \<union> U"
  have "bp \<notin> F" "t \<in> F" "n \<in> F"
    using i(7) assms(2) pre_in [OF i(1,11)] nxt_in [OF i(1,11)] t n by auto
  then have bp: "bp \<notin> F" "t \<in> F" "n \<in> F" "bp \<noteq> t" "bp \<noteq> n" "bp \<noteq> ?b" "t \<notin> U" "n \<notin> U" "bp \<in> ?B"
    using i(2,7) assms(2) by auto
  define sz1 where "sz1 = (if up then ?sz(bp := ?sz bp + ?sz n) else ?sz)"
  define B1 where "B1 = (if up then ?B - {n} else ?B)"
  have b1: "blocks sz1 B1 H" "blk_end sz1 bp = blk_end ?sz (if up then n else bp)"
    using blocks_merge [OF i(8) bp(9), of n] nb bp i(8) up by (auto simp: sz1_def B1_def simp del: fun_upd_apply)
  have et: "blk_end sz1 t = blk_end ?sz t"
    using bp(4) by (simp add: blk_end_def sz1_def)
  have "t \<in> B1" "bp \<in> B1" if low
    using that low bp nb by (auto simp: B1_def)
  then have b2: "blocks (sz1(t := sz1 t + sz1 bp)) (B1 - {bp}) H" "blk_end (sz1(t := sz1 t + sz1 bp)) t = blk_end sz1 bp" if low
    using blocks_merge [OF b1(1), of t bp] that low et by simp_all
  have sz: "sz = (if low then sz1(t := sz1 t + sz1 bp) else sz1)"
    by (simp add: sz_def joined_size_def Let_def sz1_def)
  have "F' - {?b} \<union> (U - {bp}) = (if low then B1 - {bp} else B1)"
    using bp assms(2) nb low by (auto simp: F'_def G_def B1_def)
  then show "blocks sz (F' - {?b} \<union> (U - {bp})) H"
    using b1(1) b2(1) by (cases low) (simp_all add: sz del: fun_upd_apply)
  show "blk_end sz q = blk_end ?sz (if up then n else bp)"
    using b1(2) b2(2) by (cases low) (simp_all add: sz q_def del: fun_upd_apply)
  show "sz a = hdr_size a s" if "a \<in> F - {n, bp, t} \<union> (U - {bp})" for a
    using that bp by (auto simp: sz sz1_def)
  show "sz n = hdr_size n s" if "\<not> up" "n \<noteq> t" "n \<noteq> bp"
    using that by (simp add: sz sz1_def)
  show "sz t = hdr_size t s" if "\<not> low"
    using that bp by (simp add: sz sz1_def)
  show "sz ?b = 0"
    using i(4) bp low by (auto simp: sz sz1_def)
qed

lemma free_spec:
  assumes "heap_inv s F U H" and "bp \<in> U"
  shows "\<exists>F' s'. free (bp + 8) s = Some s' \<and> heap_inv s' F' (U - {bp}) H \<and> wrote_in (free_space s F \<union> blk (sizes s) bp) s s' \<and>
    (\<exists>q\<in>F' - {mbase s}. hdr_size bp s \<le> hdr_size q s')"
proof -
  note i = heap_invD [OF assms(1)]
  let ?b = "mbase s" and ?sz = "sizes s" and ?B = "F - {mbase s} \<union> U"
  define t where "t = pre F bp"
  define n where "n = nxt F t"
  have "bp \<notin> F" "t \<in> F" "n \<in> F"
    using i(7) assms(2) pre_in [OF i(1,11)] nxt_in [OF i(1,11)] by (auto simp: t_def n_def)
  then have bp: "bp \<notin> F" "t \<in> F" "n \<in> F" "bp \<noteq> t" "bp \<noteq> n" "bp \<in> ?B" "bp \<noteq> ?b"
    using assms(2) i(2) by auto
  have al: "unat bp mod 8 = 0" "unat t mod 8 = 0" "unat n mod 8 = 0"
    using i(12) bp assms(2) by auto
  define up where "up \<longleftrightarrow> hdr_plus bp (hdr_size bp s) = n"
  define low where "low \<longleftrightarrow> hdr_plus t (hdr_size t s) = bp"
  have up: "up \<longleftrightarrow> blk_end ?sz bp = unat n"
    using hdr_plus_end [OF i(8) bp(6)] by (auto simp: up_def word_unat_eq_iff)
  have low: "low \<longleftrightarrow> t \<noteq> ?b \<and> blk_end ?sz t = unat bp"
  proof (cases "t = ?b")
    case True
    then show ?thesis
      using i(4) bp(4) by (simp add: low_def hdr_plus_def)
  next
    case False
    then show ?thesis
      using hdr_plus_end [OF i(8), of t] bp(2) by (auto simp: low_def word_unat_eq_iff)
  qed
  have nb: "n \<noteq> ?b \<and> n \<noteq> t" if up
  proof -
    have "n \<noteq> ?b"
    proof
      assume "n = ?b"
      then have "unat ?b - 1 \<in> blk ?sz bp"
        using that up blocksD(4) [OF i(8) bp(6)] by (auto simp: blk_def)
      then show False
        using blocksD(6) [OF i(8) bp(6)] i(9) by (auto simp: base_ok_def)
    qed
    moreover have "n \<noteq> t" if "n \<noteq> ?b"
      using nxt_self [OF i(1) bp(2)] that i(2) by (auto simp: n_def)
    ultimately show ?thesis
      by simp
  qed
  let ?G = "if up then F - {n} else F"
  let ?F = "if low then ?G else insert bp ?G"
  define s' where "s' = (join_lower bp t (join_upper bp t s))\<lparr>freep := t\<rparr>"
  note j = join_spec [OF al bp(4,5) _ up_def low_def, folded s'_def]
  have tn: "hdr_ptr t s = n"
    using i(5) [OF bp(2)] by (simp add: n_def)
  note js = j [OF tn]
  note jb = joined_blocks [OF assms t_def n_def up low nb]
  let ?z = "joined_size s bp t n up low"
  have al': "unat a mod 8 = 0" if "a \<in> ?F \<union> U" for a
    using that i(12) assms(2) by (auto split: if_splits)
  have z: "hdr_size a s' = ?z a" if "a \<in> ?F \<union> U" for a
    using js(2) al' [OF that] .
  have "bp + 8 \<noteq> 0"
    using blocksD(4,5) [OF i(8) bp(6)] blocksD(3) [OF i(8) bp(6)] by (auto simp: blk_end_def word_unat_eq_iff unat_word_ariths)
  moreover have "malloc_start s = s"
    using i(3,13) by (auto simp: malloc_start_def)
  moreover have "free_search bp (freep s) s = Some t"
    unfolding t_def by (rule free_search_spec [OF i(1,5,3) bp(1)])
  ultimately have run: "free (bp + 8) s = Some s'"
    by (simp add: free_def s'_def)
  have b': "mbase s' = ?b"
    using js(3) by (auto simp: wrote_in_def)
  have q: "blk_end ?z (if low then t else bp) = blk_end ?sz (if up then n else bp)"
    by (rule jb(2))
  have "blk_end (sizes s') a \<noteq> unat b" if ab: "a \<in> ?F - {?b}" "b \<in> ?F - {?b}" for a b
  proof
    assume e: "blk_end (sizes s') a = unat b"
    have "blk_end (sizes s') a = blk_end ?z a"
      using z [of a] ab(1) by (simp add: blk_end_def)
    then have e: "blk_end ?z a = unat b"
      using e by simp
    have b: "b \<in> F - {?b} \<or> b = bp \<and> \<not> low"
      using ab(2) by (auto split: if_splits)
    show False
    proof (cases "a = (if low then t else bp)")
      case True
      then have e: "blk_end ?sz (if up then n else bp) = unat b"
        using e q by simp
      show False
      proof (cases up)
        case True
        then have "unat bp < unat n" "unat n < blk_end ?sz n"
          using up nb blocksD(4) [OF i(8), of n] blocksD(4) [OF i(8) bp(6)] bp(3) by auto
        then show False
          using e True b i(10) [of n b] nb bp by auto
      next
        case False
        then show False
          using e b adjacent_nxt [OF assms, of b] blocksD(4) [OF i(8) bp(6)] up by (auto simp: n_def t_def)
      qed
    next
      case False
      then have a: "a \<in> F - {?b}" "a \<noteq> n \<or> \<not> up" "a \<noteq> t \<or> \<not> low" "a \<noteq> bp"
        using ab(1) bp(1) by (auto split: if_splits)
      have "?z a = hdr_size a s"
        using jb(3) [of a] jb(4) jb(5) a bp by (cases "a = n"; cases "a = t") auto
      then have "blk_end ?sz a = unat b"
        using e by (simp add: blk_end_def)
      then show False
        using b i(10) [OF a(1)] adjacent_pre [OF assms a(1)] low a by (auto simp: t_def)
    qed
  qed
  moreover have "blocks (sizes s') (?F - {?b} \<union> (U - {bp})) H"
    using jb(1) z by (subst blocks_cong [of _ _ ?z]) auto
  moreover have "\<forall>a\<in>?F. hdr_ptr a s' = nxt ?F a"
    using joined_ring [OF assms t_def n_def, of up low] nb js(1) al' by auto
  moreover have "hdr_size ?b s' = 0"
    using jb(6) js(2) [of ?b] i(2,12) by auto
  moreover have "finite ?F" "?b \<in> ?F" "t \<in> ?F" "?F \<inter> (U - {bp}) = {}" "?b \<notin> U - {bp}"
    using i(1,2,6,7) bp nb by (auto split: if_splits)
  ultimately have inv: "heap_inv s' ?F (U - {bp}) H"
    using i(9) js(4) b' unfolding heap_inv_def by simp
  have w: "wrote_in (free_space s F \<union> blk (sizes s) bp) s s'"
    using free_space_hdr [OF assms(1) bp(2)] hdr_in_blk [OF i(8) bp(6)] by (intro wrote_in_mono [OF js(3)]) auto
  let ?q = "if low then t else bp"
  have "?q \<in> ?F - {?b}"
    using low bp nb by auto
  moreover have "hdr_size bp s \<le> hdr_size ?q s'"
  proof -
    have "blk_end ?sz bp \<le> blk_end ?z ?q"
      using q up blocksD(4) [OF i(8), of n] nb bp by auto
    moreover have "unat ?q \<le> unat bp"
      using low blocksD(4) [OF i(8), of t] bp by auto
    moreover have "hdr_size ?q s' = ?z ?q"
      using z [of ?q] \<open>?q \<in> ?F - {?b}\<close> by blast
    ultimately show ?thesis
      by (simp add: blk_end_def word_le_nat_alt)
  qed
  ultimately show ?thesis
    using run inv w by blast
qed

section \<open>Allocating from the free list\<close>

lemma hdr_plus_1 [simp]: "hdr_plus p 1 = p + 8"
  by (simp add: hdr_plus_def)

lemma malloc_take_spec:
  assumes "heap_inv s F U H" and "r \<in> F" and "q \<in> F" and "nxt F r = q" and "n \<le> hdr_size q s" and "n \<noteq> 0"
  shows "\<exists>p F' s'. malloc_take n r q s = (p + 8, s') \<and> p \<notin> U \<and> heap_inv s' F' (insert p U) H \<and> hdr_size p s' = n \<and>
    wrote_in (free_space s F) s s'"
proof -
  note i = heap_invD [OF assms(1)]
  let ?b = "mbase s"
  have qb: "q \<noteq> ?b"
    using i(4) assms(5,6) by auto
  have rq: "r \<noteq> q"
    using nxt_self [OF i(1) assms(3)] assms(4) i(2) qb by auto
  have B: "q \<in> F - {?b} \<union> U"
    using assms(3) qb by simp
  have al: "unat a mod 8 = 0" if "a \<in> F \<union> U" for a
    using i(12) that .
  show ?thesis
  proof (cases "hdr_size q s = n")
    case True
    define s' where "s' = (set_ptr r (hdr_ptr q s) s)\<lparr>freep := r\<rparr>"
    have z: "hdr_size a s' = hdr_size a s" if "a \<in> F \<union> U" for a
      using al [OF that] al [of r] assms(2) by (simp add: s'_def hdr_updates)
    have p: "hdr_ptr a s' = nxt (F - {q}) a" if "a \<in> F - {q}" for a
      using nxt_remove [OF i(1) assms(2,3) rq assms(4) that] i(5) that assms(3) by (simp add: s'_def hdr_updates)
    have m: "mbase s' = ?b" "freep s' = r"
      by (simp_all add: s'_def set_ptr_def)
    have e: "F - {q} - {?b} \<union> insert q U = F - {?b} \<union> U"
      using assms(3) qb by auto
    have "blocks (sizes s') (F - {?b} \<union> U) H"
      using i(8) z by (subst blocks_cong [of _ _ "sizes s"]) auto
    moreover have "blk_end (sizes s') a \<noteq> unat c" if "a \<in> F - {q} - {?b}" "c \<in> F - {q} - {?b}" for a c
      using that i(10) [of a c] z [of a] by (simp add: blk_end_def)
    ultimately have "heap_inv s' (F - {q}) (insert q U) H"
      unfolding heap_inv_def using i p z m e assms(2,3) rq qb by auto
    moreover have "wrote_in (free_space s F) s s'"
      unfolding s'_def using free_space_hdr [OF assms(1,2)] by (intro wrote_in_freep wrote_in_ptr wrote_in_refl)
    ultimately show ?thesis
      using True z [of q] assms(3) i(7)
      by (intro exI [of _ q] exI [of _ "F - {q}"] exI [of _ s']) (auto simp: malloc_take_def s'_def)
  next
    case False
    then have n: "n < hdr_size q s"
      using assms(5) by simp
    define p where "p = q + 8 * (hdr_size q s - n)"
    note sp = blocks_split [OF i(8) B n assms(6), folded p_def]
    define s' where "s' = (set_size p n (set_size q (hdr_size q s - n) s))\<lparr>freep := r\<rparr>"
    have pq: "p \<noteq> q"
      using sp(6) by auto
    have "unat p \<in> H"
      using blocksD(6,7) [OF sp(1), of p] by blast
    then have pb: "p \<noteq> ?b"
      using i(9) by (auto simp: base_ok_def base_hdr_def disjoint_iff)
    have pF: "p \<notin> F" "p \<notin> U"
      using sp(2) pb by auto
    have alp: "unat p mod 8 = 0" "unat q mod 8 = 0"
      using blocksD(2) [OF sp(1), of p] al [of q] assms(3) by auto
    have z: "hdr_size a s' = ((sizes s)(q := hdr_size q s - n, p := n)) a" for a
      by (simp add: s'_def hdr_updates)
    have ptr: "hdr_ptr a s' = hdr_ptr a s" if "a \<in> F \<union> U" for a
      using al [OF that] alp by (simp add: s'_def hdr_updates)
    have m: "mbase s' = ?b" "freep s' = r"
      by (simp_all add: s'_def set_size_def)
    have e: "F - {?b} \<union> insert p U = insert p (F - {?b} \<union> U)"
      by auto
    have "blk_end (sizes s') a \<noteq> unat c" if "a \<in> F - {?b}" "c \<in> F - {?b}" for a c
    proof (cases "a = q")
      case True
      then have "blk_end (sizes s') a = unat p"
        using sp(5) pq z [of q] by (simp add: blk_end_def)
      then show ?thesis
        using pF(1) that(2) by (metis DiffD1 word_unat_eq_iff)
    next
      case False
      moreover have "a \<noteq> p"
        using pF that(1) by auto
      ultimately have "blk_end (sizes s') a = blk_end (sizes s) a"
        using z [of a] by (simp add: blk_end_def)
      then show ?thesis
        using i(10) [OF that] by simp
    qed
    moreover have "blocks (sizes s') (F - {?b} \<union> insert p U) H"
      unfolding e using sp(1) by (subst blocks_cong [OF z])
    moreover have "hdr_size ?b s' = 0"
      using z [of ?b] i(4) pb qb by simp
    ultimately have "heap_inv s' F (insert p U) H"
      unfolding heap_inv_def using i(1,2,5-7,9) ptr m pF assms(2) pb by auto
    moreover have "wrote_in (free_space s F) s s'"
    proof -
      have "unat (p + 4) \<in> blk (sizes s) q"
        using hdr_in_blk(2) [OF sp(1), of p] sp(4,6) by (auto simp: blk_def word_less_nat_alt)
      then have "unat (p + 4) \<in> free_space s F"
        using assms(3) qb by (auto simp: free_space_def)
      then show ?thesis
        unfolding s'_def using free_space_hdr [OF assms(1,3)] by (intro wrote_in_freep wrote_in_size wrote_in_refl)
    qed
    moreover have "malloc_take n r q s = (p + 8, s')"
      using False by (simp add: malloc_take_def Let_def s'_def p_def hdr_updates hdr_plus_def)
    ultimately show ?thesis
      using z [of p] pF by auto
  qed
qed

definition loop_result :: "(u32 \<Rightarrow> 'z malloc_st_scheme \<Rightarrow> (u32 \<times> 'z malloc_st_scheme) option) \<Rightarrow> u32 \<Rightarrow> u32 set \<Rightarrow>
    'z malloc_st_scheme \<Rightarrow> u32 \<Rightarrow> u32 \<Rightarrow> bool" where
  "loop_result mc n F s p r \<longleftrightarrow>
     (if \<exists>x\<in>arc F p (freep s). n \<le> hdr_size x s
      then \<exists>r'\<in>F. nxt F r' \<in> F \<and> n \<le> hdr_size (nxt F r') s \<and> malloc_loop mc n r p s = Some (malloc_take n r' (nxt F r') s)
      else malloc_loop mc n r p s = do {
        (p, s) \<leftarrow> mc n s;
        if p = 0 then Some (0, s\<lparr>errno := ENOMEM\<rparr>) else malloc_loop mc n p (hdr_ptr p s) s })"

lemma malloc_loop_walk:
  assumes "heap_inv s F U H" and "p \<in> F"
  shows "\<forall>r\<in>F. nxt F r = p \<longrightarrow> loop_result mc n F s p r"
proof (rule cycle_induct [of F p "freep s"])
  note i = heap_invD [OF assms(1)]
  show "finite F" "p \<in> F" "freep s \<in> F"
    using i assms(2) by auto
  show "\<forall>r\<in>F. nxt F r = freep s \<longrightarrow> loop_result mc n F s (freep s) r"
    using i(3) arc_self [OF i(3)] by (auto simp: loop_result_def malloc_loop.simps [of mc n _ "freep s" s]) metis
  fix x
  assume x: "x \<in> F" "x \<noteq> freep s" and IH: "\<forall>r\<in>F. nxt F r = nxt F x \<longrightarrow> loop_result mc n F s (nxt F x) r"
  have l: "malloc_loop mc n r x s = (if n \<le> hdr_size x s then Some (malloc_take n r x s) else malloc_loop mc n x (nxt F x) s)" for r
    using x(2) i(5) [OF x(1)] by (subst malloc_loop.simps) simp
  show "\<forall>r\<in>F. nxt F r = x \<longrightarrow> loop_result mc n F s x r"
  proof (cases "n \<le> hdr_size x s")
    case True
    then show ?thesis
      using x(1) arc_step [OF i(1) x(1) i(3) x(2)] l by (auto simp: loop_result_def)
  next
    case False
    then show ?thesis
      using bspec [OF IH x(1)] arc_step [OF i(1) x(1) i(3) x(2)] by (simp add: loop_result_def l)
  qed
qed

text \<open>The walk starts behind \<^verbatim>\<open>freep\<close> and comes by every free block.\<close>

lemma malloc_loop_found:
  assumes "heap_inv s F U H" and "q \<in> F" and "n \<le> hdr_size q s" and "n \<noteq> 0"
  shows "\<exists>p F' s'. malloc_loop mc n (freep s) (hdr_ptr (freep s) s) s = Some (p + 8, s') \<and> p \<notin> U \<and>
    heap_inv s' F' (insert p U) H \<and> hdr_size p s' = n \<and> wrote_in (free_space s F) s s'"
proof -
  note i = heap_invD [OF assms(1)]
  have "loop_result mc n F s (nxt F (freep s)) (freep s)"
    using malloc_loop_walk [OF assms(1) nxt_in [OF i(1,11)]] i(3) by blast
  then obtain r where "r \<in> F" "nxt F r \<in> F" "n \<le> hdr_size (nxt F r) s"
      "malloc_loop mc n (freep s) (nxt F (freep s)) s = Some (malloc_take n r (nxt F r) s)"
    using assms(2,3) arc_full [OF i(1,3)] by (auto simp: loop_result_def split: if_splits)
  then show ?thesis
    using malloc_take_spec [OF assms(1), of r "nxt F r" n] assms(4) i(5) [OF i(3)] by auto
qed

lemma malloc_loop_none:
  assumes "heap_inv s F U H" and "\<forall>q\<in>F. hdr_size q s < n"
  shows "malloc_loop mc n (freep s) (hdr_ptr (freep s) s) s = do {
    (p, s) \<leftarrow> mc n s;
    if p = 0 then Some (0, s\<lparr>errno := ENOMEM\<rparr>) else malloc_loop mc n p (hdr_ptr p s) s }"
proof -
  note i = heap_invD [OF assms(1)]
  have "loop_result mc n F s (nxt F (freep s)) (freep s)"
    using malloc_loop_walk [OF assms(1) nxt_in [OF i(1,11)]] i(3) by blast
  moreover have "\<not> (\<exists>x\<in>arc F (nxt F (freep s)) (freep s). n \<le> hdr_size x s)"
    using assms(2) arc_full [OF i(1,3)] by (auto simp: not_le)
  ultimately show ?thesis
    using i(5) [OF i(3)] by (simp add: loop_result_def)
qed

section \<open>More memory\<close>

text \<open>Adding the memory \<open>[cp, cp + nb)\<close> to the heap.\<close>

lemma add_core_spec:
  assumes inv: "heap_inv s F U H" and "cp \<noteq> 0" and "unat cp mod 8 = 0" and "unat nb mod 8 = 0" and "nb \<noteq> 0"
    and lim: "unat cp + unat nb < 2 ^ 32" and dis: "{unat cp..<unat cp + unat nb} \<inter> H = {}"
    and base: "base_ok (mbase s) ({unat cp..<unat cp + unat nb} \<union> H)"
  shows "\<exists>F' s'. add_core cp nb s = Some (freep s', s') \<and> heap_inv s' F' U ({unat cp..<unat cp + unat nb} \<union> H) \<and>
    wrote_in (free_space s F \<union> {unat cp..<unat cp + unat nb}) s s' \<and> (\<exists>q\<in>F'. nb div 8 \<le> hdr_size q s')"
proof -
  note i = heap_invD [OF inv]
  let ?R = "{unat cp..<unat cp + unat nb}" and ?b = "mbase s"
  define s1 where "s1 = set_size cp (nb div 8) s"
  have n8: "8 * unat (nb div 8) = unat nb"
    using assms(4) by (simp add: unat_div mult.commute dvd_mult_div_cancel mod_eq_0_iff_dvd)
  have nz: "nb div 8 \<noteq> 0"
    using n8 assms(5) by (auto simp: word_unat_eq_iff)
  have "0 < unat nb"
    using assms(5) by (simp add: unat_gt_0)
  then have cpR: "unat cp \<in> ?R"
    by simp
  have cb: "cp \<noteq> ?b"
    using base cpR by (auto simp: base_ok_def base_hdr_def disjoint_iff)
  have cB: "cp \<notin> F - {?b} \<union> U"
  proof
    assume "cp \<in> F - {?b} \<union> U"
    then have "unat cp \<in> H"
      using blocksD(6,7) [OF i(8)] by blast
    then show False
      using dis cpR by blast
  qed
  have z: "hdr_size a s1 = (if a = cp then nb div 8 else hdr_size a s)" for a
    by (simp add: s1_def hdr_updates)
  have p: "hdr_ptr a s1 = hdr_ptr a s" if "a \<in> F" for a
    using i(12) [of a] that assms(3) by (simp add: s1_def hdr_updates)
  have m: "mbase s1 = ?b" "freep s1 = freep s"
    by (simp_all add: s1_def set_size_def)
  have R: "blk (sizes s1) cp = ?R"
    using n8 by (simp add: blk_def blk_end_def z)
  have "blocks (sizes s1) (F - {?b} \<union> U) H"
    using i(8) cB by (subst blocks_cong [of _ _ "sizes s"]) (auto simp: z)
  from blocks_insert [OF this assms(2,3), unfolded R, OF _ _ dis]
  have "blocks (sizes s1) (insert cp (F - {?b} \<union> U)) (?R \<union> H)"
    using nz n8 lim by (simp add: z blk_end_def)
  moreover have "F - {?b} \<union> insert cp U = insert cp (F - {?b} \<union> U)"
    by auto
  moreover have "blk_end (sizes s1) a = blk_end (sizes s) a" if "a \<in> F - {?b}" for a
    using that cB by (auto simp: blk_end_def z)
  ultimately have inv1: "heap_inv s1 F (insert cp U) (?R \<union> H)"
    using i(1-7,10) base cb cB p m by (auto simp: heap_inv_def z)
  obtain F' s' where f: "free (cp + 8) s1 = Some s'" "heap_inv s' F' (insert cp U - {cp}) (?R \<union> H)"
      "wrote_in (free_space s1 F \<union> blk (sizes s1) cp) s1 s'" "\<exists>q\<in>F' - {mbase s1}. hdr_size cp s1 \<le> hdr_size q s'"
    using free_spec [OF inv1, of cp] by auto
  have u: "insert cp U - {cp} = U"
    using cB by auto
  have w1: "wrote_in ?R s s1"
    using hdr_in_blk [OF heap_invD(8) [OF inv1], of cp] R unfolding s1_def by (intro wrote_in_size wrote_in_refl) simp
  have "blk (sizes s1) a = blk (sizes s) a" if "a \<in> F - {?b}" for a
    using that cB by (auto simp: blk_def blk_end_def z)
  then have "free_space s1 F = free_space s F"
    by (simp add: free_space_def m)
  then have "wrote_in (free_space s F \<union> ?R) s1 s'"
    using f(3) R by simp
  from wrote_in_trans [OF w1 this] have "wrote_in (free_space s F \<union> ?R) s s'"
    by (rule wrote_in_mono) auto
  then show ?thesis
    using f u by (intro exI [of _ F'] exI [of _ s']) (auto simp: add_core_def s1_def [symmetric] z)
qed

section \<open>The allocator over a supply of memory\<close>

text \<open>Before the first call there is no list; afterwards the invariant holds.\<close>

definition heap_ok :: "'z malloc_st_scheme \<Rightarrow> u32 set \<Rightarrow> nat set \<Rightarrow> bool" where
  "heap_ok s U H \<longleftrightarrow> freep s = 0 \<and> U = {} \<and> H = {} \<or> (\<exists>F. heap_inv s F U H)"

lemma malloc_start_spec:
  assumes "heap_ok s U H" and "base_ok (mbase s) H"
  shows "\<exists>F. heap_inv (malloc_start s) F U H \<and> wrote_in (base_hdr (mbase s)) s (malloc_start s)"
proof (cases "freep s = 0")
  case True
  let ?b = "mbase s"
  have b: "?b \<noteq> 0" "unat ?b mod 8 = 0"
    using assms(2) by (auto simp: base_ok_def)
  have UH: "U = {}" "H = {}"
    using assms(1) True heap_invD(3,13) [of s _ U H] by (auto simp: heap_ok_def)
  have "nxt {?b} ?b = ?b"
    by (simp add: nxt_def)
  then have "heap_inv (malloc_start s) {?b} U H"
    using True b assms(2) UH by (simp add: heap_inv_def malloc_start_def hdr_updates blocks_def) (simp add: set_ptr_def set_size_def)
  moreover have "wrote_in (base_hdr ?b) s (malloc_start s)"
    using True word_plus_4 [OF b(2)] unfolding malloc_start_def
    by (auto simp: base_hdr_def intro!: wrote_in_size wrote_in_ptr wrote_in_freep wrote_in_refl)
  ultimately show ?thesis
    by blast
next
  case False
  then show ?thesis
    using assms(1) wrote_in_refl by (auto simp: heap_ok_def malloc_start_def)
qed

lemma mc_round_up_page:
  assumes "unat a + 4095 < 2 ^ 32"
  shows "unat (mc_round_up a NALLOC) = (unat a + 4095) div 4096 * 4096"
proof -
  have "unat (a + 4095) = unat a + 4095"
    using assms by (simp add: unat_word_ariths)
  moreover have "mc_round_up a NALLOC = (a + 4095) AND 0xFFFFF000"
    by (simp add: mc_round_up_def not_offset flip: not_offset)
  ultimately show ?thesis
    using unat_page [of "a + 4095"] by (simp add: minus_mod_eq_div_mult)
qed

text \<open>The contents of the blocks in use stay as they are.\<close>

definition same_data :: "u32 set \<Rightarrow> 'z frames_st_scheme \<Rightarrow> 'z frames_st_scheme \<Rightarrow> bool" where
  "same_data U s s' \<longleftrightarrow> (\<forall>a\<in>U. \<forall>x. unat x \<in> blk (sizes s) a \<longrightarrow> mem s' x = mem s x)"

lemma same_data_size:
  assumes "same_data U s s'" and "heap_inv s F U' H" and "U \<subseteq> U'" and "a \<in> U"
  shows "hdr_size a s' = hdr_size a s" "blk (sizes s') a = blk (sizes s) a"
proof -
  have "unat (a + 4) \<in> blk (sizes s) a"
    using hdr_in_blk(2) [OF heap_invD(8) [OF assms(2)], of a] assms(3,4) by auto
  then show "hdr_size a s' = hdr_size a s"
    using assms(1,4) by (auto simp: same_data_def hdr_size_def)
  then show "blk (sizes s') a = blk (sizes s) a"
    by (simp add: blk_def blk_end_def)
qed

lemma same_data_trans:
  assumes "same_data U s s'" and "same_data U s' s''" and "heap_inv s F U' H" and "U \<subseteq> U'"
  shows "same_data U s s''"
  using assms same_data_size(2) [OF assms(1,3,4)] by (simp add: same_data_def)

lemma wrote_same_data:
  assumes "heap_inv s F U H" and "wrote_in (free_space s F \<union> X) s s'" and "V \<subseteq> U" and "\<And>a. a \<in> V \<Longrightarrow> blk (sizes s) a \<inter> X = {}"
  shows "same_data V s s'"
proof -
  have "unat x \<notin> free_space s F \<union> X" if "a \<in> V" "unat x \<in> blk (sizes s) a" for a x
    using used_not_free_space [OF assms(1), of a] assms(3,4) that by blast
  then show ?thesis
    using assms(2) unfolding same_data_def wrote_in_def by fastforce
qed

text \<open>Requests of a client that frees only what it holds: pointers with the sizes that were asked for.\<close>

datatype heap_req = ReqMalloc u32 | ReqFree u32

fun run_heap :: "(u32 \<Rightarrow> 'z malloc_st_scheme \<Rightarrow> (u32 \<times> 'z malloc_st_scheme) option) \<Rightarrow> heap_req list \<Rightarrow> (u32 \<times> u32) list \<Rightarrow>
    'z malloc_st_scheme \<Rightarrow> ((u32 \<times> u32) list \<times> 'z malloc_st_scheme) option" where
  "run_heap mc [] L s = Some (L, s)"
| "run_heap mc (ReqMalloc n # rs) L s = do {
     (p, s) \<leftarrow> malloc mc n s;
     run_heap mc rs (if p = 0 then L else (p, n) # L) s }"
| "run_heap mc (ReqFree p # rs) L s =
     (if p \<in> fst ` set L then do { s \<leftarrow> free p s; run_heap mc rs (filter (\<lambda>x. fst x \<noteq> p) L) s }
      else run_heap mc rs L s)"

text \<open>The memory of a client and the blocks behind it.\<close>

definition client_mem :: "u32 \<times> u32 \<Rightarrow> nat set" where
  "client_mem x = {unat (fst x)..<unat (fst x) + unat (snd x)}"

definition client_blocks :: "(u32 \<times> u32) list \<Rightarrow> u32 set" where
  "client_blocks L = (\<lambda>x. fst x - 8) ` set L"

definition clients_ok :: "'z malloc_st_scheme \<Rightarrow> (u32 \<times> u32) list \<Rightarrow> nat set \<Rightarrow> bool" where
  "clients_ok s L H \<longleftrightarrow> heap_ok s (client_blocks L) H \<and> distinct (map fst L) \<and>
     (\<forall>x\<in>set L. snd x \<noteq> 0 \<and> unat (snd x) \<le> 8 * (unat (hdr_size (fst x - 8) s) - 1))"

lemma client_mem_in_block:
  assumes "blocks sz B H" and "h \<in> B" and "unat n \<le> 8 * (unat (sz h) - 1)"
  shows "client_mem (h + 8, n) \<subseteq> blk sz h" "h + 8 \<noteq> 0"
proof -
  have e: "unat h + 8 * unat (sz h) < 2 ^ 32" "0 < unat (sz h)"
    using blocksD(3,5) [OF assms(1,2)] by (auto simp: blk_end_def)
  then have "unat (h + 8) = unat h + 8"
    by (simp add: unat_word_ariths)
  then show "client_mem (h + 8, n) \<subseteq> blk sz h" "h + 8 \<noteq> 0"
    using assms(3) e by (auto simp: client_mem_def blk_def blk_end_def word_unat_eq_iff)
qed

lemma clients_ok_apart:
  assumes "clients_ok s L H"
  shows "\<forall>x\<in>set L. client_mem x \<subseteq> H" "\<forall>x\<in>set L. \<forall>y\<in>set L. x \<noteq> y \<longrightarrow> client_mem x \<inter> client_mem y = {}"
proof -
  have "client_mem x \<subseteq> blk (sizes s) (fst x - 8)" "fst x - 8 \<in> client_blocks L" if "x \<in> set L" "heap_inv s F (client_blocks L) H" for x F
  proof -
    show u: "fst x - 8 \<in> client_blocks L"
      using that(1) by (simp add: client_blocks_def)
    have "client_mem (fst x - 8 + 8, snd x) \<subseteq> blk (sizes s) (fst x - 8)"
      using client_mem_in_block [OF heap_invD(8) [OF that(2)], of "fst x - 8" "snd x"] u assms that(1) by (simp add: clients_ok_def)
    then show "client_mem x \<subseteq> blk (sizes s) (fst x - 8)"
      by simp
  qed
  note c = this
  show "\<forall>x\<in>set L. client_mem x \<subseteq> H"
  proof
    fix x
    assume x: "x \<in> set L"
    then obtain F where F: "heap_inv s F (client_blocks L) H"
      using assms by (auto simp: clients_ok_def heap_ok_def client_blocks_def)
    show "client_mem x \<subseteq> H"
      using c [OF x F] blocksD(6) [OF heap_invD(8) [OF F], of "fst x - 8"] by auto
  qed
  show "\<forall>x\<in>set L. \<forall>y\<in>set L. x \<noteq> y \<longrightarrow> client_mem x \<inter> client_mem y = {}"
  proof (intro ballI impI)
    fix x y
    assume x: "x \<in> set L" "y \<in> set L" "x \<noteq> y"
    then obtain F where F: "heap_inv s F (client_blocks L) H"
      using assms by (auto simp: clients_ok_def heap_ok_def client_blocks_def)
    have "fst x \<noteq> fst y"
      using assms x by (auto simp: clients_ok_def distinct_map inj_on_def)
    then have "blk (sizes s) (fst x - 8) \<inter> blk (sizes s) (fst y - 8) = {}"
      using blocks_apart [OF heap_invD(8) [OF F], of "fst x - 8" "fst y - 8"] c(2) [OF x(1) F] c(2) [OF x(2) F] by auto
    then show "client_mem x \<inter> client_mem y = {}"
      using c(1) [OF x(1) F] c(1) [OF x(2) F] by blast
  qed
qed

locale core_supply =
  fixes getmem :: "u32 \<Rightarrow> 'z malloc_st_scheme \<Rightarrow> u32 \<times> 'z malloc_st_scheme"
    and held :: "'z malloc_st_scheme \<Rightarrow> nat set \<Rightarrow> bool"
    and fits :: "u32 \<Rightarrow> bool"
  assumes held_base: "held s H \<Longrightarrow> base_ok (mbase s) H"
    and held_wrote: "held s H \<Longrightarrow> wrote_in (base_hdr (mbase s) \<union> H) s s' \<Longrightarrow> held s' H"
    and held_errno: "held s H \<Longrightarrow> held (s\<lparr>errno := e\<rparr>) H"
    and getmem_fails: "held s H \<Longrightarrow> getmem nb s = (0, s') \<Longrightarrow> s' = s"
    and getmem_new: "held s H \<Longrightarrow> fits nb \<Longrightarrow> getmem nb s = (cp, s') \<Longrightarrow> cp \<noteq> 0 \<Longrightarrow>
      unat cp mod 8 = 0 \<and> unat cp + unat nb < 2 ^ 32 \<and> {unat cp..<unat cp + unat nb} \<inter> H = {} \<and>
      held s' ({unat cp..<unat cp + unat nb} \<union> H) \<and> freep s' = freep s \<and> mbase s' = mbase s \<and>
      mem s' = mem s"
begin

definition morecore :: "u32 \<Rightarrow> 'z malloc_st_scheme \<Rightarrow> (u32 \<times> 'z malloc_st_scheme) option" where
  "morecore nu s = (let nb = mc_round_up (nu * SIZEOF_HEADER) NALLOC; (cp, s) = getmem nb s
     in if cp = 0 then Some (0, s) else add_core cp nb s)"

text \<open>Sizes the supply can serve.\<close>

definition servable :: "u32 \<Rightarrow> bool" where
  "servable nu \<longleftrightarrow> nu \<noteq> 0 \<and> 8 * unat nu + 4095 < 2 ^ 32 \<and> fits (mc_round_up (nu * SIZEOF_HEADER) NALLOC)"

lemma supply_wrote:
  assumes "held s H" and "heap_inv s F U H" and "wrote_in (free_space s F) s s'"
  shows "held s' H"
proof (rule held_wrote [OF assms(1) wrote_in_mono [OF assms(3)]])
  show "free_space s F \<subseteq> base_hdr (mbase s) \<union> H"
    using blocksD(6) [OF heap_invD(8) [OF assms(2)]] by (auto simp: free_space_def)
qed

lemma morecore_law:
  assumes "held s H" and "heap_inv s F U H" and "servable nu"
  shows "morecore nu s = Some (0, s) \<or>
    (\<exists>s' F' H'. morecore nu s = Some (freep s', s') \<and> freep s' \<noteq> 0 \<and> held s' H' \<and> heap_inv s' F' U H' \<and> H \<subseteq> H' \<and>
      (\<exists>q\<in>F'. nu \<le> hdr_size q s') \<and> same_data U s s')"
proof -
  let ?nb = "mc_round_up (nu * SIZEOF_HEADER) NALLOC"
  have nu: "nu \<noteq> 0" "8 * unat nu + 4095 < 2 ^ 32" "fits ?nb"
    using assms(3) by (auto simp: servable_def)
  have "unat (nu * 8) = 8 * unat nu"
    using nu(2) by (simp add: unat_word_ariths)
  then have nb: "unat ?nb = (8 * unat nu + 4095) div 4096 * 4096"
    using mc_round_up_page [of "nu * 8"] nu(2) by simp
  have "0 < unat nu"
    using nu(1) by (simp add: unat_gt_0)
  then have nb': "unat ?nb mod 8 = 0" "8 * unat nu \<le> unat ?nb" "?nb \<noteq> 0"
    using nb by (auto simp: word_unat_eq_iff)
  obtain cp s1 where g: "getmem ?nb s = (cp, s1)"
    by fastforce
  show ?thesis
  proof (cases "cp = 0")
    case True
    then show ?thesis
      using g getmem_fails [OF assms(1)] by (simp add: morecore_def)
  next
    case False
    let ?R = "{unat cp..<unat cp + unat ?nb}"
    note n = getmem_new [OF assms(1) nu(3) g False]
    have m: "mem s1 = mem s" "freep s1 = freep s" "mbase s1 = mbase s"
      using n by auto
    have sz: "hdr_size a s1 = hdr_size a s" "hdr_ptr a s1 = hdr_ptr a s" for a
      using m by (simp_all add: hdr_size_def hdr_ptr_def)
    have inv1: "heap_inv s1 F U H"
      using assms(2) m sz by (simp add: heap_inv_def)
    obtain F' s' where a: "add_core cp ?nb s1 = Some (freep s', s')" "heap_inv s' F' U (?R \<union> H)"
        "wrote_in (free_space s1 F \<union> ?R) s1 s'" "\<exists>q\<in>F'. ?nb div 8 \<le> hdr_size q s'"
      using add_core_spec [OF inv1 False, of ?nb] n nb' held_base [of s1 "?R \<union> H"] by auto
    have "nu \<le> ?nb div 8"
      using nb'(2) by (simp add: word_le_nat_alt unat_div)
    then have "\<exists>q\<in>F'. nu \<le> hdr_size q s'"
      using a(4) by (meson order.trans)
    moreover have "held s' (?R \<union> H)"
    proof (rule held_wrote [OF _ wrote_in_mono [OF a(3)]])
      show "free_space s1 F \<union> ?R \<subseteq> base_hdr (mbase s1) \<union> (?R \<union> H)"
        using blocksD(6) [OF heap_invD(8) [OF inv1]] by (auto simp: free_space_def)
    qed (use n in simp)
    moreover have "freep s' \<noteq> 0"
      using heap_invD(3,13) [OF a(2)] by auto
    moreover have "blk (sizes s1) c \<inter> ?R = {}" if "c \<in> U" for c
      using blocksD(6) [OF heap_invD(8) [OF inv1], of c] that n by blast
    then have "same_data U s1 s'"
      using wrote_same_data [OF inv1 a(3)] by blast
    then have "same_data U s s'"
      using m(1) sz(1) by (simp add: same_data_def)
    ultimately show ?thesis
      using a(1,2) g False by (intro disjI2 exI [of _ s'] exI [of _ F'] exI [of _ "?R \<union> H"]) (simp add: morecore_def Let_def)
  qed
qed

lemma malloc_law:
  assumes "held s H" and "heap_ok s U H" and "n \<noteq> 0" and "unat n + 7 < 2 ^ 32" and "servable ((n + 7) div 8 + 1)"
  shows "\<exists>p s' H'. malloc morecore n s = Some (p, s') \<and> held s' H' \<and> H \<subseteq> H' \<and> same_data U s s' \<and>
    (p = 0 \<and> heap_ok s' U H' \<and> errno s' = ENOMEM \<or>
     (\<exists>h. p = h + 8 \<and> p \<noteq> 0 \<and> h \<notin> U \<and> heap_ok s' (insert h U) H' \<and> unat n \<le> 8 * (unat (hdr_size h s') - 1)))"
proof -
  let ?n = "(n + 7) div 8 + 1"
  obtain F where i: "heap_inv (malloc_start s) F U H" and w: "wrote_in (base_hdr (mbase s)) s (malloc_start s)"
    using malloc_start_spec [OF assms(2) held_base [OF assms(1)]] by blast
  define s1 where "s1 = malloc_start s"
  note i = i [folded s1_def] and w = w [folded s1_def]
  have h1: "held s1 H"
    by (rule held_wrote [OF assms(1) wrote_in_mono [OF w]]) simp
  have "unat (n + 7) = unat n + 7"
    using assms(4) by (simp add: unat_word_ariths)
  then have d: "unat ((n + 7) div 8) = (unat n + 7) div 8"
    by (simp add: unat_div)
  have un: "unat ?n = (unat n + 7) div 8 + 1"
    using d assms(4) by (simp add: unat_word_ariths)
  then have cap: "unat n \<le> 8 * (unat ?n - 1)"
    by simp
  have nz: "?n \<noteq> 0"
    using assms(5) by (simp add: servable_def)
  have s1: "U = {} \<or> s1 = s"
    using assms(2) heap_invD(3,13) [of s _ U H] by (auto simp: heap_ok_def s1_def malloc_start_def)
  then have d2: "same_data U s t" if "same_data U s1 t" for t
    using that by (auto simp: same_data_def)
  have run: "malloc morecore n s = malloc_loop morecore ?n (freep s1) (hdr_ptr (freep s1) s1) s1"
    using assms(3) by (simp add: malloc_def s1_def Let_def add.commute)
  have found: "\<exists>p s'. malloc_loop morecore ?n (freep t) (hdr_ptr (freep t) t) t = Some (p, s') \<and> held s' K \<and> same_data U t s' \<and>
      (\<exists>h. p = h + 8 \<and> p \<noteq> 0 \<and> h \<notin> U \<and> heap_ok s' (insert h U) K \<and> unat n \<le> 8 * (unat (hdr_size h s') - 1))"
    if t: "held t K" "heap_inv t G U K" "q \<in> G" "?n \<le> hdr_size q t" for t K G q
  proof -
    obtain h F' s' where l: "malloc_loop morecore ?n (freep t) (hdr_ptr (freep t) t) t = Some (h + 8, s')" "h \<notin> U"
        "heap_inv s' F' (insert h U) K" "hdr_size h s' = ?n" "wrote_in (free_space t G) t s'"
      using malloc_loop_found [OF t(2-4) nz] by blast
    have "h + 8 \<noteq> 0"
      using client_mem_in_block(2) [OF heap_invD(8) [OF l(3)], of h n] l(4) cap by simp
    moreover have "same_data U t s'"
      by (rule wrote_same_data [OF t(2), of "{}"]) (use l(5) in auto)
    ultimately show ?thesis
      using l cap supply_wrote [OF t(1,2) l(5)] unfolding heap_ok_def
      by (intro exI [of _ "h + 8"] exI [of _ s'] conjI exI [of _ h]) auto
  qed
  show ?thesis
  proof (cases "\<exists>q\<in>F. ?n \<le> hdr_size q s1")
    case True
    then obtain q p s' where "q \<in> F" and f: "malloc_loop morecore ?n (freep s1) (hdr_ptr (freep s1) s1) s1 = Some (p, s')"
        "held s' H" "same_data U s1 s'"
        "\<exists>h. p = h + 8 \<and> p \<noteq> 0 \<and> h \<notin> U \<and> heap_ok s' (insert h U) H \<and> unat n \<le> 8 * (unat (hdr_size h s') - 1)"
      using found [OF h1 i] by (elim bexE) metis
    then show ?thesis
      using d2 [OF f(3)] unfolding run by (intro exI [of _ p] exI [of _ s'] exI [of _ H]) simp
  next
    case False
    then have l: "malloc_loop morecore ?n (freep s1) (hdr_ptr (freep s1) s1) s1 = do {
        (p, s) \<leftarrow> morecore ?n s1;
        if p = 0 then Some (0, s\<lparr>errno := ENOMEM\<rparr>) else malloc_loop morecore ?n p (hdr_ptr p s) s }"
      using malloc_loop_none [OF i, of ?n morecore] by (auto simp: not_le)
    show ?thesis
    proof (cases "morecore ?n s1 = Some (0, s1)")
      case True
      have "heap_inv (s1\<lparr>errno := ENOMEM\<rparr>) F U H"
        using i by (simp add: heap_inv_def hdr_size_def hdr_ptr_def)
      moreover have "same_data U s (s1\<lparr>errno := ENOMEM\<rparr>)"
        by (rule d2) (simp add: same_data_def)
      ultimately show ?thesis
        using True held_errno [OF h1] unfolding run l heap_ok_def
        by (intro exI [of _ 0] exI [of _ "s1\<lparr>errno := ENOMEM\<rparr>"] exI [of _ H]) auto
    next
      case False
      then obtain s2 F' H' q where m: "morecore ?n s1 = Some (freep s2, s2)" "freep s2 \<noteq> 0" "held s2 H'" "heap_inv s2 F' U H'"
          "H \<subseteq> H'" "q \<in> F'" "?n \<le> hdr_size q s2" "same_data U s1 s2"
        using morecore_law [OF h1 i assms(5)] by blast
      obtain p s' where f: "malloc_loop morecore ?n (freep s2) (hdr_ptr (freep s2) s2) s2 = Some (p, s')" "held s' H'" "same_data U s2 s'"
          "\<exists>h. p = h + 8 \<and> p \<noteq> 0 \<and> h \<notin> U \<and> heap_ok s' (insert h U) H' \<and> unat n \<le> 8 * (unat (hdr_size h s') - 1)"
        using found [OF m(3,4,6,7)] by blast
      have "same_data U s s'"
        by (rule d2 [OF same_data_trans [OF m(8) f(3) i]]) simp
      then show ?thesis
        using m(1,2,5) f unfolding run l by (intro exI [of _ p] exI [of _ s'] exI [of _ H']) simp
    qed
  qed
qed

lemma free_law:
  assumes "held s H" and "heap_ok s U H" and "h \<in> U"
  shows "\<exists>s'. free (h + 8) s = Some s' \<and> held s' H \<and> heap_ok s' (U - {h}) H \<and> same_data (U - {h}) s s' \<and>
    (\<forall>a\<in>U - {h}. hdr_size a s' = hdr_size a s)"
proof -
  obtain F where i: "heap_inv s F U H"
    using assms(2,3) by (auto simp: heap_ok_def)
  obtain F' s' where f: "free (h + 8) s = Some s'" "heap_inv s' F' (U - {h}) H" "wrote_in (free_space s F \<union> blk (sizes s) h) s s'"
    using free_spec [OF i assms(3)] by blast
  have "held s' H"
  proof (rule held_wrote [OF assms(1) wrote_in_mono [OF f(3)]])
    show "free_space s F \<union> blk (sizes s) h \<subseteq> base_hdr (mbase s) \<union> H"
      using blocksD(6) [OF heap_invD(8) [OF i]] assms(3) by (auto simp: free_space_def)
  qed
  moreover have d: "same_data (U - {h}) s s'"
  proof (rule wrote_same_data [OF i f(3)])
    show "blk (sizes s) a \<inter> blk (sizes s) h = {}" if "a \<in> U - {h}" for a
      using blocks_apart [OF heap_invD(8) [OF i], of a h] that assms(3) by auto
  qed auto
  ultimately show ?thesis
    using f(1,2) same_data_size(1) [OF d i] by (auto simp: heap_ok_def)
qed

text \<open>Every sequence of requests is served, and the memory of the clients stays apart.\<close>

lemma run_heap_law:
  assumes "held s H" and "clients_ok s L H"
    and "\<And>n. ReqMalloc n \<in> set rs \<Longrightarrow> n \<noteq> 0 \<Longrightarrow> unat n + 7 < 2 ^ 32 \<and> servable ((n + 7) div 8 + 1)"
  shows "\<exists>L' s' H'. run_heap morecore rs L s = Some (L', s') \<and> held s' H' \<and> H \<subseteq> H' \<and> clients_ok s' L' H'"
  using assms
proof (induction rs arbitrary: L s H)
  case (Cons r rs)
  have ok: "heap_ok s (client_blocks L) H" "distinct (map fst L)"
    and cap: "\<And>x. x \<in> set L \<Longrightarrow> snd x \<noteq> 0 \<and> unat (snd x) \<le> 8 * (unat (hdr_size (fst x - 8) s) - 1)"
    using Cons.prems(2) by (auto simp: clients_ok_def)
  have mem: "fst x - 8 \<in> client_blocks L" if "x \<in> set L" for x
    using that by (simp add: client_blocks_def)
  have size: "hdr_size a s' = hdr_size a s" if "same_data (client_blocks L) s s'" "a \<in> client_blocks L" for a s'
    using that ok(1) same_data_size(1) [of "client_blocks L" s s' _ "client_blocks L" H a] by (auto simp: heap_ok_def)
  have IH: "\<exists>L' s' H'. run_heap morecore rs M t = Some (L', s') \<and> held s' H' \<and> K \<subseteq> H' \<and> clients_ok s' L' H'"
    if "held t K" "clients_ok t M K" for t K M
    by (rule Cons.IH [OF that Cons.prems(3)]) simp_all
  show ?case
  proof (cases r)
    case (ReqMalloc n)
    show ?thesis
    proof (cases "n = 0")
      case True
      then show ?thesis
        using IH [OF Cons.prems(1,2)] ReqMalloc by (simp add: malloc_def)
    next
      case False
      have sv: "unat n + 7 < 2 ^ 32" "servable ((n + 7) div 8 + 1)"
        using Cons.prems(3) [of n] ReqMalloc False by auto
      obtain p s1 H1 where m: "malloc morecore n s = Some (p, s1)" "held s1 H1" "H \<subseteq> H1" "same_data (client_blocks L) s s1"
        "p = 0 \<and> heap_ok s1 (client_blocks L) H1 \<and> errno s1 = ENOMEM \<or> (\<exists>h. p = h + 8 \<and> p \<noteq> 0 \<and> h \<notin> client_blocks L \<and>
          heap_ok s1 (insert h (client_blocks L)) H1 \<and> unat n \<le> 8 * (unat (hdr_size h s1) - 1))"
        using malloc_law [OF Cons.prems(1) ok(1) False sv] by (elim exE conjE) (rule that)
      have cap1: "\<And>x. x \<in> set L \<Longrightarrow> snd x \<noteq> 0 \<and> unat (snd x) \<le> 8 * (unat (hdr_size (fst x - 8) s1) - 1)"
        using cap size [OF m(4)] mem by metis
      have "clients_ok s1 (if p = 0 then L else (p, n) # L) H1"
        using m(5)
      proof
        assume "p = 0 \<and> heap_ok s1 (client_blocks L) H1 \<and> errno s1 = ENOMEM"
        then show ?thesis
          using ok(2) cap1 by (simp add: clients_ok_def)
      next
        assume "\<exists>h. p = h + 8 \<and> p \<noteq> 0 \<and> h \<notin> client_blocks L \<and> heap_ok s1 (insert h (client_blocks L)) H1 \<and>
          unat n \<le> 8 * (unat (hdr_size h s1) - 1)"
        then obtain h where h: "p = h + 8" "p \<noteq> 0" "h \<notin> client_blocks L" "heap_ok s1 (insert h (client_blocks L)) H1"
            "unat n \<le> 8 * (unat (hdr_size h s1) - 1)"
          by blast
        have "p \<notin> fst ` set L"
          using mem h(1,3) by force
        moreover have "client_blocks ((p, n) # L) = insert h (client_blocks L)"
          using h(1) by (simp add: client_blocks_def)
        ultimately show ?thesis
          using h ok(2) cap1 False by (simp add: clients_ok_def)
      qed
      from IH [OF m(2) this] obtain L' s' H' where "run_heap morecore rs (if p = 0 then L else (p, n) # L) s1 = Some (L', s')"
          "held s' H'" "H1 \<subseteq> H'" "clients_ok s' L' H'"
        by (elim exE conjE) (rule that)
      then show ?thesis
        using m(1,3) ReqMalloc by (intro exI [of _ L'] exI [of _ s'] exI [of _ H']) auto
    qed
  next
    case (ReqFree p)
    show ?thesis
    proof (cases "p \<in> fst ` set L")
      case False
      then show ?thesis
        using IH [OF Cons.prems(1,2)] ReqFree by simp
    next
      case True
      then have u: "p - 8 \<in> client_blocks L"
        using mem by auto
      obtain s1 where f: "free p s = Some s1" "held s1 H" "heap_ok s1 (client_blocks L - {p - 8}) H"
          "\<forall>a\<in>client_blocks L - {p - 8}. hdr_size a s1 = hdr_size a s"
        using free_law [OF Cons.prems(1) ok(1) u] by auto
      let ?L = "filter (\<lambda>x. fst x \<noteq> p) L"
      have b: "client_blocks ?L = client_blocks L - {p - 8}"
        by (auto simp: client_blocks_def)
      have "clients_ok s1 ?L H"
        unfolding clients_ok_def b using f(3,4) ok(2) cap mem
        by (auto simp: distinct_map_filter)
      from IH [OF f(2) this] show ?thesis
        using f(1) True ReqFree by auto
    qed
  qed
qed auto

end

section \<open>The root server's heap\<close>

text \<open>
  The root server takes frames from the frame allocator: \<open>T\<close> are the frames that were free at the start,
  \<open>A\<close> those in use elsewhere, and the heap holds the bytes of the frames it took.
\<close>

definition frame_bytes :: "u32 \<Rightarrow> nat set" where
  "frame_bytes f = {unat f..<unat f + 4096}"

definition frames_supply :: "u32 set \<Rightarrow> u32 set \<Rightarrow> 'z malloc_st_scheme \<Rightarrow> nat set \<Rightarrow> bool" where
  "frames_supply T A s H \<longleftrightarrow> (\<exists>Fr G. frames_inv s Fr (A \<union> G) \<and> A \<inter> G = {} \<and> set Fr \<union> G = T \<and>
     H = (\<Union>f\<in>G. frame_bytes f) \<and> base_ok (mbase s) {} \<and>
     (\<forall>f\<in>T. unat f + 4096 < 2 ^ 32 \<and> base_ok (mbase s) (frame_bytes f)))"

lemma frame_aligned_8:
  assumes "is_frame f"
  shows "unat f mod 8 = 0"
proof -
  have "4096 dvd unat f"
    using assms by (simp add: is_frame_def page_aligned_iff mod_eq_0_iff_dvd)
  then have "8 dvd unat f"
    by (rule dvd_trans [rotated]) simp
  then show ?thesis
    by (simp add: mod_eq_0_iff_dvd)
qed

lemma frame_bytes_apart:
  assumes "is_frame f" and "is_frame g" and "f \<noteq> g"
  shows "frame_bytes f \<inter> frame_bytes g = {}"
proof -
  have "4096 dvd unat f" "4096 dvd unat g"
    using assms by (simp_all add: is_frame_def page_aligned_iff mod_eq_0_iff_dvd)
  then obtain i j where i: "unat f = 4096 * i" "unat g = 4096 * j"
    by (auto elim!: dvdE)
  moreover have "i \<noteq> j"
    using assms(3) i by (auto simp: word_unat_eq_iff)
  then have "i + 1 \<le> j \<or> j + 1 \<le> i"
    by auto
  ultimately have "unat f + 4096 \<le> unat g \<or> unat g + 4096 \<le> unat f"
    by auto
  then show ?thesis
    by (auto simp: frame_bytes_def)
qed

lemma base_ok_Union: "base_ok b {} \<Longrightarrow> (\<And>f. f \<in> G \<Longrightarrow> base_ok b (K f)) \<Longrightarrow> base_ok b (\<Union>f\<in>G. K f)"
  by (fastforce simp: base_ok_def)

lemma frames_supplyE:
  assumes "frames_supply T A s H"
  obtains Fr G where "frames_inv s Fr (A \<union> G)" "A \<inter> G = {}" "set Fr \<union> G = T" "H = (\<Union>f\<in>G. frame_bytes f)"
    "base_ok (mbase s) {}" "\<And>f. f \<in> T \<Longrightarrow> unat f + 4096 < 2 ^ 32" "\<And>f. f \<in> T \<Longrightarrow> base_ok (mbase s) (frame_bytes f)"
  using assms unfolding frames_supply_def by (elim exE conjE) (rule that; blast)

lemma frames_supply_wrote:
  assumes "frames_supply T A s H" and "wrote_in (base_hdr (mbase s) \<union> H) s s'"
  shows "frames_supply T A s' H"
proof -
  obtain Fr G where f: "frames_inv s Fr (A \<union> G)" "A \<inter> G = {}" "set Fr \<union> G = T" "H = (\<Union>f\<in>G. frame_bytes f)"
      "base_ok (mbase s) {}" "\<And>f. f \<in> T \<Longrightarrow> unat f + 4096 < 2 ^ 32" "\<And>f. f \<in> T \<Longrightarrow> base_ok (mbase s) (frame_bytes f)"
    using frames_supplyE [OF assms(1)] by blast
  obtain m p where w: "s' = s\<lparr>mem := m, freep := p\<rparr>" "\<And>x. unat x \<notin> base_hdr (mbase s) \<union> H \<Longrightarrow> m x = mem s x"
    using assms(2) by (auto simp: wrote_in_def)
  have fr: "is_frame f" if "f \<in> set Fr \<union> G" for f
    using f(1) that by (auto simp: frames_inv_def)
  have "m f = mem s f" if "f \<in> set Fr" for f
  proof (rule w(2))
    have i: "unat f \<in> frame_bytes f"
      by (simp add: frame_bytes_def)
    then have "unat f \<notin> base_hdr (mbase s)"
      using f(3,7) that by (auto simp: base_ok_def)
    moreover have "unat f \<notin> frame_bytes g" if "g \<in> G" for g
      using frame_bytes_apart [of f g] fr [of f] fr [of g] that \<open>f \<in> set Fr\<close> f(1) i by (auto simp: frames_inv_def)
    ultimately show "unat f \<notin> base_hdr (mbase s) \<union> H"
      by (simp add: f(4))
  qed
  then have "chain m (firstFree s) Fr 0"
    using f(1) chain_cong [of Fr m "mem s" "firstFree s" 0] by (simp add: frames_inv_def)
  then have "frames_inv s' Fr (A \<union> G)"
    using f(1) w(1) by (simp add: frames_inv_def)
  then show ?thesis
    unfolding frames_supply_def using f w(1) by (intro exI [of _ Fr] exI [of _ G]) auto
qed

lemma frames_supply_new:
  assumes "frames_supply T A s H" and "frame_alloc FA_MORECORE s = (cp, s')" and "cp \<noteq> 0"
  shows "unat cp mod 8 = 0 \<and> unat cp + 4096 < 2 ^ 32 \<and> frame_bytes cp \<inter> H = {} \<and>
    frames_supply T A s' (frame_bytes cp \<union> H) \<and> freep s' = freep s \<and> mbase s' = mbase s \<and> mem s' = mem s"
proof -
  obtain Fr G where f: "frames_inv s Fr (A \<union> G)" "A \<inter> G = {}" "set Fr \<union> G = T" "H = (\<Union>f\<in>G. frame_bytes f)"
      "base_ok (mbase s) {}" "\<And>f. f \<in> T \<Longrightarrow> unat f + 4096 < 2 ^ 32" "\<And>f. f \<in> T \<Longrightarrow> base_ok (mbase s) (frame_bytes f)"
    using frames_supplyE [OF assms(1)] by blast
  obtain F where Fr: "Fr = cp # F"
    using f(1) assms(2,3) frame_alloc_empty [of s] frame_alloc_pops [of s _ _ "A \<union> G" FA_MORECORE] by (cases Fr) force+
  have i: "frames_inv s' F (insert cp (A \<union> G))"
    using frame_alloc_pops [of s cp F "A \<union> G" FA_MORECORE] f(1) assms(2) by (simp add: Fr)
  have cp: "is_frame cp" "cp \<notin> A \<union> G" "cp \<in> T"
    using f(1,3) by (auto simp: frames_inv_def Fr)
  have "is_frame g" if "g \<in> G" for g
    using f(1) that by (auto simp: frames_inv_def)
  then have "frame_bytes cp \<inter> H = {}"
    using frame_bytes_apart [OF cp(1)] cp(2) by (auto simp: f(4))
  moreover have "unat cp mod 8 = 0"
    by (rule frame_aligned_8 [OF cp(1)])
  moreover have "freep s' = freep s" "mbase s' = mbase s" "mem s' = mem s"
    using assms(2) by (auto simp: frame_alloc_def Let_def split: if_splits)
  moreover have "frames_supply T A s' (frame_bytes cp \<union> H)"
    unfolding frames_supply_def using i f cp \<open>mbase s' = mbase s\<close>
    by (intro exI [of _ F] exI [of _ "insert cp G"]) (auto simp: Fr)
  ultimately show ?thesis
    using f(6) [OF cp(3)] by simp
qed

interpretation rs: core_supply "\<lambda>nb. frame_alloc FA_MORECORE" "frames_supply T A" "\<lambda>nb. nb = 4096"
proof unfold_locales
  fix s s' :: "'a malloc_st_scheme" and H e and nb cp :: u32
  show "base_ok (mbase s) H" if "frames_supply T A s H"
    using that by (rule frames_supplyE) (auto intro: base_ok_Union)
  show "frames_supply T A s' H" if "frames_supply T A s H" "wrote_in (base_hdr (mbase s) \<union> H) s s'"
    using that by (rule frames_supply_wrote)
  show "frames_supply T A (s\<lparr>errno := e\<rparr>) H" if "frames_supply T A s H"
    using that by (simp add: frames_supply_def frames_inv_def)
  show "s' = s" if "frames_supply T A s H" "frame_alloc FA_MORECORE s = (0, s')"
    using that by (auto simp: frame_alloc_def Let_def split: if_splits)
  show "unat cp mod 8 = 0 \<and> unat cp + unat nb < 2 ^ 32 \<and> {unat cp..<unat cp + unat nb} \<inter> H = {} \<and>
      frames_supply T A s' ({unat cp..<unat cp + unat nb} \<union> H) \<and> freep s' = freep s \<and> mbase s' = mbase s \<and> mem s' = mem s"
    if "frames_supply T A s H" "nb = 4096" "frame_alloc FA_MORECORE s = (cp, s')" "cp \<noteq> 0"
    using frames_supply_new [OF that(1,3,4)] that(2) by (simp add: frame_bytes_def)
qed

lemma morecore_rootserver_eq: "morecore_rootserver = rs.morecore"
  by (simp add: fun_eq_iff morecore_rootserver_def rs.morecore_def Let_def split: prod.splits)

lemma servable_frame:
  assumes "unat n \<le> 4088"
  shows "unat n + 7 < 2 ^ 32" "n \<noteq> 0 \<Longrightarrow> rs.servable ((n + 7) div 8 + 1)"
proof -
  show "unat n + 7 < 2 ^ 32"
    using assms by simp
  let ?n = "(n + 7) div 8 + 1"
  have "unat (n + 7) = unat n + 7"
    using assms by (simp add: unat_word_ariths)
  then have "unat ((n + 7) div 8) = (unat n + 7) div 8"
    by (simp add: unat_div)
  then have un: "unat ?n = (unat n + 7) div 8 + 1"
    using assms by (simp add: unat_word_ariths)
  then have b: "0 < unat ?n" "unat ?n \<le> 512"
    using assms by auto
  then have m: "unat (?n * 8) = 8 * unat ?n"
    unfolding unat_word_ariths(2) by simp
  then have "unat (mc_round_up (?n * 8) NALLOC) = (8 * unat ?n + 4095) div 4096 * 4096"
    using mc_round_up_page [of "?n * 8"] b by simp
  moreover have "(8 * unat ?n + 4095) div 4096 = 1"
    using b by auto
  ultimately have "mc_round_up (?n * 8) NALLOC = 4096"
    by (simp add: word_unat_eq_iff)
  moreover have "?n \<noteq> 0"
    using b(1) by auto
  ultimately show "rs.servable ?n"
    using b(2) by (simp add: rs.servable_def)
qed

text \<open>
  C10. The root server's heap is safe: whatever sequence of \<^verbatim>\<open>malloc\<close> and \<^verbatim>\<open>free\<close> requests its clients make,
  freeing only what they hold and asking for at most 4088 bytes at a time, every request is served or
  refused without a crash, the memory of the clients is pairwise disjoint and lies in frames the heap
  took from the frame allocator, and frames are neither lost nor on the free list while they are used.
\<close>

theorem malloc_requests_safe:
  assumes "frames_inv s Fr A" and "freep s = 0" and "base_ok (mbase s) {}"
    and "\<forall>f\<in>set Fr. unat f + 4096 < 2 ^ 32 \<and> base_ok (mbase s) (frame_bytes f)"
    and "\<forall>n. ReqMalloc n \<in> set rs \<longrightarrow> unat n \<le> 4088"
  shows "\<exists>L s' Fr' G. run_heap morecore_rootserver rs [] s = Some (L, s') \<and>
    frames_inv s' Fr' (A \<union> G) \<and> A \<inter> G = {} \<and> set Fr' \<union> G = set Fr \<and>
    (\<forall>x\<in>set L. client_mem x \<subseteq> (\<Union>f\<in>G. frame_bytes f)) \<and>
    (\<forall>x\<in>set L. \<forall>y\<in>set L. x \<noteq> y \<longrightarrow> client_mem x \<inter> client_mem y = {}) \<and> distinct (map fst L)"
proof -
  have "frames_supply (set Fr) A s {}"
    unfolding frames_supply_def using assms(1,3,4) by (intro exI [of _ Fr] exI [of _ "{}"]) auto
  moreover have "clients_ok s [] {}"
    using assms(2) by (simp add: clients_ok_def heap_ok_def client_blocks_def)
  moreover have "unat n + 7 < 2 ^ 32 \<and> rs.servable ((n + 7) div 8 + 1)" if "ReqMalloc n \<in> set rs" "n \<noteq> 0" for n
    using servable_frame [of n] assms(5) that by simp
  ultimately obtain L s' H where r: "run_heap rs.morecore rs [] s = Some (L, s')" "frames_supply (set Fr) A s' H" "clients_ok s' L H"
    using rs.run_heap_law [of "set Fr" A s "{}" "[]" rs] by auto
  have d: "distinct (map fst L)"
    using r(3) by (simp add: clients_ok_def)
  obtain Fr' G where "frames_inv s' Fr' (A \<union> G)" "A \<inter> G = {}" "set Fr' \<union> G = set Fr" "H = (\<Union>f\<in>G. frame_bytes f)"
    by (rule frames_supplyE [OF r(2)])
  then show ?thesis
    using r(1) clients_ok_apart [OF r(3)] d unfolding morecore_rootserver_eq
    by (intro exI [of _ L] exI [of _ s'] exI [of _ Fr'] exI [of _ G] conjI) simp_all
qed

definition heap_example :: malloc_st where
  "heap_example = frames_st.extend frames_two (malloc_st.fields 0x500 0 0)"

lemma heap_example_inv:
  "frames_inv heap_example [0x1000, 0x2000] {}" "freep heap_example = 0" "mbase heap_example = 0x500"
  by (simp_all add: heap_example_def frames_two_def frames_none_def frames_inv_def is_frame_def malloc_st.defs frames_st.defs)

theorem malloc_requests_safe_witness:
  "\<exists>L s' Fr' G. run_heap morecore_rootserver [ReqMalloc 100, ReqMalloc 4088, ReqFree 0x1F98, ReqMalloc 24] [] heap_example = Some (L, s') \<and>
    frames_inv s' Fr' ({} \<union> G) \<and> {} \<inter> G = {} \<and> set Fr' \<union> G = set [0x1000, 0x2000] \<and>
    (\<forall>x\<in>set L. client_mem x \<subseteq> (\<Union>f\<in>G. frame_bytes f)) \<and>
    (\<forall>x\<in>set L. \<forall>y\<in>set L. x \<noteq> y \<longrightarrow> client_mem x \<inter> client_mem y = {}) \<and> distinct (map fst L)"
  by (rule malloc_requests_safe) (auto simp: heap_example_inv base_ok_def base_hdr_def frame_bytes_def)

text \<open>Requests of more than one frame and at most two: \<^verbatim>\<open>morecore\<close> rounds them up to 8192 bytes.\<close>

lemma oversize_units:
  fixes n :: u32
  assumes "4088 < unat n" and "unat n \<le> 8184"
  shows "unat ((n + 7) div 8 + 1) = (unat n + 7) div 8 + 1"
    and "mc_round_up (((n + 7) div 8 + 1) * 8) NALLOC = 8192"
proof -
  let ?n = "(n + 7) div 8 + 1"
  have "unat (n + 7) = unat n + 7"
    using assms by (simp add: unat_word_ariths)
  then have "unat ((n + 7) div 8) = (unat n + 7) div 8"
    by (simp add: unat_div)
  then show un: "unat ?n = (unat n + 7) div 8 + 1"
    using assms by (simp add: unat_word_ariths)
  have b: "513 \<le> unat ?n" "unat ?n \<le> 1024"
    unfolding un using assms by linarith+
  then have "unat (?n * 8) = 8 * unat ?n"
    unfolding unat_word_ariths(2) by simp
  then have "unat (mc_round_up (?n * 8) NALLOC) = (8 * unat ?n + 4095) div 4096 * 4096"
    using mc_round_up_page [of "?n * 8"] b by simp
  moreover have "(8 * unat ?n + 4095) div 4096 = 2"
    using b by auto
  ultimately show "mc_round_up (?n * 8) NALLOC = 8192"
    by (simp add: word_unat_eq_iff)
qed

text \<open>The first memory added to a heap whose list is the static block alone.\<close>

lemma free_first_block:
  assumes "hdr_ptr b s = b" and "hdr_size b (set_ptr f b s) = 0" and "freep s = b" and "hdr_size f s = 1024"
    and "b \<noteq> 0" and "b \<noteq> f" and "f + 8 \<noteq> 0" and "f + 8192 \<noteq> b"
  shows "free (f + 8) s = Some ((set_ptr b f (set_ptr f b s))\<lparr>freep := b\<rparr>)"
proof -
  have "free_search f b s = Some b"
    using assms(1,6) by (subst free_search.simps) auto
  moreover have "join_upper f b s = set_ptr f b s"
    using assms(1,4,8) by (simp add: join_upper_def hdr_plus_def)
  moreover have "join_lower f b (set_ptr f b s) = set_ptr b f (set_ptr f b s)"
    using assms(2,6) by (simp add: join_lower_def hdr_plus_def)
  ultimately show ?thesis
    using assms(3,5,7) by (simp add: free_def malloc_start_def)
qed

lemma unat_numeral_1024: "unat (1024 :: u32) = 1024"
  by simp

lemma oversize_first_malloc:
  assumes "frames_inv s (f # g # Fr) A" and "unat f + 8192 < 2 ^ 32" and "freep s = 0"
    and "base_ok (mbase s) {unat f..<unat f + 8192}" and "4088 < unat n" and "unat n \<le> 8184"
  shows "\<exists>s'. malloc morecore_rootserver n s = Some (malloc_take ((n + 7) div 8 + 1) (mbase s) f s') \<and>
    hdr_size f s' = 1024 \<and> firstFree s' = g"
proof -
  let ?b = "mbase s" and ?n = "(n + 7) div 8 + 1"
  have b: "?b \<noteq> 0" "unat ?b mod 8 = 0"
    using assms(4) by (auto simp: base_ok_def)
  have fr: "is_frame f" "mem s f = g" "firstFree s = f"
    using assms(1) by (auto simp: frames_inv_def is_frame_def)
  then have f8: "unat f mod 8 = 0" and f0: "f \<noteq> 0"
    using frame_aligned_8 by (auto simp: is_frame_def)
  have bf: "?b \<noteq> f"
    using assms(4) by (auto simp: base_ok_def base_hdr_def)
  have "unat (f + 8192) = unat f + 8192"
    using assms(2) by (simp add: unat_word_ariths)
  then have up: "f + 8192 \<noteq> ?b"
    using assms(4) by (auto simp: base_ok_def)
  have b4: "?b + 4 \<noteq> f"
    by (rule aligned_plus_4 [OF b(2) f8])
  define s1 where "s1 = malloc_start s"
  have s1: "hdr_ptr ?b s1 = ?b" "hdr_size ?b s1 = 0" "freep s1 = ?b" "mem s1 f = g" "firstFree s1 = f" "mbase s1 = ?b"
    using assms(3) b bf b4 fr
    by (simp_all add: s1_def malloc_start_def hdr_updates) (simp_all add: set_ptr_def set_size_def)
  define s2 where "s2 = set_size f 1024 (s1\<lparr>firstFree := g, totalInUse := totalInUse s1 + 1\<rparr>)"
  have fa: "frame_alloc FA_MORECORE s1 = (f, s1\<lparr>firstFree := g, totalInUse := totalInUse s1 + 1\<rparr>)"
    using s1 f0 by (simp add: frame_alloc_def)
  define s3 where "s3 = (set_ptr ?b f (set_ptr f ?b s2))\<lparr>freep := ?b\<rparr>"
  have s2: "hdr_ptr ?b s2 = ?b" "hdr_size ?b (set_ptr f ?b s2) = 0" "freep s2 = ?b" "hdr_size f s2 = 1024"
    using s1 bf b(2) f8 by (simp_all add: hdr_updates s2_def) (simp_all add: hdr_ptr_def hdr_size_def set_size_def)
  have "unat (f + 8) = unat f + 8"
    using assms(2) by (simp add: unat_word_ariths)
  then have "f + 8 \<noteq> 0"
    by (auto simp: word_unat_eq_iff)
  then have ff: "free (f + 8) s2 = Some s3"
    using free_first_block [OF s2 b(1) bf _ up] by (simp add: s3_def)
  have nb: "mc_round_up (?n * 8) 4096 = 8192" and n0: "\<not> ?n \<le> 0" and n1: "?n \<le> 1024"
    using oversize_units [OF assms(5,6)] assms(5,6) by (auto simp: word_le_nat_alt)
  have "malloc morecore_rootserver n s = malloc_loop morecore_rootserver ?n ?b ?b s1"
    using s1 assms(5) by (auto simp: malloc_def s1_def [symmetric] Let_def add.commute)
  also have "\<dots> = malloc_loop morecore_rootserver ?n ?b (hdr_ptr ?b s3) s3"
    using s1(2,3) fa ff b(1) nb f0 n0
    by (subst malloc_loop.simps) (simp add: morecore_rootserver_def Let_def add_core_def hdr_plus_def s2_def [symmetric], simp add: s3_def)
  also have "\<dots> = Some (malloc_take ?n ?b f s3)"
    using b(2) f8 bf s2 n1 by (subst malloc_loop.simps) (simp add: s3_def hdr_updates)
  finally have "malloc morecore_rootserver n s = Some (malloc_take ?n ?b f s3)" .
  moreover have "hdr_size f s3 = 1024"
    using s2(4) b(2) f8 by (simp add: s3_def hdr_updates)
  moreover have "firstFree s3 = g"
    by (simp add: s3_def s2_def set_size_def set_ptr_def)
  ultimately show ?thesis by blast
qed

text \<open>
  C30. \<^verbatim>\<open>morecore\<close> of the root server takes one frame however much is asked for. Let the two first frames
  on the free list be adjacent, below the top of memory and apart from the static block of the heap, and
  let the first request of the heap be for 4089 to 8184 bytes. Then \<^verbatim>\<open>malloc\<close> succeeds, the memory it
  returns contains the first word of the second frame, by which that frame is linked to the rest of the
  free list, and the second frame is what the frame allocator hands out next.
\<close>

theorem malloc_overruns_frame:
  assumes "frames_inv s (f # g # Fr) A" and "g = f + 4096" and "unat f + 8192 < 2 ^ 32" and "freep s = 0"
    and "base_ok (mbase s) {unat f..<unat f + 8192}" and "4088 < unat n" and "unat n \<le> 8184"
  shows "\<exists>p s'. malloc morecore_rootserver n s = Some (p, s') \<and> p \<noteq> 0 \<and>
    {unat g..<unat g + 4} \<subseteq> client_mem (p, n) \<and> fst (frame_alloc reason s') = g"
proof -
  let ?n = "(n + 7) div 8 + 1"
  obtain s' where s': "malloc morecore_rootserver n s = Some (malloc_take ?n (mbase s) f s')"
      "hdr_size f s' = 1024" "firstFree s' = g"
    using oversize_first_malloc [OF assms(1,3-7)] by (elim exE conjE) (rule that)
  have un: "unat ?n = (unat n + 7) div 8 + 1"
    by (rule oversize_units [OF assms(6,7)])
  define j where "j = 1024 - ?n"
  have n1: "513 \<le> unat ?n" "unat ?n \<le> 1024" "8 * unat ?n \<le> unat n + 15"
    unfolding un using assms(6,7) by (auto simp: algebra_simps)
  then have "unat j = 1024 - unat ?n"
    unfolding j_def by (subst unat_sub) (simp_all only: word_le_nat_alt unat_numeral_1024)
  then have p: "unat (f + 8 * j + 8) = unat f + 8 * (1024 - unat ?n) + 8"
    using assms(3) n1(1) by (simp add: unat_word_ariths)
  have g: "unat g = unat f + 4096" "g \<noteq> 0"
    using assms(2,3) by (auto simp: unat_word_ariths word_unat_eq_iff)
  have "fst (malloc_take ?n (mbase s) f s') = f + 8 * j + 8" "firstFree (snd (malloc_take ?n (mbase s) f s')) = g"
    using s'(2,3) unfolding j_def malloc_take_def Let_def
    by (simp_all add: hdr_plus_def hdr_updates) (auto simp: set_size_def set_ptr_def)
  moreover have "{unat g..<unat g + 4} \<subseteq> client_mem (f + 8 * j + 8, n)"
    unfolding client_mem_def fst_conv snd_conv p g(1) using n1 by auto
  moreover have "f + 8 * j + 8 \<noteq> 0"
    using p by (auto simp: word_unat_eq_iff)
  ultimately show ?thesis
    using s'(1) g(2)
    by (intro exI [of _ "f + 8 * j + 8"] exI [of _ "snd (malloc_take ?n (mbase s) f s')"])
      (auto simp: frame_alloc_def prod_eq_iff)
qed

theorem malloc_overruns_frame_witness:
  "\<exists>p s'. malloc morecore_rootserver 5000 heap_example = Some (p, s') \<and> p \<noteq> 0 \<and>
    {unat (0x2000 :: u32)..<unat (0x2000 :: u32) + 4} \<subseteq> client_mem (p, 5000) \<and> fst (frame_alloc FA_STACK s') = 0x2000"
  by (rule malloc_overruns_frame [of _ "0x1000" _ "[]" "{}"])
    (auto simp: heap_example_inv base_ok_def base_hdr_def)

end
